(* ===== verification/Prism_Prelude.thy ===== *)
theory Prism_Prelude
  imports Complex_Main "HOL-Library.AList" "HOL-Library.Char_ord" "HOL-Library.List_Lexorder"
    "HOL-Library.Product_Lexorder" "HOL-Library.Word" "HOL-Library.Sublist"
begin

text \<open>
  Shared vocabulary of the development.  A Python \<open>dict\<close> keeps its insertion order and overwrites
  in place, so it is an association list with distinct keys, written with the operations of
  \<open>HOL-Library.AList\<close>.  Exceptions are the left summand of a sum; an operation that can raise after
  it has already written something returns the written state beside the sum.  Points in time and
  ratios are real numbers: every value read from the process clock is an argument of the operation
  that reads it, and rounding of binary floating point is not modelled.  The locales of this theory
  state the interfaces the components share: dictionaries, counters kept in a dictionary, and
  systems of operations with an invariant.
\<close>

named_theorems dict_simps \<open>what lookups return after dictionary updates\<close>
named_theorems inv_intros \<open>operations keep the invariant of their component\<close>

subsection \<open>Names of basic types\<close>

type_synonym time = real
type_synonym ('k, 'v) dict = "('k \<times> 'v) list"
type_synonym ('s, 'e, 'a) outcome = "'s \<times> ('e + 'a)"

subsection \<open>Dictionaries\<close>

abbreviation dget :: "('k, 'v) dict \<Rightarrow> 'k \<Rightarrow> 'v option" where
  "dget d k \<equiv> map_of d k"

abbreviation dput :: "('k, 'v) dict \<Rightarrow> 'k \<Rightarrow> 'v \<Rightarrow> ('k, 'v) dict" where
  "dput d k v \<equiv> AList.update k v d"

abbreviation dpop :: "('k, 'v) dict \<Rightarrow> 'k \<Rightarrow> ('k, 'v) dict" where
  "dpop d k \<equiv> AList.delete k d"

abbreviation dkeys :: "('k, 'v) dict \<Rightarrow> 'k list" where
  "dkeys d \<equiv> map fst d"

abbreviation dvals :: "('k, 'v) dict \<Rightarrow> 'v list" where
  "dvals d \<equiv> map snd d"

abbreviation dhas :: "('k, 'v) dict \<Rightarrow> 'k \<Rightarrow> bool" where
  "dhas d k \<equiv> dget d k \<noteq> None"

abbreviation wf_dict :: "('k, 'v) dict \<Rightarrow> bool" where
  "wf_dict d \<equiv> distinct (dkeys d)"

definition dget_or :: "('k, 'v) dict \<Rightarrow> 'k \<Rightarrow> 'v \<Rightarrow> 'v" where
  "dget_or d k v = (case dget d k of None \<Rightarrow> v | Some u \<Rightarrow> u)"

definition dsetdefault :: "('k, 'v) dict \<Rightarrow> 'k \<Rightarrow> 'v \<Rightarrow> ('k, 'v) dict" where
  "dsetdefault d k v = (if dhas d k then d else dput d k v)"

text \<open>\<open>(x,) if x is not None else ()\<close>.\<close>

definition set_option_list :: "'a option \<Rightarrow> 'a list" where
  "set_option_list x = (case x of None \<Rightarrow> [] | Some v \<Rightarrow> [v])"

lemmas dict_laws [dict_simps] = update_conv' delete_conv'

declare map_of_eq_Some_iff [simp del] Some_eq_map_of_iff [simp del]

lemmas dict_items = map_of_eq_Some_iff

lemma dget_or_dput [dict_simps]:
  "dget_or (dput d k v) j x = (if j = k then v else dget_or d j x)"
  by (simp add: dget_or_def dict_simps)

lemma dget_or_dpop [dict_simps]:
  "dget_or (dpop d k) j x = (if j = k then x else dget_or d j x)"
  by (simp add: dget_or_def dict_simps)

lemma dget_or_dsetdefault [dict_simps]:
  "dget_or (dsetdefault d k v) j x = (if j = k \<and> \<not> dhas d k then v else dget_or d j x)"
  by (auto simp: dget_or_def dsetdefault_def dict_simps)

lemma dget_dsetdefault [dict_simps]:
  "dget (dsetdefault d k v) j = (if j = k \<and> \<not> dhas d k then Some v else dget d j)"
  by (auto simp: dsetdefault_def dict_simps)

lemma wf_dict_dput [simp, intro]: "wf_dict d \<Longrightarrow> wf_dict (dput d k v)"
  by (rule distinct_update)

lemma wf_dict_dpop [simp, intro]: "wf_dict d \<Longrightarrow> wf_dict (dpop d k)"
  by (rule distinct_delete)

lemma wf_dict_dsetdefault [simp, intro]: "wf_dict d \<Longrightarrow> wf_dict (dsetdefault d k v)"
  by (simp add: dsetdefault_def)

lemma wf_dict_filter [simp, intro]: "wf_dict d \<Longrightarrow> wf_dict (filter P d)"
  by (rule distinct_map_filter)

lemma dput_dput [simp]: "dput (dput d k v) k w = dput d k w"
  by (induction d) auto

lemma dput_same: "dget d k = Some v \<Longrightarrow> dput d k v = d"
  by (induction d) auto

lemma dvals_iff: "wf_dict d \<Longrightarrow> v \<in> set (dvals d) \<longleftrightarrow> (\<exists>k. dget d k = Some v)"
  by (force simp: dict_items)

lemma dkeys_iff: "k \<in> set (dkeys d) \<longleftrightarrow> dhas d k"
  by (simp add: map_of_eq_None_iff)

lemma set_dpop: "set (dpop d k) = {p \<in> set d. fst p \<noteq> k}"
  by (induction d) auto

lemma set_dput_subset: "set (dput d k v) \<subseteq> insert (k, v) (set d)"
  by (induction d) auto

lemma length_dpop:
  "wf_dict d \<Longrightarrow> length (dpop d k) = length d - (if dhas d k then 1 else 0)"
proof (induction d)
  case Nil
  then show ?case by simp
next
  case (Cons p d)
  show ?case
  proof (cases "fst p = k")
    case True
    with Cons.prems have "dpop d k = d" by auto
    with True show ?thesis by simp
  next
    case False
    moreover have "dhas d k \<Longrightarrow> 0 < length d" by auto
    ultimately show ?thesis using Cons by (cases p) auto
  qed
qed

lemma length_dput: "length (dput d k v) = length d + (if dhas d k then 0 else 1)"
  by (induction d) auto

subsection \<open>Sums over the values of a dictionary\<close>

definition dsum :: "('v \<Rightarrow> int) \<Rightarrow> ('k, 'v) dict \<Rightarrow> int" where
  "dsum f d = sum_list (map f (dvals d))"

definition dval_at :: "('v \<Rightarrow> int) \<Rightarrow> 'v option \<Rightarrow> int" where
  "dval_at f x = (case x of None \<Rightarrow> 0 | Some v \<Rightarrow> f v)"

lemma dval_at_simps [simp]: "dval_at f None = 0" "dval_at f (Some v) = f v"
  by (simp_all add: dval_at_def)

lemma dsum_Nil [simp]: "dsum f [] = 0"
  by (simp add: dsum_def)

lemma dsum_dput: "dsum f (dput d k v) = dsum f d - dval_at f (dget d k) + f v"
  by (induction d) (auto simp: dsum_def)

lemma dsum_dpop: "wf_dict d \<Longrightarrow> dsum f (dpop d k) = dsum f d - dval_at f (dget d k)"
proof (induction d)
  case Nil
  then show ?case by (simp add: dsum_def)
next
  case (Cons p d)
  show ?case
  proof (cases "fst p = k")
    case True
    with Cons.prems have "dpop d k = d" by auto
    with True show ?thesis by (cases p) (simp add: dsum_def)
  next
    case False
    with Cons show ?thesis by (cases p) (auto simp: dsum_def)
  qed
qed

lemma dsum_nonneg: "(\<And>v. v \<in> set (dvals d) \<Longrightarrow> 0 \<le> f v) \<Longrightarrow> 0 \<le> dsum f d"
  unfolding dsum_def by (rule sum_list_nonneg) force

lemma dsum_ge_member:
  assumes "wf_dict d" "dget d k = Some v" "\<And>v. v \<in> set (dvals d) \<Longrightarrow> 0 \<le> f v"
  shows "f v \<le> dsum f d"
proof -
  have "0 \<le> dsum f (dpop d k)"
    using assms(3) by (intro dsum_nonneg) (auto simp: set_dpop)
  then show ?thesis using assms(1,2) by (simp add: dsum_dpop)
qed

lemma member_le_sum_list_int: "(n::int) \<in> set ns \<Longrightarrow> \<forall>m \<in> set ns. 0 \<le> m \<Longrightarrow> n \<le> sum_list ns"
proof (induction ns)
  case (Cons m ns)
  moreover have "0 \<le> sum_list ns" using Cons.prems(2) by (intro sum_list_nonneg) auto
  ultimately show ?case by auto
qed simp

subsection \<open>Selection by key, as \<open>min\<close> and \<open>max\<close> do it\<close>

text \<open>
  Python's \<open>min(xs, key=f)\<close> and \<open>max(xs, key=f)\<close> scan from the left and replace the best value
  found so far only by a strictly better one, so the first of several equally good values wins.
\<close>

fun first_min :: "('a \<Rightarrow> 'b::linorder) \<Rightarrow> 'a \<Rightarrow> 'a list \<Rightarrow> 'a" where
  "first_min f b [] = b"
| "first_min f b (x # xs) = first_min f (if f x < f b then x else b) xs"

fun first_max :: "('a \<Rightarrow> 'b::linorder) \<Rightarrow> 'a \<Rightarrow> 'a list \<Rightarrow> 'a" where
  "first_max f b [] = b"
| "first_max f b (x # xs) = first_max f (if f b < f x then x else b) xs"

definition min_by :: "('a \<Rightarrow> 'b::linorder) \<Rightarrow> 'a list \<Rightarrow> 'a option" where
  "min_by f xs = (case xs of [] \<Rightarrow> None | x # xs' \<Rightarrow> Some (first_min f x xs'))"

definition max_by :: "('a \<Rightarrow> 'b::linorder) \<Rightarrow> 'a list \<Rightarrow> 'a option" where
  "max_by f xs = (case xs of [] \<Rightarrow> None | x # xs' \<Rightarrow> Some (first_max f x xs'))"

lemma first_min_least: "first_min f b xs \<in> insert b (set xs) \<and> (\<forall>x \<in> insert b (set xs). f (first_min f b xs) \<le> f x)"
proof (induction f b xs rule: first_min.induct)
  case (1 f b)
  then show ?case by simp
next
  case (2 f b x xs)
  then show ?case by (cases "f x < f b") fastforce+
qed

lemma first_max_greatest: "first_max f b xs \<in> insert b (set xs) \<and> (\<forall>x \<in> insert b (set xs). f x \<le> f (first_max f b xs))"
proof (induction f b xs rule: first_max.induct)
  case (1 f b)
  then show ?case by simp
next
  case (2 f b x xs)
  then show ?case by (cases "f b < f x") fastforce+
qed

lemma min_by_None [simp]: "min_by f xs = None \<longleftrightarrow> xs = []"
  by (simp add: min_by_def split: list.splits)

lemma max_by_None [simp]: "max_by f xs = None \<longleftrightarrow> xs = []"
  by (simp add: max_by_def split: list.splits)

lemma select_Nil [simp]: "min_by f [] = None" "max_by f [] = None"
  by simp_all

lemma filter_set_member: "x \<in> set (filter P xs) \<Longrightarrow> x \<in> set xs"
  by simp

lemma min_by_Some:
  assumes "min_by f xs = Some m"
  shows "m \<in> set xs" "\<forall>x \<in> set xs. f m \<le> f x"
proof -
  from assms obtain y ys where xs: "xs = y # ys" and m: "m = first_min f y ys"
    by (auto simp: min_by_def split: list.splits)
  from first_min_least [of f y ys] show "m \<in> set xs" "\<forall>x \<in> set xs. f m \<le> f x"
    unfolding xs m by auto
qed

lemma max_by_Some:
  assumes "max_by f xs = Some m"
  shows "m \<in> set xs" "\<forall>x \<in> set xs. f x \<le> f m"
proof -
  from assms obtain y ys where xs: "xs = y # ys" and m: "m = first_max f y ys"
    by (auto simp: max_by_def split: list.splits)
  from first_max_greatest [of f y ys] show "m \<in> set xs" "\<forall>x \<in> set xs. f x \<le> f m"
    unfolding xs m by auto
qed

text \<open>\<open>sorted(xs, key=f)\<close> is stable, as \<^term>\<open>sort_key\<close> is.\<close>

lemma sort_key_sorted_id: "sorted (map f xs) \<Longrightarrow> sort_key f xs = xs"
  by (induction xs) (auto simp: insort_is_Cons)

lemma sort_key_map_snd:
  fixes ds :: "('k::linorder \<times> 'v) list" and g :: "'v \<Rightarrow> 'w"
  shows "sort_key fst (map (\<lambda>p. (fst p, g (snd p))) ds) = map (\<lambda>p. (fst p, g (snd p))) (sort_key fst ds)"
proof -
  have "insort_key fst (fst p, g (snd p)) (map (\<lambda>p. (fst p, g (snd p))) es) =
      map (\<lambda>p. (fst p, g (snd p))) (insort_key fst p es)" for p :: "'k \<times> 'v" and es
    by (induction es) auto
  then show ?thesis by (induction ds) auto
qed

subsection \<open>Metrics\<close>

text \<open>
  A component that reports to the metrics collector keeps the list of calls it has made, oldest
  first; the collector itself is an observer that no component reads back.
\<close>

type_synonym labels = "(string \<times> string) list"

datatype metric =
  Increment string real labels
| Gauge string real labels
| Observe string real labels

subsection \<open>Interfaces\<close>

text \<open>
  Counters kept in a dictionary: a component adds to an account, subtracts from it without going
  below zero, and reads balances.
\<close>

locale counter_ledger =
  fixes balance :: "'l \<Rightarrow> 'k \<Rightarrow> int"
    and credit :: "'l \<Rightarrow> 'k \<Rightarrow> int \<Rightarrow> 'l"
    and debit :: "'l \<Rightarrow> 'k \<Rightarrow> int \<Rightarrow> 'l"
  assumes balance_credit: "balance (credit l k n) j = balance l j + (if j = k then n else 0)"
    and balance_debit: "balance (debit l k n) j = (if j = k then max 0 (balance l k - n) else balance l j)"
begin

lemma debit_exact: "n \<le> balance l k \<Longrightarrow> balance (debit l k n) k = balance l k - n"
  by (simp add: balance_debit)

lemma credit_debit: "0 \<le> balance l k \<Longrightarrow> balance (debit (credit l k n) k n) j = balance l j"
  by (simp add: balance_debit balance_credit)

lemma debit_nonneg: "0 \<le> balance l j \<Longrightarrow> 0 \<le> balance (debit l k n) j"
  by (simp add: balance_debit)

end

text \<open>
  A component as a system of operations: whatever list of operations its clients call, each one
  admissible where it is called, the states they see satisfy the invariant when one operation keeps
  it.
\<close>

fun ok_run :: "('s \<Rightarrow> 'op \<Rightarrow> 's) \<Rightarrow> ('s \<Rightarrow> 'op \<Rightarrow> bool) \<Rightarrow> 's \<Rightarrow> 'op list \<Rightarrow> bool" where
  "ok_run exec admissible s [] = True"
| "ok_run exec admissible s (x # xs) \<longleftrightarrow> admissible s x \<and> ok_run exec admissible (exec s x) xs"

lemma ok_run_mono:
  "ok_run exec adm s xs \<Longrightarrow> (\<And>t x. adm t x \<Longrightarrow> adm' t x) \<Longrightarrow> ok_run exec adm' s xs"
  by (induction xs arbitrary: s) auto

lemma ok_run_True [simp]: "ok_run exec (\<lambda>_ _. True) s xs"
  by (induction xs arbitrary: s) auto

locale op_system =
  fixes exec :: "'s \<Rightarrow> 'op \<Rightarrow> 's"
    and admissible :: "'s \<Rightarrow> 'op \<Rightarrow> bool"
    and inv :: "'s \<Rightarrow> bool"
  assumes exec_inv: "inv s \<Longrightarrow> admissible s x \<Longrightarrow> inv (exec s x)"
begin

lemma run_inv: "ok_run exec admissible s xs \<Longrightarrow> inv s \<Longrightarrow> inv (foldl exec s xs)"
  by (induction xs arbitrary: s) (auto intro: exec_inv)

lemma run_step_inv:
  "ok_run exec admissible s (xs @ ys) \<Longrightarrow> inv s \<Longrightarrow> inv (foldl exec s xs) \<and> ok_run exec admissible (foldl exec s xs) ys"
  by (induction xs arbitrary: s) (auto intro: exec_inv)

text \<open>A function of the state that no admissible operation changes is constant along a run.\<close>

lemma run_const:
  assumes "\<And>t x. inv t \<Longrightarrow> admissible t x \<Longrightarrow> f (exec t x) = f t"
  shows "ok_run exec admissible s xs \<Longrightarrow> inv s \<Longrightarrow> f (foldl exec s xs) = f s"
  using assms by (induction xs arbitrary: s) (auto simp: exec_inv)

text \<open>A preorder that every admissible operation respects relates the first state of a run to the last.\<close>

lemma run_rel:
  assumes step: "\<And>t x. inv t \<Longrightarrow> admissible t x \<Longrightarrow> R t (exec t x)"
    and refl: "\<And>t. R t t" and trans: "\<And>t u v. R t u \<Longrightarrow> R u v \<Longrightarrow> R t v"
  shows "ok_run exec admissible s xs \<Longrightarrow> inv s \<Longrightarrow> R s (foldl exec s xs)"
proof (induction xs arbitrary: s)
  case Nil
  show ?case by (simp add: refl)
next
  case (Cons x xs)
  then have "R s (exec s x)" "R (exec s x) (foldl exec (exec s x) xs)" by (simp_all add: step exec_inv)
  then show ?case using trans by simp
qed

end

end
