(* ===== verification/Json.thy ===== *)
theory Json
  imports Prism_Prelude
begin

text \<open>
  JSON values as the Python code sees them after \<open>json.loads\<close>: objects are dictionaries, \<open>null\<close> is
  \<open>None\<close>, and a missing key read with \<open>.get\<close> is \<open>None\<close> too.  The digests of the program are taken
  over \<open>json.dumps(value, sort_keys=True, separators=(',', ':'))\<close>; the text depends on the value only
  up to the order of the keys, so the digest is a function of the value with all keys sorted.  The
  hash function itself (SHA-256 over the text) is a parameter.
\<close>

datatype json =
  JNull
| JBool bool
| JInt int
| JFloat real
| JStr string
| JArr "json list"
| JObj "(string \<times> json) list"

type_synonym jobj = "(string, json) dict"

definition jget :: "jobj \<Rightarrow> string \<Rightarrow> json" where
  "jget d k = dget_or d k JNull"

fun is_JStr :: "json \<Rightarrow> bool" where
  "is_JStr (JStr s) = True"
| "is_JStr _ = False"

fun the_str :: "json \<Rightarrow> string" where
  "the_str (JStr s) = s"
| "the_str _ = []"

text \<open>
  \<open>isinstance(v, int)\<close> with booleans excluded, the test the validators of the program write as
  \<open>isinstance(v, bool) or not isinstance(v, int)\<close>.
\<close>

fun strict_int :: "json \<Rightarrow> int option" where
  "strict_int (JInt n) = Some n"
| "strict_int _ = None"

subsection \<open>Equality of Python values\<close>

text \<open>
  \<open>==\<close> compares numbers by value across \<open>bool\<close>, \<open>int\<close> and \<open>float\<close>, lists element by element, and
  dictionaries without regard to order.
\<close>

fun py_num :: "json \<Rightarrow> real option" where
  "py_num (JBool b) = Some (if b then 1 else 0)"
| "py_num (JInt n) = Some (of_int n)"
| "py_num (JFloat x) = Some x"
| "py_num _ = None"

lemma size_zip_fst: "p \<in> set (zip xs ys) \<Longrightarrow> size (fst p) < size (JArr xs)"
proof -
  assume "p \<in> set (zip xs ys)"
  then have "fst p \<in> set xs" using set_zip_leftD [of "fst p" "snd p"] by simp
  then show ?thesis
    using size_list_estimation' [of "fst p" xs "size (fst p)" size] by simp
qed

lemma size_obj_snd: "p \<in> set ds \<Longrightarrow> size (snd p) < size (JObj ds)"
  by (induction ds) auto

function py_eq :: "json \<Rightarrow> json \<Rightarrow> bool" where
  "py_eq x y =
     (case (py_num x, py_num y) of
        (Some a, Some b) \<Rightarrow> a = b
      | (None, None) \<Rightarrow>
          (case (x, y) of
             (JNull, JNull) \<Rightarrow> True
           | (JStr s, JStr t) \<Rightarrow> s = t
           | (JArr xs, JArr ys) \<Rightarrow>
               length xs = length ys \<and> (\<forall>p \<in> set (zip xs ys). py_eq (fst p) (snd p))
           | (JObj ds, JObj es) \<Rightarrow>
               length ds = length es \<and>
               (\<forall>p \<in> set ds. case dget es (fst p) of None \<Rightarrow> False | Some v \<Rightarrow> py_eq (snd p) v)
           | _ \<Rightarrow> False)
      | _ \<Rightarrow> False)"
  by pat_completeness auto
termination
  by (relation "measure (size \<circ> fst)") (auto simp del: json.size dest: size_zip_fst size_obj_snd)

declare py_eq.simps [simp del]

lemma py_eq_str [simp]: "py_eq (JStr s) (JStr t) \<longleftrightarrow> s = t"
  by (simp add: py_eq.simps)

lemma py_eq_int [simp]: "py_eq (JInt m) (JInt n) \<longleftrightarrow> m = n"
  by (simp add: py_eq.simps)

subsection \<open>Canonical values and digests\<close>

fun canon :: "json \<Rightarrow> json" where
  "canon (JArr xs) = JArr (map canon xs)"
| "canon (JObj ds) = JObj (sort_key fst (map (\<lambda>p. (fst p, canon (snd p))) ds))"
| "canon x = x"

lemma canon_idem [simp]: "canon (canon x) = canon x"
proof (induction x rule: canon.induct)
  case (1 xs)
  then show ?case by simp
next
  case (2 ds)
  have hh: "map ((\<lambda>p. (fst p, canon (snd p))) \<circ> (\<lambda>p. (fst p, canon (snd p)))) (sort_key fst ds) =
      map (\<lambda>p. (fst p, canon (snd p))) (sort_key fst ds)"
    using 2 by (auto simp: prod_eq_iff)
  have ss: "sort_key fst (sort_key fst ds) = sort_key fst ds"
    by (rule sort_key_sorted_id) simp
  show ?case by (simp only: canon.simps sort_key_map_snd map_map ss hh)
qed auto

text \<open>The digest of a value, for a given hash of the canonical text.\<close>

definition digest :: "(json \<Rightarrow> string) \<Rightarrow> json \<Rightarrow> string" where
  "digest sha v = ''sha256:'' @ sha (canon v)"

lemma digest_canon [simp]: "digest sha (canon v) = digest sha v"
  by (simp add: digest_def)

lemma digest_nonempty [simp]: "digest sha v \<noteq> []"
  by (simp add: digest_def)

end
