(* ===== verification/Fingerprint.thy ===== *)
theory Fingerprint
  imports Json
begin

text \<open>
  \<^verbatim>\<open>prism_serve/router/fingerprint.py\<close>: the identity of a prompt.  The prompt is cut into complete
  blocks of \<open>block_size\<close> tokens; every block is hashed together with the hash of the block before it,
  so that the hash of block \<open>k\<close> stands for the first \<open>k + 1\<close> blocks.  The 64-bit xxHash and SHA-256
  are parameters (\<open>xxh64\<close>, \<open>sha\<close>); the byte strings they are applied to are built here as the code
  builds them.
\<close>

datatype fp_error = FpAssertionError | StructError

subsection \<open>Namespaces\<close>

definition stable_digest :: "(json \<Rightarrow> string) \<Rightarrow> jobj \<Rightarrow> string" where
  "stable_digest sha payload = sha (canon (JObj payload))"

definition build_namespace ::
  "(json \<Rightarrow> string) \<Rightarrow> string \<Rightarrow> string \<Rightarrow> string \<Rightarrow> int \<Rightarrow> string \<Rightarrow> string \<Rightarrow> fp_error + string" where
  "build_namespace sha model_id tokenizer_revision chat_template_version block_size hash_version
     kv_compatibility_id =
     (if block_size \<le> 0 then Inl FpAssertionError
      else Inr (stable_digest sha
        [(''block_size'', JInt block_size),
         (''chat_template_version'', JStr chat_template_version),
         (''hash_version'', JStr hash_version),
         (''kv_compatibility_id'', JStr kv_compatibility_id),
         (''model_id'', JStr model_id),
         (''tokenizer_revision'', JStr tokenizer_revision)]))"

definition build_kv_compatibility_id :: "(json \<Rightarrow> string) \<Rightarrow> jobj \<Rightarrow> string" where
  "build_kv_compatibility_id sha identity = stable_digest sha identity"

subsection \<open>Chained block hashes\<close>

text \<open>\<open>range(i, stop, step)\<close> for a positive step.\<close>

function py_range :: "int \<Rightarrow> int \<Rightarrow> int \<Rightarrow> int list" where
  "py_range i stop step = (if i < stop \<and> 0 < step then i # py_range (i + step) stop step else [])"
  by pat_completeness auto
termination
  by (relation "measure (\<lambda>(i, stop, step). nat (stop - i))") auto

declare py_range.simps [simp del]

text \<open>\<open>previous.to_bytes(8, 'little')\<close> and \<open>struct.pack('<q', x)\<close>, which raises outside 64 bits.\<close>

definition le_bytes :: "64 word \<Rightarrow> 8 word list" where
  "le_bytes w = map (\<lambda>i. ucast (drop_bit (8 * i) w)) [0..<8]"

definition pack_q :: "int \<Rightarrow> fp_error + 8 word list" where
  "pack_q x = (if - (2 ^ 63) \<le> x \<and> x < 2 ^ 63 then Inr (le_bytes (word_of_int x)) else Inl StructError)"

fun pack_block :: "int list \<Rightarrow> fp_error + 8 word list" where
  "pack_block [] = Inr []"
| "pack_block (x # xs) =
     (case pack_q x of Inl e \<Rightarrow> Inl e
      | Inr b \<Rightarrow> (case pack_block xs of Inl e \<Rightarrow> Inl e | Inr bs \<Rightarrow> Inr (b @ bs)))"

text \<open>
  The loop of \<open>compute_chain_hashes\<close> over the start offsets; \<open>previous = None\<close> is the sentinel
  \<open>-1\<close> of the code, which is no digest.
\<close>

fun hash_blocks ::
  "(8 word list \<Rightarrow> 64 word) \<Rightarrow> int \<Rightarrow> int list \<Rightarrow> 64 word option \<Rightarrow> int list \<Rightarrow> fp_error + 64 word list" where
  "hash_blocks xxh64 block_size token_ids previous [] = Inr []"
| "hash_blocks xxh64 block_size token_ids previous (start # starts) =
     (let block = take (nat block_size) (drop (nat start) token_ids);
          chained = (case previous of None \<Rightarrow> [] | Some p \<Rightarrow> le_bytes p)
      in case pack_block block of Inl e \<Rightarrow> Inl e
         | Inr packed \<Rightarrow>
             (let h = xxh64 (chained @ packed)
              in case hash_blocks xxh64 block_size token_ids (Some h) starts of
                   Inl e \<Rightarrow> Inl e | Inr hs \<Rightarrow> Inr (h # hs)))"

definition compute_chain_hashes ::
  "(8 word list \<Rightarrow> 64 word) \<Rightarrow> int list \<Rightarrow> int \<Rightarrow> fp_error + 64 word list" where
  "compute_chain_hashes xxh64 token_ids block_size =
     (if block_size \<le> 0 then Inl FpAssertionError
      else hash_blocks xxh64 block_size token_ids None
             (py_range 0 (int (length token_ids) - block_size + 1) block_size))"

subsection \<open>Prompt fingerprints\<close>

record prompt_fingerprint =
  fp_namespace :: string
  fp_kv_compatibility_id :: string
  fp_request_context_digest :: string
  fp_token_ids :: "int list"
  fp_chain_hashes :: "64 word list"
  fp_block_size :: int

definition fingerprint_create ::
  "(8 word list \<Rightarrow> 64 word) \<Rightarrow> string \<Rightarrow> string \<Rightarrow> string \<Rightarrow> int list \<Rightarrow> int
     \<Rightarrow> fp_error + prompt_fingerprint" where
  "fingerprint_create xxh64 namespace kv_compatibility_id request_context_digest token_ids block_size =
     (case compute_chain_hashes xxh64 token_ids block_size of
        Inl e \<Rightarrow> Inl e
      | Inr hs \<Rightarrow> Inr \<lparr>fp_namespace = namespace, fp_kv_compatibility_id = kv_compatibility_id,
          fp_request_context_digest = request_context_digest, fp_token_ids = token_ids,
          fp_chain_hashes = hs, fp_block_size = block_size\<rparr>)"

definition max_reusable_blocks :: "prompt_fingerprint \<Rightarrow> int" where
  "max_reusable_blocks fp =
     (let n = int (length (fp_token_ids fp));
          complete = n div fp_block_size fp;
          keep_last_complete = (if n mod fp_block_size fp = 0 then 1 else 0)
      in max 0 (min (int (length (fp_chain_hashes fp))) (complete - keep_last_complete)))"

subsection \<open>Lemmas\<close>

definition in_int64 :: "int \<Rightarrow> bool" where
  "in_int64 x \<longleftrightarrow> - (2 ^ 63) \<le> x \<and> x < 2 ^ 63"

lemma pack_block_defined: "(\<forall>x \<in> set xs. in_int64 x) \<longleftrightarrow> (\<exists>bs. pack_block xs = Inr bs)"
  by (induction xs) (auto simp: pack_q_def in_int64_def split: sum.splits if_splits)

lemma py_range_offset: "0 < b \<Longrightarrow> py_range i stop b = map (\<lambda>j. i + int j * b) [0..<nat ((stop - i + b - 1) div b)]"
proof (induction i stop b rule: py_range.induct)
  case (1 i stop b)
  show ?case
  proof (cases "i < stop")
    case True
    have "(stop - i + b - 1) div b = (stop - (i + b) + b - 1) div b + 1"
      using 1(2) div_add_self2 [of b "stop - i - 1"] by (simp add: algebra_simps)
    moreover have "0 \<le> (stop - (i + b) + b - 1) div b"
      using True 1(2) by (simp add: pos_imp_zdiv_nonneg_iff)
    ultimately have n: "nat ((stop - i + b - 1) div b) = Suc (nat ((stop - (i + b) + b - 1) div b))"
      by simp
    show ?thesis
      using True 1 unfolding n
      by (simp add: py_range.simps [of i] upt_rec [of 0] map_Suc_upt [symmetric] algebra_simps comp_def del: upt_Suc)
  next
    case False
    then have "(stop - i + b - 1) div b \<le> 0"
      using 1(2) zdiv_mono1 [of "stop - i + b - 1" "b - 1" b] by simp
    with False show ?thesis by (simp add: py_range.simps [of i])
  qed
qed

lemma chain_starts:
  "0 < b \<Longrightarrow> py_range 0 (int n - b + 1) b = map (\<lambda>j. int j * b) [0..<nat (int n div b)]"
  by (simp add: py_range_offset)

lemma hash_blocks_length: "hash_blocks X b xs p ss = Inr hs \<Longrightarrow> length hs = length ss"
  by (induction X b xs p ss arbitrary: hs rule: hash_blocks.induct)
     (auto simp: Let_def split: sum.splits)

lemma hash_blocks_defined: "(\<forall>x \<in> set xs. in_int64 x) \<Longrightarrow> \<exists>hs. hash_blocks X b xs p ss = Inr hs"
proof (induction X b xs p ss rule: hash_blocks.induct)
  case (1 X b xs p)
  then show ?case by simp
next
  case (2 X b xs p s ss)
  from 2(2) have "\<forall>x \<in> set (take (nat b) (drop (nat s) xs)). in_int64 x"
    by (meson in_set_dropD in_set_takeD)
  then obtain packed where "pack_block (take (nat b) (drop (nat s) xs)) = Inr packed"
    using pack_block_defined by blast
  with 2 show ?case by (fastforce simp: Let_def)
qed

lemma hash_blocks_cong:
  "(\<And>s. s \<in> set ss \<Longrightarrow> take (nat b) (drop (nat s) xs) = take (nat b) (drop (nat s) ys)) \<Longrightarrow>
     hash_blocks X b xs p ss = hash_blocks X b ys p ss"
  by (induction ss arbitrary: p) (auto simp: Let_def split: sum.splits)

lemma hash_blocks_append:
  "hash_blocks X b xs p (ss @ ts) = Inr hs \<Longrightarrow> hash_blocks X b xs p ss = Inr (take (length ss) hs)"
  by (induction ss arbitrary: p hs) (auto simp: Let_def split: sum.splits)

lemma chain_hashes_length:
  "compute_chain_hashes X xs b = Inr hs \<Longrightarrow> length hs = nat (int (length xs) div b)"
  by (auto simp: compute_chain_hashes_def chain_starts dest: hash_blocks_length split: if_splits)

lemma chain_hashes_take:
  assumes "compute_chain_hashes X xs b = Inr hs" and "k \<le> length hs"
  shows "hash_blocks X b xs None (map (\<lambda>j. int j * b) [0..<k]) = Inr (take k hs)"
proof -
  from assms(1) have b: "0 < b" by (auto simp: compute_chain_hashes_def split: if_splits)
  have n: "k \<le> nat (int (length xs) div b)" using assms chain_hashes_length by simp
  then have "[0..<nat (int (length xs) div b)] = [0..<k] @ [k..<nat (int (length xs) div b)]"
    using upt_add_eq_append [of 0 k "nat (int (length xs) div b) - k"] by simp
  with assms(1) b show ?thesis
    using hash_blocks_append [of X b xs None "map (\<lambda>j. int j * b) [0..<k]"
      "map (\<lambda>j. int j * b) [k..<nat (int (length xs) div b)]" hs]
    by (simp add: compute_chain_hashes_def chain_starts)
qed

lemma block_of_prefix:
  assumes "take n xs = take n ys" and "i + b \<le> n"
  shows "take b (drop i xs) = take b (drop i ys)"
proof -
  have *: "take b (drop i zs) = drop i (take (i + b) (take n zs))" for zs :: "'a list"
    using assms(2) by (simp add: drop_take min_def)
  show ?thesis unfolding * assms(1) ..
qed

lemma chain_hashes_shared_prefix:
  assumes "compute_chain_hashes X xs b = Inr hx" and "compute_chain_hashes X ys b = Inr hy"
    and "k \<le> length hx" and "k \<le> length hy"
    and "take (k * nat b) xs = take (k * nat b) ys"
  shows "take k hx = take k hy"
proof -
  from assms(1) have b: "0 < b" by (auto simp: compute_chain_hashes_def split: if_splits)
  have "take (nat b) (drop (nat s) xs) = take (nat b) (drop (nat s) ys)"
    if "s \<in> set (map (\<lambda>j. int j * b) [0..<k])" for s
  proof (rule block_of_prefix [OF assms(5)])
    from that obtain j where j: "j < k" "s = int j * b" by auto
    have "nat s = j * nat b" using b j(2) by (simp add: nat_mult_distrib)
    moreover have "(j + 1) * nat b \<le> k * nat b" using j(1) by (intro mult_le_mono1) simp
    ultimately show "nat s + nat b \<le> k * nat b" by simp
  qed
  then have "hash_blocks X b xs None (map (\<lambda>j. int j * b) [0..<k]) =
      hash_blocks X b ys None (map (\<lambda>j. int j * b) [0..<k])"
    by (rule hash_blocks_cong)
  with chain_hashes_take [OF assms(1,3)] chain_hashes_take [OF assms(2,4)] show ?thesis by simp
qed

lemma max_reusable_blocks_bounds:
  assumes "0 < fp_block_size fp" and "fp_token_ids fp \<noteq> []"
  shows "0 \<le> max_reusable_blocks fp"
    and "max_reusable_blocks fp \<le> int (length (fp_chain_hashes fp))"
    and "max_reusable_blocks fp * fp_block_size fp < int (length (fp_token_ids fp))"
proof -
  let ?n = "int (length (fp_token_ids fp))" and ?b = "fp_block_size fp"
  have n: "0 < ?n" using assms(2) by simp
  have split_n: "?n = (?n div ?b) * ?b + ?n mod ?b" by simp
  have le: "max_reusable_blocks fp \<le> max 0 (?n div ?b - (if ?n mod ?b = 0 then 1 else 0))"
    by (simp add: max_reusable_blocks_def Let_def)
  have pos: "0 \<le> ?n div ?b" using assms(1) by (simp add: pos_imp_zdiv_nonneg_iff)
  have "max 0 (?n div ?b - (if ?n mod ?b = 0 then 1 else 0)) * ?b < ?n"
  proof (cases "?n mod ?b = 0")
    case True
    then have "?n div ?b \<noteq> 0" using split_n n by auto
    then have "max 0 (?n div ?b - 1) * ?b = ?n - ?b"
      using pos True split_n by (simp add: left_diff_distrib)
    then show ?thesis using True assms(1) by simp
  next
    case False
    then have "0 < ?n mod ?b" using assms(1) pos_mod_sign [of ?b ?n] by linarith
    then have "?n div ?b * ?b < ?n" using split_n by linarith
    then show ?thesis using False pos by simp
  qed
  moreover have "max_reusable_blocks fp * ?b \<le> max 0 (?n div ?b - (if ?n mod ?b = 0 then 1 else 0)) * ?b"
    using le assms(1) by (intro mult_right_mono) auto
  ultimately show "max_reusable_blocks fp * ?b < ?n" by linarith
qed (simp_all add: max_reusable_blocks_def Let_def)

subsection \<open>Hashed inputs\<close>

lemma le_bytes_length [simp]: "length (le_bytes w) = 8"
  by (simp add: le_bytes_def)

lemma le_bytes_nth: "i < 8 \<Longrightarrow> le_bytes w ! i = ucast (drop_bit (8 * i) w)"
  unfolding le_bytes_def by (subst nth_map) (simp_all del: upt_rec_numeral)

lemma le_bytes_inj: "le_bytes v = le_bytes w \<longleftrightarrow> v = w"
proof
  assume eq: "le_bytes v = le_bytes w"
  show "v = w"
  proof (rule bit_word_eqI)
    fix n
    assume n: "n < LENGTH(64)"
    then have i: "n div 8 < 8" by simp
    from eq have "le_bytes v ! (n div 8) = le_bytes w ! (n div 8)" by simp
    then have b: "(ucast (drop_bit (8 * (n div 8)) v) :: 8 word) = ucast (drop_bit (8 * (n div 8)) w)"
      by (simp only: le_bytes_nth [OF i])
    have "bit (ucast (drop_bit (8 * (n div 8)) u) :: 8 word) (n mod 8) = bit u n" for u :: "64 word"
      by (simp add: bit_ucast_iff bit_drop_bit_eq)
    then show "bit v n = bit w n" using b by metis
  qed
qed simp

lemma pack_q_length: "pack_q x = Inr bs \<Longrightarrow> length bs = 8"
  by (auto simp: pack_q_def split: if_splits)

lemma pack_q_inj: "pack_q x = Inr bs \<Longrightarrow> pack_q y = Inr bs \<Longrightarrow> x = y"
proof -
  assume x: "pack_q x = Inr bs" and y: "pack_q y = Inr bs"
  then have r: "- (2 ^ 63) \<le> x" "x < 2 ^ 63" "- (2 ^ 63) \<le> y" "y < 2 ^ 63"
    and w: "(word_of_int x :: 64 word) = word_of_int y"
    by (auto simp: pack_q_def le_bytes_inj split: if_splits)
  have "sint (word_of_int z :: 64 word) = z" if "- (2 ^ 63) \<le> z" "z < 2 ^ 63" for z
    using that by (simp add: int_word_sint)
  with r w show "x = y" by metis
qed

lemma pack_block_length: "pack_block xs = Inr bs \<Longrightarrow> length bs = 8 * length xs"
  by (induction xs arbitrary: bs) (auto dest: pack_q_length split: sum.splits)

lemma pack_block_inj: "pack_block xs = Inr bs \<Longrightarrow> pack_block ys = Inr bs \<Longrightarrow> xs = ys"
proof (induction xs arbitrary: ys bs)
  case Nil
  then have "length ys = 0" using pack_block_length [of ys bs] by simp
  then show ?case by simp
next
  case (Cons x xs)
  from Cons.prems(1) obtain b bs' where x: "pack_q x = Inr b" "pack_block xs = Inr bs'" "bs = b @ bs'"
    by (auto split: sum.splits)
  have "length bs = 8 * length ys" using Cons.prems(2) by (rule pack_block_length)
  then obtain y ys' where ys: "ys = y # ys'" using x(1,3) pack_q_length by (cases ys) fastforce+
  with Cons.prems(2) obtain c cs' where y: "pack_q y = Inr c" "pack_block ys' = Inr cs'" "bs = c @ cs'"
    by (auto split: sum.splits)
  from x(1,3) y(1,3) have "b = c" "bs' = cs'" by (metis append_eq_append_conv pack_q_length)+
  with x y Cons.IH ys show ?case by (auto dest: pack_q_inj)
qed

text \<open>The byte string that the loop hashes for block \<open>j\<close>.\<close>

definition hash_input :: "int \<Rightarrow> int list \<Rightarrow> 64 word list \<Rightarrow> nat \<Rightarrow> 8 word list" where
  "hash_input b xs hs j =
     (if j = 0 then [] else le_bytes (hs ! (j - 1))) @
     (case pack_block (take (nat b) (drop (j * nat b) xs)) of Inl e \<Rightarrow> [] | Inr bs \<Rightarrow> bs)"

lemma hash_blocks_nth:
  "hash_blocks X b xs p ss = Inr hs \<Longrightarrow> j < length ss \<Longrightarrow>
   \<exists>bs. pack_block (take (nat b) (drop (nat (ss ! j)) xs)) = Inr bs \<and>
     hs ! j = X ((case (if j = 0 then p else Some (hs ! (j - 1))) of None \<Rightarrow> [] | Some q \<Rightarrow> le_bytes q) @ bs)"
proof (induction ss arbitrary: p hs j)
  case (Cons s ss)
  from Cons.prems(1) obtain bs hs' where bs: "pack_block (take (nat b) (drop (nat s) xs)) = Inr bs"
    and hs: "hs = X ((case p of None \<Rightarrow> [] | Some q \<Rightarrow> le_bytes q) @ bs) # hs'"
    and rest: "hash_blocks X b xs (Some (hs ! 0)) ss = Inr hs'"
    by (auto simp: Let_def split: sum.splits)
  show ?case
  proof (cases j)
    case 0
    with bs hs show ?thesis by simp
  next
    case (Suc i)
    with Cons.IH [OF rest, of i] Cons.prems(2) hs show ?thesis by (cases i) auto
  qed
qed simp

lemma chain_hashes_nth:
  assumes "compute_chain_hashes X xs b = Inr hs" "j < length hs"
  shows "hs ! j = X (hash_input b xs hs j)" "\<exists>bs. pack_block (take (nat b) (drop (j * nat b) xs)) = Inr bs"
    "(j + 1) * nat b \<le> length xs"
proof -
  from assms(1) have b: "0 < b" by (auto simp: compute_chain_hashes_def split: if_splits)
  have n: "length hs = nat (int (length xs) div b)" by (rule chain_hashes_length [OF assms(1)])
  have hb: "hash_blocks X b xs None (map (\<lambda>j. int j * b) [0..<length hs]) = Inr hs"
    using chain_hashes_take [OF assms(1) order_refl] by simp
  have "nat (int j * b) = j * nat b" using b by (simp add: nat_mult_distrib)
  with hash_blocks_nth [OF hb, of j] assms(2)
  show "hs ! j = X (hash_input b xs hs j)" "\<exists>bs. pack_block (take (nat b) (drop (j * nat b) xs)) = Inr bs"
    by (auto simp: hash_input_def)
  have "int (j + 1) \<le> int (length xs) div b" using assms(2) n by linarith
  then have "int (j + 1) * b \<le> int (length xs) div b * b" using b by (intro mult_right_mono) auto
  also have "\<dots> \<le> int (length xs)" using b by (metis div_mod_decomp_int pos_mod_sign le_add_same_cancel1)
  finally have "int ((j + 1) * nat b) \<le> int (length xs)" using b by (simp add: distrib_right)
  then show "(j + 1) * nat b \<le> length xs" by (simp only: of_nat_le_iff)
qed

lemma chain_hash_sound_step:
  assumes "compute_chain_hashes X xs b = Inr hx" "compute_chain_hashes X ys b = Inr hy"
    "j < length hx" "j < length hy" "hash_input b xs hx j = hash_input b ys hy j"
  shows "take (nat b) (drop (j * nat b) xs) = take (nat b) (drop (j * nat b) ys)"
    "j = 0 \<or> hx ! (j - 1) = hy ! (j - 1)"
proof -
  from chain_hashes_nth(2) [OF assms(1,3)] obtain bx
    where bx: "pack_block (take (nat b) (drop (j * nat b) xs)) = Inr bx" ..
  from chain_hashes_nth(2) [OF assms(2,4)] obtain bz
    where bz: "pack_block (take (nat b) (drop (j * nat b) ys)) = Inr bz" ..
  from assms(5) bx bz have "bx = bz \<and> (j = 0 \<or> hx ! (j - 1) = hy ! (j - 1))"
    by (auto simp: hash_input_def le_bytes_inj split: if_splits)
  with bx bz show "take (nat b) (drop (j * nat b) xs) = take (nat b) (drop (j * nat b) ys)"
    "j = 0 \<or> hx ! (j - 1) = hy ! (j - 1)" by (auto dest: pack_block_inj)
qed

lemma take_snoc_block: "take ((j + 1) * n) xs = take (j * n) xs @ take n (drop (j * n) xs)"
  by (metis add.commute mult_Suc Suc_eq_plus1 take_add)

subsection \<open>Properties\<close>

text \<open>
  Shared prefixes are found: two prompts that agree on their first \<open>k\<close> blocks have the same first
  \<open>k\<close> chain hashes.
\<close>

theorem shared_prefix_same_hashes:
  assumes "fingerprint_create X ns kv ctx xs b = Inr fx" and "fingerprint_create X ns' kv' ctx' ys b = Inr fy"
    and "k \<le> length (fp_chain_hashes fx)" and "k \<le> length (fp_chain_hashes fy)"
    and "take (k * nat b) xs = take (k * nat b) ys"
  shows "take k (fp_chain_hashes fx) = take k (fp_chain_hashes fy)"
  using assms by (auto simp: fingerprint_create_def intro: chain_hashes_shared_prefix split: sum.splits)

lemma sample_chain:
  "compute_chain_hashes (\<lambda>_. 5) [1, 2, 3, 4, 5] 2 = Inr [5, 5]" "compute_chain_hashes (\<lambda>_. 5) [1, 2, 9] 2 = Inr [5]"
  "compute_chain_hashes (\<lambda>_. 5) [1, 2, 3] 2 = Inr [5]"
  by (simp_all add: compute_chain_hashes_def py_range.simps Let_def pack_q_def)

theorem shared_prefix_same_hashes_witness:
  "\<exists>fx fy. fingerprint_create (\<lambda>_. 5) ''n'' ''k'' ''c'' [1, 2, 3, 4, 5] 2 = Inr fx \<and>
     fingerprint_create (\<lambda>_. 5) ''n'' ''k'' ''c'' [1, 2, 9] 2 = Inr fy \<and>
     take 1 (fp_chain_hashes fx) = take 1 (fp_chain_hashes fy) \<and> take 1 (fp_chain_hashes fx) = [5]"
  using shared_prefix_same_hashes [of "\<lambda>_. 5" "''n''" "''k''" "''c''" "[1, 2, 3, 4, 5]" 2 _ "''n''" "''k''" "''c''" "[1, 2, 9]" _ 1]
  by (simp add: fingerprint_create_def sample_chain)

text \<open>
  C6.  Found prefixes are shared: when no two of the byte strings hashed for two prompts collide, equal
  chain hashes at a block mean that the prompts agree on every token up to the end of that block.
\<close>

theorem equal_hash_shared_prefix:
  assumes "compute_chain_hashes X xs b = Inr hx" and "compute_chain_hashes X ys b = Inr hy"
    and "inj_on X (hash_input b xs hx ` {..<length hx} \<union> hash_input b ys hy ` {..<length hy})"
    and "k < length hx" and "k < length hy" and "hx ! k = hy ! k"
  shows "take ((k + 1) * nat b) xs = take ((k + 1) * nat b) ys"
proof -
  have inp: "hash_input b xs hx j = hash_input b ys hy j"
    if "j < length hx" "j < length hy" "hx ! j = hy ! j" for j
  proof (rule inj_onD [OF assms(3)])
    show "X (hash_input b xs hx j) = X (hash_input b ys hy j)"
      using chain_hashes_nth(1) [OF assms(1) that(1)] chain_hashes_nth(1) [OF assms(2) that(2)] that(3) by simp
  qed (use that in auto)
  from assms(4-6) show ?thesis
  proof (induction k)
    case 0
    from chain_hash_sound_step(1) [OF assms(1,2) 0(1,2) inp [OF 0]] show ?case by simp
  next
    case (Suc k)
    note step = chain_hash_sound_step [OF assms(1,2) Suc(2,3) inp [OF Suc(2-4)]]
    from step(2) Suc have "take ((k + 1) * nat b) xs = take ((k + 1) * nat b) ys" by simp
    with step(1) show ?case unfolding take_snoc_block [of "Suc k"] by simp
  qed
qed

theorem equal_hash_shared_prefix_witness:
  "take ((0 + 1) * nat 2) [1, 2, 3 :: int] = take ((0 + 1) * nat 2) [1, 2, 9]"
  by (rule equal_hash_shared_prefix [OF sample_chain(3,2)]) (simp_all add: hash_input_def lessThan_Suc)

text \<open>
  A suffix is always left to compute: the blocks that may be reused are complete blocks with a
  known hash, and they never cover the whole prompt.
\<close>

theorem reusable_leaves_suffix:
  assumes "fingerprint_create X ns kv ctx xs b = Inr fp" and "xs \<noteq> []"
  shows "0 \<le> max_reusable_blocks fp \<and> max_reusable_blocks fp \<le> int (length (fp_chain_hashes fp)) \<and>
    max_reusable_blocks fp * b < int (length xs) \<and> int (length xs) \<le> (max_reusable_blocks fp + 1) * b"
proof -
  from assms(1) have fp: "fp_token_ids fp = xs" "fp_block_size fp = b" "compute_chain_hashes X xs b = Inr (fp_chain_hashes fp)"
    by (auto simp: fingerprint_create_def split: sum.splits)
  then have b: "0 < b" by (auto simp: compute_chain_hashes_def split: if_splits)
  have len: "int (length (fp_chain_hashes fp)) = int (length xs) div b"
    using chain_hashes_length [OF fp(3)] b by (simp add: pos_imp_zdiv_nonneg_iff)
  define q r where "q = int (length xs) div b" and "r = int (length xs) mod b"
  have n: "int (length xs) = q * b + r" by (simp add: q_def r_def)
  have r: "0 \<le> r" "r < b" and q: "0 \<le> q" using b by (simp_all add: q_def r_def pos_imp_zdiv_nonneg_iff)
  have "max_reusable_blocks fp = max 0 (q - (if r = 0 then 1 else 0))"
    unfolding max_reusable_blocks_def Let_def fp(1,2) len q_def r_def by simp
  with n r q have "int (length xs) \<le> (max_reusable_blocks fp + 1) * b"
    by (cases "r = 0") (auto simp: distrib_right max_def left_diff_distrib)
  with max_reusable_blocks_bounds [of fp] assms(2) b fp show ?thesis by simp
qed

theorem reusable_leaves_suffix_witness:
  "\<exists>fp. fingerprint_create (\<lambda>_. 5) ''n'' ''k'' ''c'' [1, 2, 3, 4, 5] 2 = Inr fp \<and> max_reusable_blocks fp * 2 < 5 \<and>
     5 \<le> (max_reusable_blocks fp + 1) * 2"
  using reusable_leaves_suffix [of "\<lambda>_. 5" "''n''" "''k''" "''c''" "[1, 2, 3, 4, 5]" 2]
  by (simp add: fingerprint_create_def sample_chain)

end
