(* ===== verification/Endpoint_Ref.thy ===== *)
theory Endpoint_Ref
  imports Json
begin

text \<open>
  The part of \<^verbatim>\<open>prism_serve/router/http_rpc.py\<close> that is not transport: references to operations on
  a worker endpoint, the allocator that numbers them per target, the payload of a finalize request
  and the check that binds a worker's release snapshot to that request.
\<close>

record endpoint_operation_ref =
  er_topology_generation :: string
  er_owner_generation :: string
  er_operation_seq :: int
  er_target_instance :: string
  er_target_worker_epoch :: string
  er_operation_id :: string
  er_payload_digest :: string

datatype ref_error = RefAssertionError

text \<open>The constructor with the assertions of \<open>__post_init__\<close>.\<close>

definition make_endpoint_ref :: "endpoint_operation_ref \<Rightarrow> ref_error + endpoint_operation_ref" where
  "make_endpoint_ref r =
     (if er_operation_seq r \<le> 0 then Inl RefAssertionError
      else if er_payload_digest r = [] then Inl RefAssertionError
      else Inr r)"

definition ref_json :: "endpoint_operation_ref \<Rightarrow> json" where
  "ref_json r = JObj
     [(''topology_generation'', JStr (er_topology_generation r)),
      (''owner_generation'', JStr (er_owner_generation r)),
      (''operation_seq'', JInt (er_operation_seq r)),
      (''target_instance'', JStr (er_target_instance r)),
      (''target_worker_epoch'', JStr (er_target_worker_epoch r)),
      (''operation_id'', JStr (er_operation_id r)),
      (''payload_digest'', JStr (er_payload_digest r))]"

subsection \<open>The allocator of sequence numbers\<close>

record sequence_allocator =
  sa_topology_generation :: string
  sa_owner_generation :: string
  sa_next :: "(string, int) dict"

definition allocator_init :: "string \<Rightarrow> string \<Rightarrow> ref_error + sequence_allocator" where
  "allocator_init topology_generation owner_generation =
     (if topology_generation = [] \<or> owner_generation = [] then Inl RefAssertionError
      else Inr \<lparr>sa_topology_generation = topology_generation,
                sa_owner_generation = owner_generation, sa_next = []\<rparr>)"

definition allocate ::
  "(json \<Rightarrow> string) \<Rightarrow> sequence_allocator \<Rightarrow> string \<Rightarrow> string \<Rightarrow> string \<Rightarrow> jobj
     \<Rightarrow> (sequence_allocator, ref_error, endpoint_operation_ref) outcome" where
  "allocate sha a target_instance target_worker_epoch operation_id payload =
     (let sequence = dget_or (sa_next a) target_instance 1;
          a' = a\<lparr>sa_next := dput (sa_next a) target_instance (sequence + 1)\<rparr>
      in (a', make_endpoint_ref
            \<lparr>er_topology_generation = sa_topology_generation a,
             er_owner_generation = sa_owner_generation a,
             er_operation_seq = sequence,
             er_target_instance = target_instance,
             er_target_worker_epoch = target_worker_epoch,
             er_operation_id = operation_id,
             er_payload_digest = digest sha (JObj payload)\<rparr>))"

subsection \<open>Finalize requests and release snapshots\<close>

definition release_snapshot_fields :: "string list" where
  "release_snapshot_fields =
     [''cleanup_id'', ''operation_id'', ''lease_id'', ''endpoint_epoch'', ''released_resource_kinds'',
      ''released_counts'', ''resources_held_after'', ''payload_digest'']"

definition finalize_release_payload ::
  "(json \<Rightarrow> string) \<Rightarrow> string \<Rightarrow> string \<Rightarrow> string \<Rightarrow> endpoint_operation_ref list \<Rightarrow> string list \<Rightarrow> jobj" where
  "finalize_release_payload sha cleanup_id operation_id lease_id endpoint_refs resource_kinds =
     (let payload =
        [(''cleanup_id'', JStr cleanup_id),
         (''operation_id'', JStr operation_id),
         (''lease_id'', JStr lease_id),
         (''endpoint_refs'', JArr (map ref_json endpoint_refs)),
         (''resource_kinds'', JArr (map JStr (sort (remdups resource_kinds)))),
         (''release_basis'', JStr ''ENDPOINT_TERMINAL'')]
      in dput payload ''payload_digest'' (JStr (digest sha (JObj payload))))"

datatype snapshot_error =
  InvalidFields
| NoEndpointRefs
| EmptyEndpointEpoch
| IdentityMismatch
| NoResourceKinds
| RequestMismatch
| CountsNotArray
| CountInvalid
| CountsMismatch

fun parse_released_count :: "json \<Rightarrow> (string \<times> int) option" where
  "parse_released_count (JArr [JStr kind, JInt n]) = (if kind = [] \<or> n < 0 then None else Some (kind, n))"
| "parse_released_count _ = None"

fun parse_released_counts :: "json list \<Rightarrow> (string \<times> int) list option" where
  "parse_released_counts [] = Some []"
| "parse_released_counts (v # vs) =
     (case parse_released_count v of None \<Rightarrow> None
      | Some c \<Rightarrow> map_option ((#) c) (parse_released_counts vs))"

definition validate_release_snapshot ::
  "(json \<Rightarrow> string) \<Rightarrow> jobj \<Rightarrow> string \<Rightarrow> string \<Rightarrow> string \<Rightarrow> string \<Rightarrow> endpoint_operation_ref list
     \<Rightarrow> string list \<Rightarrow> string option \<Rightarrow> snapshot_error + jobj" where
  "validate_release_snapshot sha v instance_id cleanup_id operation_id lease_id endpoint_refs
     resource_kinds expected_endpoint_epoch =
     (if set (dkeys v) \<noteq> set release_snapshot_fields then Inl InvalidFields
      else case endpoint_refs of [] \<Rightarrow> Inl NoEndpointRefs
      | first # _ \<Rightarrow>
        (let endpoint_epoch =
               (case expected_endpoint_epoch of
                  Some e \<Rightarrow> if e = [] then er_target_worker_epoch first else e
                | None \<Rightarrow> er_target_worker_epoch first);
             payload = finalize_release_payload sha cleanup_id operation_id lease_id endpoint_refs
                         resource_kinds;
             expected_kinds = sort (remdups resource_kinds)
         in if endpoint_epoch = [] then Inl EmptyEndpointEpoch
            else if \<exists>r \<in> set endpoint_refs. er_target_instance r \<noteq> instance_id
                 \<or> er_target_worker_epoch r \<noteq> endpoint_epoch \<or> er_operation_id r \<noteq> operation_id
              then Inl IdentityMismatch
            else if expected_kinds = [] then Inl NoResourceKinds
            else if jget v ''cleanup_id'' \<noteq> JStr cleanup_id
                 \<or> jget v ''operation_id'' \<noteq> JStr operation_id
                 \<or> jget v ''lease_id'' \<noteq> JStr lease_id
                 \<or> jget v ''endpoint_epoch'' \<noteq> JStr endpoint_epoch
                 \<or> jget v ''payload_digest'' \<noteq> jget payload ''payload_digest''
                 \<or> jget v ''resources_held_after'' \<noteq> JBool False
                 \<or> jget v ''released_resource_kinds'' \<noteq> JArr (map JStr expected_kinds)
              then Inl RequestMismatch
            else (case jget v ''released_counts'' of
                    JArr items \<Rightarrow>
                      (case parse_released_counts items of
                         None \<Rightarrow> Inl CountInvalid
                       | Some counts \<Rightarrow>
                           if map fst counts \<noteq> expected_kinds \<or> \<not> distinct (map fst counts)
                           then Inl CountsMismatch else Inr v)
                  | _ \<Rightarrow> Inl CountsNotArray)))"

subsection \<open>Lemmas\<close>

text \<open>
  The numbers an allocator hands out for one target increase by one and those of other targets do
  not move, so a reference is never issued twice.
\<close>

definition allocator_inv :: "sequence_allocator \<Rightarrow> bool" where
  "allocator_inv a \<longleftrightarrow> wf_dict (sa_next a) \<and> (\<forall>t n. dget (sa_next a) t = Some n \<longrightarrow> 1 < n)"

abbreviation next_seq :: "sequence_allocator \<Rightarrow> string \<Rightarrow> int" where
  "next_seq a t \<equiv> dget_or (sa_next a) t 1"

lemma allocator_init_inv: "allocator_init tg og = Inr a \<Longrightarrow> allocator_inv a"
  by (auto simp: allocator_init_def allocator_inv_def split: if_splits)

lemma next_seq_pos: "allocator_inv a \<Longrightarrow> 0 < next_seq a t"
  by (force simp: allocator_inv_def dget_or_def split: option.splits)

lemma allocate_Inr:
  assumes "allocator_inv a"
  obtains a' r where "allocate sha a t e oid p = (a', Inr r)" "allocator_inv a'"
    "er_operation_seq r = next_seq a t" "er_target_instance r = t"
    "\<And>u. next_seq a' u = next_seq a u + (if u = t then 1 else 0)"
proof
  let ?a = "a\<lparr>sa_next := dput (sa_next a) t (next_seq a t + 1)\<rparr>"
  let ?r = "\<lparr>er_topology_generation = sa_topology_generation a,
     er_owner_generation = sa_owner_generation a, er_operation_seq = next_seq a t,
     er_target_instance = t, er_target_worker_epoch = e, er_operation_id = oid,
     er_payload_digest = digest sha (JObj p)\<rparr>"
  show "allocate sha a t e oid p = (?a, Inr ?r)"
    using next_seq_pos [OF assms, of t] by (simp add: allocate_def Let_def make_endpoint_ref_def)
  show "allocator_inv ?a"
    using assms next_seq_pos [OF assms, of t] by (auto simp: allocator_inv_def dict_simps)
qed (simp_all add: dict_simps)

text \<open>Issuing references for a list of requests, one after the other.\<close>

fun allocate_all ::
  "(json \<Rightarrow> string) \<Rightarrow> sequence_allocator \<Rightarrow> (string \<times> string \<times> string \<times> jobj) list
     \<Rightarrow> sequence_allocator \<times> endpoint_operation_ref list" where
  "allocate_all sha a [] = (a, [])"
| "allocate_all sha a ((t, e, oid, p) # qs) =
     (case allocate sha a t e oid p of
        (a', Inl err) \<Rightarrow> allocate_all sha a' qs
      | (a', Inr r) \<Rightarrow> (case allocate_all sha a' qs of (a'', rs) \<Rightarrow> (a'', r # rs)))"

lemma allocate_all_fresh:
  "allocator_inv a \<Longrightarrow> allocate_all sha a qs = (a', rs) \<Longrightarrow>
     length rs = length qs \<and>
     (\<forall>r \<in> set rs. next_seq a (er_target_instance r) \<le> er_operation_seq r) \<and>
     distinct (map (\<lambda>r. (er_target_instance r, er_operation_seq r)) rs)"
proof (induction sha a qs arbitrary: a' rs rule: allocate_all.induct)
  case (1 sha a)
  then show ?case by simp
next
  case (2 sha a t e oid p qs)
  obtain b r where b: "allocate sha a t e oid p = (b, Inr r)" "allocator_inv b"
    "er_operation_seq r = next_seq a t" "er_target_instance r = t"
    "\<And>u. next_seq b u = next_seq a u + (if u = t then 1 else 0)"
    using allocate_Inr [OF 2(3)] by metis
  obtain c rs' where c: "allocate_all sha b qs = (c, rs')" by (cases "allocate_all sha b qs")
  have IH: "length rs' = length qs \<and>
     (\<forall>r \<in> set rs'. next_seq b (er_target_instance r) \<le> er_operation_seq r) \<and>
     distinct (map (\<lambda>r. (er_target_instance r, er_operation_seq r)) rs')"
    using 2(2) [OF b(1) [symmetric] refl b(2) c] .
  have above: "next_seq a (er_target_instance q) \<le> er_operation_seq q \<and>
      (er_target_instance q, er_operation_seq q) \<noteq> (t, next_seq a t)" if "q \<in> set rs'" for q
    using IH that b(5) [of "er_target_instance q"] by (auto split: if_splits)
  from 2(4) b(1) c have rs: "rs = r # rs'" by simp
  have "(t, next_seq a t) \<notin> (\<lambda>r. (er_target_instance r, er_operation_seq r)) ` set rs'"
    using above by (metis (no_types, lifting) imageE)
  then show ?case unfolding rs using IH above b(3,4) by simp
qed

lemma parse_released_counts_length: "parse_released_counts vs = Some cs \<Longrightarrow> length cs = length vs"
  by (induction vs arbitrary: cs) (auto split: option.splits)

lemma validate_release_snapshot_Inr:
  assumes "validate_release_snapshot sha v i c oid l refs kinds ep = Inr v'"
  shows "v' = v" "refs \<noteq> []" "kinds \<noteq> []"
    "\<forall>r \<in> set refs. er_target_instance r = i \<and> er_operation_id r = oid
       \<and> JStr (er_target_worker_epoch r) = jget v ''endpoint_epoch''"
    "jget v ''cleanup_id'' = JStr c" "jget v ''operation_id'' = JStr oid" "jget v ''lease_id'' = JStr l"
    "jget v ''payload_digest'' = jget (finalize_release_payload sha c oid l refs kinds) ''payload_digest''"
    "jget v ''resources_held_after'' = JBool False"
    "jget v ''released_resource_kinds'' = JArr (map JStr (sort (remdups kinds)))"
  using assms
  by (auto simp: validate_release_snapshot_def Let_def split: if_splits list.splits option.splits json.splits)

subsection \<open>Properties\<close>

text \<open>
  C22.  Operation references are unique: an allocator answers every request, and the sequence numbers
  it gives to one target are positive and never repeated.
\<close>

theorem allocated_refs_unique:
  assumes "allocator_init tg og = Inr a" and "allocate_all sha a qs = (a', rs)"
  shows "length rs = length qs \<and> distinct (map (\<lambda>r. (er_target_instance r, er_operation_seq r)) rs) \<and>
    (\<forall>r \<in> set rs. 0 < er_operation_seq r)"
proof -
  have inv: "allocator_inv a" by (rule allocator_init_inv [OF assms(1)])
  have "0 < er_operation_seq r" if "r \<in> set rs" for r
    using allocate_all_fresh [OF inv assms(2)] next_seq_pos [OF inv, of "er_target_instance r"] that by fastforce
  with allocate_all_fresh [OF inv assms(2)] show ?thesis by blast
qed

theorem allocated_refs_unique_witness:
  "\<exists>a rs. allocator_init ''g1'' ''o1'' = Inr a \<and>
     snd (allocate_all (\<lambda>_. ''h'') a [(''d0'', ''e'', ''x'', []), (''d1'', ''e'', ''y'', []), (''d0'', ''e'', ''z'', [])]) = rs \<and>
     distinct (map (\<lambda>r. (er_target_instance r, er_operation_seq r)) rs) \<and> length rs = 3"
proof -
  obtain a where a: "allocator_init ''g1'' ''o1'' = Inr a" by (simp add: allocator_init_def)
  from allocated_refs_unique [OF a prod.collapse [symmetric],
      of "\<lambda>_. ''h''" "[(''d0'', ''e'', ''x'', []), (''d1'', ''e'', ''y'', []), (''d0'', ''e'', ''z'', [])]"] a
  show ?thesis by simp
qed


definition sample_ref :: endpoint_operation_ref where
  "sample_ref = \<lparr>er_topology_generation = ''g'', er_owner_generation = ''o'', er_operation_seq = 1,
     er_target_instance = ''d0'', er_target_worker_epoch = ''e'', er_operation_id = ''op'', er_payload_digest = ''x''\<rparr>"

definition sample_snapshot :: jobj where
  "sample_snapshot =
     [(''cleanup_id'', JStr ''c''), (''operation_id'', JStr ''op''), (''lease_id'', JStr ''l''),
      (''endpoint_epoch'', JStr ''e''), (''released_resource_kinds'', JArr [JStr ''kv'']),
      (''released_counts'', JArr [JArr [JStr ''kv'', JInt 3]]), (''resources_held_after'', JBool False),
      (''payload_digest'', JStr ''sha256:h'')]"

lemma sample_snapshot_accepted:
  "validate_release_snapshot (\<lambda>_. ''h'') sample_snapshot ''d0'' ''c'' ''op'' ''l'' [sample_ref] [''kv''] None =
   Inr sample_snapshot"
  by (simp add: validate_release_snapshot_def sample_snapshot_def release_snapshot_fields_def sample_ref_def
      finalize_release_payload_def Let_def jget_def dget_or_def digest_def insert_commute)


end
