(* ===== verification/Seq_State.thy ===== *)
theory Seq_State
  imports Endpoint_Ref Fingerprint
begin

text \<open>
  \<^verbatim>\<open>prism_serve/scheduler/sequence_state.py\<close>: the lifecycle of a request as the gateway tracks it, the
  slot and transfer records, and the \<open>RequestTracker\<close>.  A request object that the code mutates through
  an alias is the entry of the tracker's dictionary; keyword arguments of \<open>transition\<close> are a function
  on the record.  The asyncio task handles of the cleanup registry are numbers.
\<close>

datatype seq_state =
  WAITING | PREFILLING | KV_PENDING | RECOMPUTING | AFFINITY_LOADING | PREFIX_PREFILLING
| DECODING | FINISHED | ABORTED

record request_info =
  rq_req_id :: string
  rq_state :: seq_state
  rq_fingerprint :: "prompt_fingerprint option"
  rq_sampling_params :: jobj
  rq_token_ids :: "int list"
  rq_model :: string
  rq_prefill_instance :: string
  rq_decode_instance :: string
  rq_prefill_instance_epoch :: string
  rq_decode_instance_epoch :: string
  rq_arrived_at :: time
  rq_prefill_start :: time
  rq_kv_sent_at :: time
  rq_recompute_start :: time
  rq_decode_start :: time
  rq_first_token_at :: time
  rq_last_output_query_at :: time
  rq_finished_at :: time
  rq_recompute_count :: int
  rq_dispatch_attempts :: int
  rq_kv_size_bytes :: int
  rq_block_table :: "int list"
  rq_transfer_operation_id :: string
  rq_active_operation_id :: string
  rq_decode_slot_lease_id :: string
  rq_cache_source :: string
  rq_cached_prefix_tokens :: int
  rq_correctness_path :: string
  rq_correctness_source_instance :: string
  rq_correctness_target_instance :: string
  rq_correctness_cached_prefix_tokens :: int
  rq_affinity_started_at :: time
  rq_prefix_ready_at :: time
  rq_suffix_prefill_started_at :: time
  rq_command_id :: string
  rq_publish_outcome :: string
  rq_dispatch_operation_ref :: "endpoint_operation_ref option"
  rq_suffix_operation_ref :: "endpoint_operation_ref option"
  rq_target_request_ref :: "endpoint_operation_ref option"
  rq_target_request_commit_ref :: "endpoint_operation_ref option"
  rq_target_block_table :: "int list"
  rq_transfer_source_ref :: "endpoint_operation_ref option"
  rq_transfer_target_ref :: "endpoint_operation_ref option"

text \<open>A request with every default of the dataclass, created at the given time.\<close>

definition new_request :: "string \<Rightarrow> time \<Rightarrow> request_info" where
  "new_request req_id now =
     \<lparr>rq_req_id = req_id, rq_state = WAITING, rq_fingerprint = None, rq_sampling_params = [],
      rq_token_ids = [], rq_model = [], rq_prefill_instance = [], rq_decode_instance = [],
      rq_prefill_instance_epoch = [], rq_decode_instance_epoch = [], rq_arrived_at = now,
      rq_prefill_start = 0, rq_kv_sent_at = 0, rq_recompute_start = 0, rq_decode_start = 0,
      rq_first_token_at = 0, rq_last_output_query_at = 0, rq_finished_at = 0,
      rq_recompute_count = 0, rq_dispatch_attempts = 0, rq_kv_size_bytes = 0, rq_block_table = [],
      rq_transfer_operation_id = [], rq_active_operation_id = [], rq_decode_slot_lease_id = [],
      rq_cache_source = [], rq_cached_prefix_tokens = 0, rq_correctness_path = [],
      rq_correctness_source_instance = [], rq_correctness_target_instance = [],
      rq_correctness_cached_prefix_tokens = 0, rq_affinity_started_at = 0, rq_prefix_ready_at = 0,
      rq_suffix_prefill_started_at = 0, rq_command_id = [], rq_publish_outcome = ''NOT_STARTED'',
      rq_dispatch_operation_ref = None, rq_suffix_operation_ref = None,
      rq_target_request_ref = None, rq_target_request_commit_ref = None,
      rq_target_block_table = [], rq_transfer_source_ref = None, rq_transfer_target_ref = None\<rparr>"

definition ttft_ms :: "request_info \<Rightarrow> real" where
  "ttft_ms r = (if rq_first_token_at r = 0 then -1 else (rq_first_token_at r - rq_arrived_at r) * 1000)"

definition is_stuck :: "time \<Rightarrow> real \<Rightarrow> request_info \<Rightarrow> bool" where
  "is_stuck now timeout_s r =
     (if rq_state r \<noteq> KV_PENDING then False else now - rq_kv_sent_at r > timeout_s)"

definition is_prefill_stuck :: "time \<Rightarrow> real \<Rightarrow> request_info \<Rightarrow> bool" where
  "is_prefill_stuck now timeout_s r =
     (if rq_state r \<noteq> PREFILLING then False else now - rq_prefill_start r > timeout_s)"

definition is_recompute_stuck :: "time \<Rightarrow> real \<Rightarrow> request_info \<Rightarrow> bool" where
  "is_recompute_stuck now timeout_s r =
     (if rq_state r \<noteq> RECOMPUTING then False else now - rq_recompute_start r > timeout_s)"

definition is_decode_stuck :: "time \<Rightarrow> real \<Rightarrow> request_info \<Rightarrow> bool" where
  "is_decode_stuck now timeout_s r =
     (if rq_state r \<noteq> DECODING then False else now - rq_decode_start r > timeout_s)"

definition is_suffix_prefill_stuck :: "time \<Rightarrow> real \<Rightarrow> request_info \<Rightarrow> bool" where
  "is_suffix_prefill_stuck now timeout_s r =
     (if rq_state r \<noteq> PREFIX_PREFILLING then False
      else now - rq_suffix_prefill_started_at r > timeout_s)"

subsection \<open>Slots and transfer tasks\<close>

record instance_slot =
  sl_instance_id :: string
  sl_seq_id :: "string option"
  sl_block_table :: "int list"
  sl_allocated_at :: time

definition is_idle :: "instance_slot \<Rightarrow> bool" where
  "is_idle s = (sl_seq_id s = None)"

definition is_stale :: "time \<Rightarrow> real \<Rightarrow> instance_slot \<Rightarrow> bool" where
  "is_stale now timeout_s s =
     (if sl_seq_id s = None then False else now - sl_allocated_at s > timeout_s)"

text \<open>\<open>int(x)\<close> of a float truncates towards zero; dividing by zero raises (\<open>None\<close>).\<close>

definition py_int_of_float :: "real \<Rightarrow> int" where
  "py_int_of_float x = (if 0 \<le> x then \<lfloor>x\<rfloor> else \<lceil>x\<rceil>)"

definition compute_max_slots :: "real \<Rightarrow> real \<Rightarrow> real \<Rightarrow> real \<Rightarrow> int option" where
  "compute_max_slots gpu_memory_gb model_weight_gb avg_seq_kv_gb safety_margin =
     (let usable = (gpu_memory_gb - model_weight_gb) * safety_margin
      in if avg_seq_kv_gb = 0 then None
         else Some (max 1 (py_int_of_float (usable / avg_seq_kv_gb))))"

text \<open>
  \<open>tt_object\<close> is the identity of the Python object, which the governor compares with \<open>is\<close>;
  \<open>tt_on_complete\<close> says whether a callback is attached.
\<close>

record transfer_task =
  tt_object :: nat
  tt_req_id :: string
  tt_src :: string
  tt_dst :: string
  tt_kv_size :: int
  tt_operation_id :: string
  tt_src_epoch :: string
  tt_dst_epoch :: string
  tt_src_block_ids :: "int list"
  tt_dst_block_ids :: "int list"
  tt_target_request_ref :: "endpoint_operation_ref option"
  tt_target_request_commit_ref :: "endpoint_operation_ref option"
  tt_token_ids :: "int list"
  tt_sampling_params :: jobj
  tt_first_token :: "int option"
  tt_transfer_source_ref :: "endpoint_operation_ref option"
  tt_transfer_target_ref :: "endpoint_operation_ref option"
  tt_correctness_path :: string
  tt_priority :: int
  tt_enqueued_at :: time
  tt_on_complete :: bool

subsection \<open>Transitions\<close>

definition valid_next :: "seq_state \<Rightarrow> seq_state list" where
  "valid_next s =
     (case s of
        WAITING \<Rightarrow> [PREFILLING, AFFINITY_LOADING]
      | PREFILLING \<Rightarrow> [KV_PENDING]
      | AFFINITY_LOADING \<Rightarrow> [PREFIX_PREFILLING, WAITING]
      | PREFIX_PREFILLING \<Rightarrow> [DECODING, WAITING]
      | KV_PENDING \<Rightarrow> [DECODING, RECOMPUTING]
      | RECOMPUTING \<Rightarrow> [DECODING]
      | DECODING \<Rightarrow> [FINISHED, ABORTED]
      | FINISHED \<Rightarrow> []
      | ABORTED \<Rightarrow> [])"

definition validate_transition :: "seq_state \<Rightarrow> seq_state \<Rightarrow> bool" where
  "validate_transition current new \<longleftrightarrow> new \<in> set (valid_next current) \<union> {ABORTED}"

definition stamp_transition :: "seq_state \<Rightarrow> time \<Rightarrow> request_info \<Rightarrow> request_info" where
  "stamp_transition new_state now r =
     (case new_state of
        PREFILLING \<Rightarrow> r\<lparr>rq_prefill_start := now, rq_dispatch_attempts := rq_dispatch_attempts r + 1\<rparr>
      | KV_PENDING \<Rightarrow> r\<lparr>rq_kv_sent_at := now\<rparr>
      | AFFINITY_LOADING \<Rightarrow> r\<lparr>rq_affinity_started_at := now\<rparr>
      | PREFIX_PREFILLING \<Rightarrow> r\<lparr>rq_prefix_ready_at := now, rq_suffix_prefill_started_at := now\<rparr>
      | RECOMPUTING \<Rightarrow> r\<lparr>rq_recompute_start := now\<rparr>
      | DECODING \<Rightarrow> r\<lparr>rq_decode_start := now\<rparr>
      | FINISHED \<Rightarrow> r\<lparr>rq_finished_at := now\<rparr>
      | ABORTED \<Rightarrow> r\<lparr>rq_finished_at := now\<rparr>
      | WAITING \<Rightarrow> r)"

subsection \<open>The tracker\<close>

datatype tracker_error = TrkAssertionError | TrkKeyError

record tracker =
  tk_requests :: "(string, request_info) dict"
  tk_cleanup_tasks :: "(string, nat) dict"
  tk_metrics :: "metric list"

definition tracker_init :: tracker where
  "tracker_init = \<lparr>tk_requests = [], tk_cleanup_tasks = [], tk_metrics = []\<rparr>"

definition tracker_add :: "tracker \<Rightarrow> request_info \<Rightarrow> tracker_error + tracker" where
  "tracker_add t req =
     (if dhas (tk_requests t) (rq_req_id req) then Inl TrkAssertionError
      else Inr (t\<lparr>tk_requests := dput (tk_requests t) (rq_req_id req) req\<rparr>))"

definition tracker_remove :: "tracker \<Rightarrow> string \<Rightarrow> tracker \<times> request_info option" where
  "tracker_remove t req_id =
     (t\<lparr>tk_requests := dpop (tk_requests t) req_id\<rparr>, dget (tk_requests t) req_id)"

definition tracker_get :: "tracker \<Rightarrow> string \<Rightarrow> request_info option" where
  "tracker_get t req_id = dget (tk_requests t) req_id"

definition set_publish_outcome :: "tracker \<Rightarrow> string \<Rightarrow> string \<Rightarrow> tracker_error + tracker" where
  "set_publish_outcome t req_id outcome =
     (if outcome \<notin> {''NOT_STARTED'', ''ACKED'', ''UNKNOWN''} then Inl TrkAssertionError
      else case dget (tk_requests t) req_id of
        None \<Rightarrow> Inl TrkKeyError
      | Some r \<Rightarrow> Inr (t\<lparr>tk_requests := dput (tk_requests t) req_id (r\<lparr>rq_publish_outcome := outcome\<rparr>)\<rparr>))"

text \<open>Cleanup supervisors: at most one task per request; \<open>handle\<close> is the task a new one would get.\<close>

definition get_or_create_cleanup_task :: "tracker \<Rightarrow> string \<Rightarrow> nat \<Rightarrow> tracker \<times> nat" where
  "get_or_create_cleanup_task t req_id handle =
     (case dget (tk_cleanup_tasks t) req_id of
        Some existing \<Rightarrow> (t, existing)
      | None \<Rightarrow> (t\<lparr>tk_cleanup_tasks := dput (tk_cleanup_tasks t) req_id handle\<rparr>, handle))"

definition cleanup_task :: "tracker \<Rightarrow> string \<Rightarrow> nat option" where
  "cleanup_task t req_id = dget (tk_cleanup_tasks t) req_id"

text \<open>\<open>clear_cleanup_task\<close>; the done callback \<open>forget\<close> does the same.\<close>

definition clear_cleanup_task :: "tracker \<Rightarrow> string \<Rightarrow> nat \<Rightarrow> tracker" where
  "clear_cleanup_task t req_id task =
     (if dget (tk_cleanup_tasks t) req_id = Some task
      then t\<lparr>tk_cleanup_tasks := dpop (tk_cleanup_tasks t) req_id\<rparr> else t)"

text \<open>
  Joining the cancelled tasks runs the done callback of each; the first component lists the tasks
  that were cancelled.
\<close>

definition quiesce_cleanup_tasks :: "tracker \<Rightarrow> nat list \<times> tracker" where
  "quiesce_cleanup_tasks t =
     (dvals (tk_cleanup_tasks t),
      foldl (\<lambda>u p. clear_cleanup_task u (fst p) (snd p)) t (tk_cleanup_tasks t))"

definition transition ::
  "tracker \<Rightarrow> string \<Rightarrow> seq_state \<Rightarrow> time \<Rightarrow> (request_info \<Rightarrow> request_info) \<Rightarrow> tracker_error + tracker" where
  "transition t req_id new_state now kwargs =
     (case dget (tk_requests t) req_id of
        None \<Rightarrow> Inl TrkKeyError
      | Some req \<Rightarrow>
          if \<not> validate_transition (rq_state req) new_state then Inl TrkAssertionError
          else Inr (t\<lparr>tk_requests := dput (tk_requests t) req_id
                 ((kwargs (stamp_transition new_state now req))\<lparr>rq_state := new_state\<rparr>)\<rparr>))"

definition get_stuck_requests :: "tracker \<Rightarrow> time \<Rightarrow> real \<Rightarrow> request_info list" where
  "get_stuck_requests t now timeout_s =
     sort_key rq_kv_sent_at (filter (is_stuck now timeout_s) (dvals (tk_requests t)))"

definition get_stuck_prefills :: "tracker \<Rightarrow> time \<Rightarrow> real \<Rightarrow> request_info list" where
  "get_stuck_prefills t now timeout_s =
     sort_key rq_prefill_start (filter (is_prefill_stuck now timeout_s) (dvals (tk_requests t)))"

definition get_stuck_recomputes :: "tracker \<Rightarrow> time \<Rightarrow> real \<Rightarrow> request_info list" where
  "get_stuck_recomputes t now timeout_s =
     sort_key rq_recompute_start (filter (is_recompute_stuck now timeout_s) (dvals (tk_requests t)))"

definition get_stuck_decodes :: "tracker \<Rightarrow> time \<Rightarrow> real \<Rightarrow> request_info list" where
  "get_stuck_decodes t now timeout_s =
     sort_key rq_decode_start (filter (is_decode_stuck now timeout_s) (dvals (tk_requests t)))"

definition get_stuck_suffix_prefills :: "tracker \<Rightarrow> time \<Rightarrow> real \<Rightarrow> request_info list" where
  "get_stuck_suffix_prefills t now timeout_s =
     sort_key rq_suffix_prefill_started_at
       (filter (is_suffix_prefill_stuck now timeout_s) (dvals (tk_requests t)))"

definition record_first_token :: "tracker \<Rightarrow> string \<Rightarrow> time \<Rightarrow> tracker \<times> bool" where
  "record_first_token t req_id now =
     (case dget (tk_requests t) req_id of
        None \<Rightarrow> (t, False)
      | Some req \<Rightarrow>
          if rq_state req \<noteq> DECODING then (t, False)
          else if rq_first_token_at req \<noteq> 0 then (t, False)
          else (let req' = req\<lparr>rq_first_token_at := now\<rparr>
                in (t\<lparr>tk_requests := dput (tk_requests t) req_id req',
                      tk_metrics := tk_metrics t @
                        [Observe ''request_ttft_ms'' (ttft_ms req') [(''state'', ''DECODING'')],
                         Observe ''gateway_first_token_stage_latency_ms'' (ttft_ms req')
                           [(''path'', if rq_cached_prefix_tokens req' > 0 then ''affinity'' else ''cold'')]]\<rparr>,
                    True)))"

definition iter_by_state :: "tracker \<Rightarrow> seq_state \<Rightarrow> request_info list" where
  "iter_by_state t s = filter (\<lambda>r. rq_state r = s) (dvals (tk_requests t))"

definition all_requests :: "tracker \<Rightarrow> request_info list" where
  "all_requests t = dvals (tk_requests t)"

definition tracker_len :: "tracker \<Rightarrow> nat" where
  "tracker_len t = length (tk_requests t)"

definition tracker_contains :: "tracker \<Rightarrow> string \<Rightarrow> bool" where
  "tracker_contains t req_id = dhas (tk_requests t) req_id"

subsection \<open>The invariant of the tracker\<close>

definition tracker_inv :: "tracker \<Rightarrow> bool" where
  "tracker_inv t \<longleftrightarrow> wf_dict (tk_requests t) \<and> wf_dict (tk_cleanup_tasks t) \<and>
     (\<forall>k r. dget (tk_requests t) k = Some r \<longrightarrow> rq_req_id r = k)"

lemma tracker_init_inv [inv_intros]: "tracker_inv tracker_init"
  by (simp add: tracker_inv_def tracker_init_def)

lemma tracker_add_inv [inv_intros]: "tracker_inv t \<Longrightarrow> tracker_add t r = Inr t' \<Longrightarrow> tracker_inv t'"
  by (auto simp: tracker_inv_def tracker_add_def dict_simps split: if_splits)

lemma tracker_remove_inv [inv_intros]: "tracker_inv t \<Longrightarrow> tracker_inv (fst (tracker_remove t k))"
  by (auto simp: tracker_inv_def tracker_remove_def dict_simps)

lemma set_publish_outcome_inv [inv_intros]:
  "tracker_inv t \<Longrightarrow> set_publish_outcome t k v = Inr t' \<Longrightarrow> tracker_inv t'"
  by (auto simp: tracker_inv_def set_publish_outcome_def dict_simps split: if_splits option.splits)

lemma clear_cleanup_task_inv [inv_intros]: "tracker_inv t \<Longrightarrow> tracker_inv (clear_cleanup_task t k h)"
  by (auto simp: tracker_inv_def clear_cleanup_task_def)

lemma get_or_create_cleanup_task_inv [inv_intros]:
  "tracker_inv t \<Longrightarrow> tracker_inv (fst (get_or_create_cleanup_task t k h))"
  by (auto simp: tracker_inv_def get_or_create_cleanup_task_def split: option.splits)

lemma record_first_token_inv [inv_intros]: "tracker_inv t \<Longrightarrow> tracker_inv (fst (record_first_token t k now))"
  by (auto simp: tracker_inv_def record_first_token_def Let_def dict_simps split: option.splits)

lemma stamp_transition_req_id [simp]: "rq_req_id (stamp_transition s now r) = rq_req_id r"
  by (simp add: stamp_transition_def split: seq_state.splits)

lemma transition_inv [inv_intros]:
  "tracker_inv t \<Longrightarrow> transition t k s now kw = Inr t' \<Longrightarrow> (\<And>r. rq_req_id (kw r) = rq_req_id r) \<Longrightarrow>
     tracker_inv t'"
  by (auto simp: tracker_inv_def transition_def dict_simps split: if_splits option.splits)

lemma quiesce_forgets_all:
  assumes "tracker_inv t"
  shows "tk_cleanup_tasks (snd (quiesce_cleanup_tasks t)) = []"
proof -
  have "foldl (\<lambda>u p. clear_cleanup_task u (fst p) (snd p)) u ds = u\<lparr>tk_cleanup_tasks := []\<rparr>"
    if "tk_cleanup_tasks u = ds" "wf_dict ds" for u :: tracker and ds
    using that
  proof (induction ds arbitrary: u)
    case Nil
    then show ?case by simp
  next
    case (Cons p ds)
    have "dpop (p # ds) (fst p) = ds" using Cons.prems(2) by simp
    then have "tk_cleanup_tasks (clear_cleanup_task u (fst p) (snd p)) = ds"
      using Cons.prems(1) by (simp add: clear_cleanup_task_def)
    then have "foldl (\<lambda>u p. clear_cleanup_task u (fst p) (snd p)) (clear_cleanup_task u (fst p) (snd p)) ds
        = (clear_cleanup_task u (fst p) (snd p))\<lparr>tk_cleanup_tasks := []\<rparr>"
      using Cons by simp
    then show ?case by (simp add: clear_cleanup_task_def)
  qed
  with assms show ?thesis by (simp add: quiesce_cleanup_tasks_def tracker_inv_def)
qed

subsection \<open>Deadline scans\<close>

text \<open>
  The five \<open>get_stuck_*\<close> methods have one contract: they list the requests that have been in one
  phase for longer than the timeout, those that have waited longest first.
\<close>

locale deadline_scan =
  fixes phase :: seq_state
    and since :: "request_info \<Rightarrow> time"
    and overdue :: "time \<Rightarrow> real \<Rightarrow> request_info \<Rightarrow> bool"
    and scan :: "tracker \<Rightarrow> time \<Rightarrow> real \<Rightarrow> request_info list"
  assumes overdue_iff: "overdue now d r \<longleftrightarrow> rq_state r = phase \<and> now - since r > d"
    and scan_eq: "scan t now d = sort_key since (filter (overdue now d) (dvals (tk_requests t)))"
begin

lemma scan_sorted: "sorted (map since (scan t now d))"
  by (simp add: scan_eq)

lemma scan_complete:
  assumes "tracker_inv t"
  shows "r \<in> set (scan t now d) \<longleftrightarrow>
    tracker_get t (rq_req_id r) = Some r \<and> rq_state r = phase \<and> now - since r > d"
proof -
  from assms have "wf_dict (tk_requests t)" "\<And>k r. dget (tk_requests t) k = Some r \<Longrightarrow> rq_req_id r = k"
    by (auto simp: tracker_inv_def)
  then have "r \<in> set (dvals (tk_requests t)) \<longleftrightarrow> dget (tk_requests t) (rq_req_id r) = Some r"
    by (auto simp: dvals_iff simp del: set_map)
  then show ?thesis by (auto simp: scan_eq overdue_iff tracker_get_def)
qed

lemma scan_once:
  assumes "tracker_inv t"
  shows "distinct (map rq_req_id (scan t now d))"
proof -
  from assms have wf: "wf_dict (tk_requests t)" and
    id: "\<And>k r. (k, r) \<in> set (tk_requests t) \<Longrightarrow> rq_req_id r = k"
    by (auto simp: tracker_inv_def dict_items)
  have "map rq_req_id (dvals (tk_requests t)) = dkeys (tk_requests t)"
    using id by auto
  with wf have "distinct (map rq_req_id (dvals (tk_requests t)))" by (simp only:)
  then have "distinct (map rq_req_id (filter (overdue now d) (dvals (tk_requests t))))"
    by (rule distinct_map_filter)
  then show ?thesis by (simp add: scan_eq distinct_map)
qed

end

interpretation kv_scan: deadline_scan KV_PENDING rq_kv_sent_at is_stuck get_stuck_requests
  by unfold_locales (simp_all add: is_stuck_def get_stuck_requests_def)

interpretation prefill_scan: deadline_scan PREFILLING rq_prefill_start is_prefill_stuck get_stuck_prefills
  by unfold_locales (simp_all add: is_prefill_stuck_def get_stuck_prefills_def)

interpretation recompute_scan: deadline_scan RECOMPUTING rq_recompute_start is_recompute_stuck
  get_stuck_recomputes
  by unfold_locales (simp_all add: is_recompute_stuck_def get_stuck_recomputes_def)

interpretation decode_scan: deadline_scan DECODING rq_decode_start is_decode_stuck get_stuck_decodes
  by unfold_locales (simp_all add: is_decode_stuck_def get_stuck_decodes_def)

interpretation suffix_scan: deadline_scan PREFIX_PREFILLING rq_suffix_prefill_started_at
  is_suffix_prefill_stuck get_stuck_suffix_prefills
  by unfold_locales (simp_all add: is_suffix_prefill_stuck_def get_stuck_suffix_prefills_def)

subsection \<open>Lifecycles\<close>

text \<open>The states a request passes through, and the transitions of one request in a row.\<close>

fun lifecycle :: "seq_state \<Rightarrow> seq_state list \<Rightarrow> bool" where
  "lifecycle s [] = True"
| "lifecycle s (x # xs) = (validate_transition s x \<and> lifecycle x xs)"

type_synonym transition_call = "seq_state \<times> time \<times> (request_info \<Rightarrow> request_info)"

fun run_transitions :: "tracker \<Rightarrow> string \<Rightarrow> transition_call list \<Rightarrow> tracker_error + tracker" where
  "run_transitions t k [] = Inr t"
| "run_transitions t k ((s, now, kw) # cs) =
     (case transition t k s now kw of Inl e \<Rightarrow> Inl e | Inr t' \<Rightarrow> run_transitions t' k cs)"

lemma transition_Inr:
  assumes "transition t k s now kw = Inr t'"
  obtains r where "tracker_get t k = Some r" "validate_transition (rq_state r) s"
    "tracker_get t' k = Some ((kw (stamp_transition s now r))\<lparr>rq_state := s\<rparr>)"
    "\<And>j. j \<noteq> k \<Longrightarrow> tracker_get t' j = tracker_get t j"
  using assms
  by (auto simp: transition_def tracker_get_def dict_simps split: option.splits if_splits)

lemma run_transitions_lifecycle:
  "tracker_get t k = Some r \<Longrightarrow> run_transitions t k cs = Inr t' \<Longrightarrow>
     lifecycle (rq_state r) (map fst cs) \<and>
     (\<exists>r'. tracker_get t' k = Some r' \<and> rq_state r' = last (rq_state r # map fst cs))"
proof (induction cs arbitrary: t r)
  case Nil
  then show ?case by simp
next
  case (Cons c cs)
  obtain s now kw where c: "c = (s, now, kw)" by (cases c) auto
  from Cons.prems(2) c obtain u where u: "transition t k s now kw = Inr u" "run_transitions u k cs = Inr t'"
    by (auto split: sum.splits)
  from transition_Inr [OF u(1)] Cons.prems(1) have
    "validate_transition (rq_state r) s" "\<exists>q. tracker_get u k = Some q \<and> rq_state q = s"
    by fastforce+
  with Cons.IH u(2) c show ?case by fastforce
qed

lemma lifecycle_finished:
  "lifecycle s ss \<Longrightarrow> last (s # ss) = FINISHED \<Longrightarrow>
     s \<noteq> ABORTED \<and> ABORTED \<notin> set ss \<and>
     (s \<notin> {DECODING, FINISHED} \<longrightarrow> DECODING \<in> set ss) \<and>
     (s \<notin> {KV_PENDING, RECOMPUTING, PREFIX_PREFILLING, DECODING, FINISHED} \<longrightarrow>
        KV_PENDING \<in> set ss \<or> PREFIX_PREFILLING \<in> set ss)"
proof (induction ss arbitrary: s)
  case Nil
  then show ?case by auto
next
  case (Cons x xs)
  from Cons.prems have "lifecycle x xs" "last (x # xs) = FINISHED" "validate_transition s x"
    by simp_all
  with Cons.IH [of x] show ?case
    by (cases s; cases x) (auto simp: validate_transition_def valid_next_def)
qed

lemma lifecycle_aborted: "lifecycle ABORTED ss \<Longrightarrow> set ss \<subseteq> {ABORTED}"
  by (induction ss) (auto simp: validate_transition_def valid_next_def)

lemma lifecycle_terminal: "lifecycle s ss \<Longrightarrow> s \<in> {FINISHED, ABORTED} \<Longrightarrow> set ss \<subseteq> {ABORTED}"
proof (cases ss)
  case (Cons x xs)
  assume "lifecycle s ss" "s \<in> {FINISHED, ABORTED}"
  with Cons have "x = ABORTED" "lifecycle x xs" by (auto simp: validate_transition_def valid_next_def)
  with lifecycle_aborted [of xs] Cons show ?thesis by simp
qed simp

lemma stamp_transition_first_token [simp]: "rq_first_token_at (stamp_transition s now r) = rq_first_token_at r"
  by (simp add: stamp_transition_def split: seq_state.splits)

lemma run_transitions_first_token:
  "tracker_get t k = Some r \<Longrightarrow> run_transitions t k cs = Inr t' \<Longrightarrow>
   (\<And>s now kw q. (s, now, kw) \<in> set cs \<Longrightarrow> rq_first_token_at (kw q) = rq_first_token_at q) \<Longrightarrow>
   \<exists>r'. tracker_get t' k = Some r' \<and> rq_first_token_at r' = rq_first_token_at r"
proof (induction cs arbitrary: t r)
  case (Cons c cs)
  obtain s now kw where c: "c = (s, now, kw)" by (cases c) auto
  from Cons.prems(2) c obtain u where u: "transition t k s now kw = Inr u" "run_transitions u k cs = Inr t'"
    by (auto split: sum.splits)
  have kw: "rq_first_token_at (kw q) = rq_first_token_at q" for q using Cons.prems(3) [of s now kw] c by simp
  from transition_Inr [OF u(1)] Cons.prems(1)
  have q: "tracker_get u k = Some ((kw (stamp_transition s now r))\<lparr>rq_state := s\<rparr>)" by (metis option.inject)
  have "\<exists>r'. tracker_get t' k = Some r' \<and>
      rq_first_token_at r' = rq_first_token_at ((kw (stamp_transition s now r))\<lparr>rq_state := s\<rparr>)"
    by (rule Cons.IH [OF q u(2)]) (erule Cons.prems(3) [OF list.set_intros(2)])
  then show ?case by (simp add: kw)
qed simp

subsection \<open>Properties\<close>


definition sample_tracker :: tracker where
  "sample_tracker = tracker_init\<lparr>tk_requests := [(''r'', new_request ''r'' 1)]\<rparr>"

definition sample_calls :: "transition_call list" where
  "sample_calls = [(PREFILLING, 2, id), (KV_PENDING, 3, id), (DECODING, 4, id), (FINISHED, 9, id)]"

lemmas tracker_eval = tracker_get_def tracker_init_def transition_def validate_transition_def valid_next_def
  stamp_transition_def new_request_def


text \<open>
  C21.  Terminal states are final: once a request is finished or aborted, the only transition the
  tracker still accepts is to \<open>ABORTED\<close>, so it never goes back to a live phase.
\<close>

theorem terminal_is_final:
  assumes "tracker_get t k = Some r" and "rq_state r \<in> {FINISHED, ABORTED}" and "run_transitions t k cs = Inr t'"
  shows "set (map fst cs) \<subseteq> {ABORTED} \<and> (\<exists>r'. tracker_get t' k = Some r' \<and> rq_state r' \<in> {FINISHED, ABORTED})"
proof -
  note l = run_transitions_lifecycle [OF assms(1,3)]
  have s: "set (map fst cs) \<subseteq> {ABORTED}" using l lifecycle_terminal assms(2) by blast
  have "last (rq_state r # map fst cs) \<in> set (rq_state r # map fst cs)" by (rule last_in_set) simp
  with s assms(2) have "last (rq_state r # map fst cs) \<in> {FINISHED, ABORTED}" by auto
  with l s show ?thesis by auto
qed

theorem terminal_is_final_witness:
  "\<exists>t'. run_transitions (sample_tracker\<lparr>tk_requests := [(''r'', (new_request ''r'' 1)\<lparr>rq_state := FINISHED\<rparr>)]\<rparr>) ''r''
      [(ABORTED, 5, id)] = Inr t' \<and> (\<exists>r'. tracker_get t' ''r'' = Some r' \<and> rq_state r' \<in> {FINISHED, ABORTED})"
proof -
  let ?t = "sample_tracker\<lparr>tk_requests := [(''r'', (new_request ''r'' 1)\<lparr>rq_state := FINISHED\<rparr>)]\<rparr>"
  obtain r t' where r: "tracker_get ?t ''r'' = Some r" "rq_state r \<in> {FINISHED, ABORTED}"
    "run_transitions ?t ''r'' [(ABORTED, 5, id)] = Inr t'"
    by (simp add: sample_tracker_def tracker_eval)
  from terminal_is_final [OF this] r(3) show ?thesis by blast
qed

text \<open>
  The timeout scans miss nothing and repeat nothing: each of the five lists exactly the tracked
  requests that have been in its phase for longer than the timeout, each once, those that entered the
  phase first at the front.
\<close>

theorem stuck_scans_exact:
  assumes "tracker_inv t"
    and "(phase, since, scan) \<in> {(KV_PENDING, rq_kv_sent_at, get_stuck_requests),
      (PREFILLING, rq_prefill_start, get_stuck_prefills), (RECOMPUTING, rq_recompute_start, get_stuck_recomputes),
      (DECODING, rq_decode_start, get_stuck_decodes),
      (PREFIX_PREFILLING, rq_suffix_prefill_started_at, get_stuck_suffix_prefills)}"
  shows "(r \<in> set (scan t now d) \<longleftrightarrow> tracker_get t (rq_req_id r) = Some r \<and> rq_state r = phase \<and> now - since r > d) \<and>
    distinct (map rq_req_id (scan t now d)) \<and> sorted (map since (scan t now d))"
  using assms(2) kv_scan.scan_complete [OF assms(1)] prefill_scan.scan_complete [OF assms(1)]
    recompute_scan.scan_complete [OF assms(1)] decode_scan.scan_complete [OF assms(1)]
    suffix_scan.scan_complete [OF assms(1)] kv_scan.scan_once [OF assms(1)] prefill_scan.scan_once [OF assms(1)]
    recompute_scan.scan_once [OF assms(1)] decode_scan.scan_once [OF assms(1)] suffix_scan.scan_once [OF assms(1)]
    kv_scan.scan_sorted prefill_scan.scan_sorted recompute_scan.scan_sorted decode_scan.scan_sorted
    suffix_scan.scan_sorted
  by (elim insertE emptyE) (simp_all only: prod.inject simp_thms)

theorem stuck_scans_exact_witness:
  "\<exists>r. r \<in> set (get_stuck_requests
      (sample_tracker\<lparr>tk_requests := [(''r'', (new_request ''r'' 1)\<lparr>rq_state := KV_PENDING\<rparr>)]\<rparr>) 100 30)"
proof -
  let ?t = "sample_tracker\<lparr>tk_requests := [(''r'', (new_request ''r'' 1)\<lparr>rq_state := KV_PENDING\<rparr>)]\<rparr>"
  have inv: "tracker_inv ?t" by (simp add: tracker_inv_def sample_tracker_def tracker_eval)
  have "(new_request ''r'' 1)\<lparr>rq_state := KV_PENDING\<rparr> \<in> set (get_stuck_requests ?t 100 30)"
    using stuck_scans_exact [OF inv, of KV_PENDING rq_kv_sent_at get_stuck_requests] by (simp add: tracker_eval)
  then show ?thesis by blast
qed

text \<open>
  First-token latency is observed once: after a recording has succeeded, later recordings for the
  same request report \<open>False\<close> and change nothing, whatever transitions happen in between (the
  keyword arguments of a transition do not touch the first-token time).
\<close>

theorem first_token_once:
  assumes "record_first_token t k now = (t1, True)" and "now \<noteq> 0" and "run_transitions t1 k cs = Inr t2"
    and "\<And>s n kw q. (s, n, kw) \<in> set cs \<Longrightarrow> rq_first_token_at (kw q) = rq_first_token_at q"
  shows "record_first_token t2 k later = (t2, False)"
proof -
  from assms(1,2) obtain r where r: "tracker_get t1 k = Some r" "rq_first_token_at r \<noteq> 0"
    by (auto simp: record_first_token_def tracker_get_def Let_def dict_simps split: option.splits if_splits)
  have "\<exists>r'. tracker_get t2 k = Some r' \<and> rq_first_token_at r' = rq_first_token_at r"
    using run_transitions_first_token [of t1 k r cs t2] r(1) assms(3,4) by blast
  with r(2) obtain r' where "tracker_get t2 k = Some r'" "rq_first_token_at r' \<noteq> 0" by auto
  then show ?thesis by (simp add: record_first_token_def tracker_get_def)
qed

definition sample_decoding :: tracker where
  "sample_decoding = sample_tracker\<lparr>tk_requests := [(''r'', (new_request ''r'' 1)\<lparr>rq_state := DECODING\<rparr>)]\<rparr>"

theorem first_token_once_witness:
  "\<exists>t1 t2. record_first_token sample_decoding ''r'' 5 = (t1, True) \<and> run_transitions t1 ''r'' [(FINISHED, 6, id)] = Inr t2 \<and>
     record_first_token t2 ''r'' 7 = (t2, False)"
proof -
  obtain t1 t2 where t: "record_first_token sample_decoding ''r'' 5 = (t1, True)"
    "run_transitions t1 ''r'' [(FINISHED, 6, id)] = Inr t2"
    by (simp add: sample_decoding_def sample_tracker_def tracker_eval record_first_token_def Let_def)
  from first_token_once [OF t(1) _ t(2), of 7] t show ?thesis by auto
qed

end
