(* ===== verification/Worker_Registry.thy ===== *)
theory Worker_Registry
  imports Json
begin

text \<open>
  \<^verbatim>\<open>prism_serve/router/worker_registry.py\<close>: identity, capability and freshness of the four workers of
  the fixed two-prefill, two-decode topology.  A world of identities and pair capabilities is
  installed as a whole or not at all; resource reports are kept with the gateway-local time at which
  they arrived, and admission asks for a ready world and a fresh report.  The values of the process
  clock are arguments (\<open>now\<close>).
\<close>

definition EXPECTED_MEMBERS :: "(string, string \<times> int) dict" where
  "EXPECTED_MEMBERS =
     [(''p0'', (''prefill'', 0)), (''p1'', (''prefill'', 1)),
      (''d0'', (''decode'', 2)), (''d1'', (''decode'', 3))]"

definition EXPECTED_PAIRS :: "string list" where
  "EXPECTED_PAIRS = [''p0--d0'', ''p0--d1'', ''p1--d0'', ''p1--d1'', ''d0--d1'']"

datatype topology_state = STARTING | READY | FAILED | STOPPED

datatype resource_signal_state = UNKNOWN | FRESH | STALE

record worker_identity =
  wi_instance_id :: string
  wi_role :: string
  wi_topology_generation :: string
  wi_pod_uid :: string
  wi_process_generation :: string
  wi_rpc_endpoint :: string
  wi_global_rank :: int
  wi_topology_digest :: string
  wi_kv_compatibility_id :: string

definition wi_instance_epoch :: "worker_identity \<Rightarrow> string" where
  "wi_instance_epoch w = wi_pod_uid w @ '':'' @ wi_process_generation w"

record pair_capability =
  pc_pair_id :: string
  pc_source_epoch :: string
  pc_target_epoch :: string
  pc_transport :: string
  pc_probe_generation :: string
  pc_probe_passed :: bool
  pc_evidence_path :: string

record resource_signal =
  rs_state :: resource_signal_state
  rs_instance_epoch :: "string option"
  rs_received_at :: "time option"
  rs_report :: "jobj option"
  rs_age_s :: "real option"

record worker_registry =
  wr_expected_topology_generation :: string
  wr_expected_kv_compatibility_id :: "string option"
  wr_expected_model_profile :: "jobj option"
  wr_require_gpudirect_rdma :: bool
  wr_resource_report_stale_after_s :: real
  wr_state :: topology_state
  wr_members :: "(string, worker_identity) dict"
  wr_capabilities :: "(string, pair_capability) dict"
  wr_resources :: "(string, resource_signal) dict"

datatype registry_error = RegAssertionError

definition registry_init ::
  "string \<Rightarrow> string option \<Rightarrow> jobj option \<Rightarrow> bool \<Rightarrow> real \<Rightarrow> registry_error + worker_registry" where
  "registry_init expected_topology_generation expected_kv_compatibility_id expected_model_profile
     require_gpudirect_rdma resource_report_stale_after_s =
     (if expected_topology_generation = [] then Inl RegAssertionError
      else if resource_report_stale_after_s \<le> 0 then Inl RegAssertionError
      else Inr \<lparr>wr_expected_topology_generation = expected_topology_generation,
        wr_expected_kv_compatibility_id = expected_kv_compatibility_id,
        wr_expected_model_profile = expected_model_profile,
        wr_require_gpudirect_rdma = require_gpudirect_rdma,
        wr_resource_report_stale_after_s = resource_report_stale_after_s,
        wr_state = STARTING, wr_members = [], wr_capabilities = [], wr_resources = []\<rparr>)"

subsection \<open>Installing and observing a world\<close>

definition registry_fail :: "worker_registry \<Rightarrow> worker_registry" where
  "registry_fail r = r\<lparr>wr_state := FAILED, wr_resources := [], wr_capabilities := []\<rparr>"

text \<open>\<open>pair_id.split('--', maxsplit=1)\<close>; unpacking a single part raises (\<open>None\<close>).\<close>

fun split_pair :: "string \<Rightarrow> (string \<times> string) option" where
  "split_pair (a # b # cs) =
     (if a = CHR ''-'' \<and> b = CHR ''-'' then Some ([], cs)
      else map_option (\<lambda>p. (a # fst p, snd p)) (split_pair (b # cs)))"
| "split_pair _ = None"

definition admit_capability ::
  "worker_registry \<Rightarrow> pair_capability \<Rightarrow> (string, worker_identity) dict \<Rightarrow> bool option" where
  "admit_capability r capability members =
     (if \<not> pc_probe_passed capability \<or> pc_probe_generation capability = [] then Some False
      else case split_pair (pc_pair_id capability) of
        None \<Rightarrow> None
      | Some (source, target) \<Rightarrow>
          (case (dget members source, dget members target) of
             (Some s, Some t) \<Rightarrow>
               Some (if pc_source_epoch capability \<noteq> wi_instance_epoch s then False
                     else if pc_target_epoch capability \<noteq> wi_instance_epoch t then False
                     else if wr_require_gpudirect_rdma r then pc_transport capability = ''NCCL_GDR''
                     else pc_transport capability \<in> {''NCCL_GDR'', ''NCCL_SOCKET'', ''CUDA_IPC''})
           | _ \<Rightarrow> Some False))"

text \<open>\<open>{key(x): x for x in xs}\<close>.\<close>

definition dict_by :: "('a \<Rightarrow> 'k) \<Rightarrow> 'a list \<Rightarrow> ('k, 'a) dict" where
  "dict_by key xs = foldl (\<lambda>d x. dput d (key x) x) [] xs"

definition world_valid ::
  "worker_registry \<Rightarrow> (string, worker_identity) dict \<Rightarrow> (string, pair_capability) dict \<Rightarrow> bool" where
  "world_valid r members caps \<longleftrightarrow>
     (set (dkeys members) = set (dkeys EXPECTED_MEMBERS) \<and> set (dkeys caps) = set EXPECTED_PAIRS) \<and>
     (let generations = remdups (map wi_topology_generation (dvals members));
          digests = remdups (map wi_topology_digest (dvals members));
          pod_uids = remdups (map wi_pod_uid (dvals members));
          compatibility_ids = remdups (map wi_kv_compatibility_id (dvals members))
      in set generations = {wr_expected_topology_generation r} \<and>
         length digests = 1 \<and>
         length pod_uids = 4 \<and>
         length compatibility_ids = 1 \<and>
         [] \<notin> set compatibility_ids \<and>
         (case wr_expected_kv_compatibility_id r of None \<Rightarrow> True
          | Some e \<Rightarrow> set compatibility_ids = {e}) \<and>
         (\<forall>p \<in> set members. Some (wi_role (snd p), wi_global_rank (snd p)) = dget EXPECTED_MEMBERS (fst p)) \<and>
         (\<forall>p \<in> set caps. admit_capability r (snd p) members = Some True))"

definition install_world ::
  "worker_registry \<Rightarrow> worker_identity list \<Rightarrow> pair_capability list \<Rightarrow> worker_registry \<times> bool" where
  "install_world r identities capabilities =
     (let members = dict_by wi_instance_id identities;
          caps = dict_by pc_pair_id capabilities
      in if \<not> world_valid r members caps then (registry_fail r, False)
         else (r\<lparr>wr_members := members, wr_capabilities := caps, wr_resources := [],
                 wr_state := READY\<rparr>, True))"

definition observe_identity :: "worker_registry \<Rightarrow> worker_identity \<Rightarrow> worker_registry \<times> bool" where
  "observe_identity r identity =
     (case dget (wr_members r) (wi_instance_id identity) of
        None \<Rightarrow> (registry_fail r, False)
      | Some current \<Rightarrow> if current \<noteq> identity then (registry_fail r, False) else (r, True))"

text \<open>Dictionaries are compared without regard to order.\<close>

definition dict_eq :: "('k, 'v) dict \<Rightarrow> ('k, 'v) dict \<Rightarrow> bool" where
  "dict_eq d e \<longleftrightarrow> set (dkeys d) = set (dkeys e) \<and> (\<forall>k \<in> set (dkeys d). dget d k = dget e k)"

definition observe_capabilities :: "worker_registry \<Rightarrow> pair_capability list \<Rightarrow> worker_registry \<times> bool" where
  "observe_capabilities r capabilities =
     (if \<not> dict_eq (dict_by pc_pair_id capabilities) (wr_capabilities r)
      then (registry_fail r, False) else (r, True))"

subsection \<open>Resource reports\<close>

definition block_fields :: "string list" where
  "block_fields = [''num_gpu_blocks'', ''free_blocks'', ''block_buckets'', ''block_conservation_valid'']"

definition expected_buckets :: "string list" where
  "expected_buckets = [''free'', ''pending'', ''sequence'', ''evictable'', ''quarantined'']"

definition model_profile_valid :: "worker_registry \<Rightarrow> jobj \<Rightarrow> worker_identity \<Rightarrow> bool" where
  "model_profile_valid r report identity =
     (case wr_expected_model_profile r of
        None \<Rightarrow> True
      | Some expected \<Rightarrow>
          (case jget report ''model_profile'' of
             JObj profile \<Rightarrow>
               (\<forall>p \<in> set expected. py_eq (jget profile (fst p)) (snd p)) \<and>
               jget profile ''kv_compatibility_id'' = JStr (wi_kv_compatibility_id identity)
           | _ \<Rightarrow> False))"

definition resource_report_schema_valid :: "worker_registry \<Rightarrow> jobj \<Rightarrow> worker_identity \<Rightarrow> bool" where
  "resource_report_schema_valid r report identity =
     (if \<not> model_profile_valid r report identity then False
      else if \<not> (\<exists>f \<in> set block_fields. dhas report f) then wr_expected_model_profile r = None
      else if \<not> (\<forall>f \<in> set block_fields. dhas report f) then False
      else case (strict_int (jget report ''num_gpu_blocks''), strict_int (jget report ''free_blocks''),
                 jget report ''block_buckets'') of
        (Some num, Some free, JObj buckets) \<Rightarrow>
          if num < 0 \<or> free < 0 \<or> jget report ''block_conservation_valid'' \<noteq> JBool True then False
          else if set (dkeys buckets) \<noteq> set expected_buckets then False
          else if \<exists>v \<in> set (dvals buckets). case strict_int v of None \<Rightarrow> True | Some n \<Rightarrow> n < 0 then False
          else jget buckets ''free'' = JInt free \<and>
               sum_list (map (\<lambda>v. case strict_int v of None \<Rightarrow> 0 | Some n \<Rightarrow> n) (dvals buckets)) = num
      | _ \<Rightarrow> False)"

text \<open>\<open>received_at\<close> when given must be a number that is not a boolean and not later than \<open>now\<close>.\<close>

definition gateway_received_at :: "time \<Rightarrow> json option \<Rightarrow> time option" where
  "gateway_received_at now received_at =
     (case received_at of
        None \<Rightarrow> Some now
      | Some (JInt n) \<Rightarrow> if of_int n > now then None else Some (of_int n)
      | Some (JFloat x) \<Rightarrow> if x > now then None else Some x
      | Some _ \<Rightarrow> None)"

definition signal_state :: "worker_registry \<Rightarrow> real \<Rightarrow> resource_signal_state" where
  "signal_state r age_s = (if age_s \<le> wr_resource_report_stale_after_s r then FRESH else STALE)"

definition update_resource_report ::
  "worker_registry \<Rightarrow> time \<Rightarrow> string \<Rightarrow> jobj \<Rightarrow> json option \<Rightarrow> worker_registry \<times> bool" where
  "update_resource_report r now instance_id report received_at =
     (case dget (wr_members r) instance_id of
        None \<Rightarrow> (r, False)
      | Some identity \<Rightarrow>
          if jget report ''instance_epoch'' \<noteq> JStr (wi_instance_epoch identity) then (r, False)
          else if jget report ''complete'' \<noteq> JBool True then (r, False)
          else if \<not> (case jget report ''resources'' of JObj _ \<Rightarrow> True | _ \<Rightarrow> False) then (r, False)
          else if \<not> resource_report_schema_valid r report identity then (r, False)
          else case gateway_received_at now received_at of
            None \<Rightarrow> (r, False)
          | Some received \<Rightarrow>
              (let age_s = max 0 (now - received)
               in (r\<lparr>wr_resources := dput (wr_resources r) instance_id
                     \<lparr>rs_state = signal_state r age_s, rs_instance_epoch = Some (wi_instance_epoch identity),
                      rs_received_at = Some received, rs_report = Some report, rs_age_s = Some age_s\<rparr>\<rparr>, True)))"

definition resource_report_failed :: "worker_registry \<Rightarrow> string \<Rightarrow> worker_registry" where
  "resource_report_failed r instance_id = r"

definition observe_unreachable :: "worker_registry \<Rightarrow> string \<Rightarrow> worker_registry" where
  "observe_unreachable r instance_id = r"

definition unknown_signal :: resource_signal where
  "unknown_signal = \<lparr>rs_state = UNKNOWN, rs_instance_epoch = None, rs_received_at = None,
     rs_report = None, rs_age_s = None\<rparr>"

definition resource_signal_of :: "worker_registry \<Rightarrow> time \<Rightarrow> string \<Rightarrow> resource_signal" where
  "resource_signal_of r now instance_id =
     (case dget (wr_resources r) instance_id of
        None \<Rightarrow> unknown_signal
      | Some signal \<Rightarrow>
          (case rs_received_at signal of
             None \<Rightarrow> unknown_signal
           | Some received \<Rightarrow>
               (let age = max 0 (now - received)
                in \<lparr>rs_state = signal_state r age, rs_instance_epoch = rs_instance_epoch signal,
                    rs_received_at = Some received, rs_report = rs_report signal, rs_age_s = Some age\<rparr>)))"

subsection \<open>Admission\<close>

text \<open>\<open>can_send\<close>, \<open>can_route\<close> and \<open>can_govern\<close> are other names of \<open>can_admit\<close>.\<close>

definition can_admit :: "worker_registry \<Rightarrow> time \<Rightarrow> string \<Rightarrow> bool" where
  "can_admit r now instance_id \<longleftrightarrow>
     wr_state r = READY \<and> rs_state (resource_signal_of r now instance_id) = FRESH"

definition world_fresh :: "worker_registry \<Rightarrow> time \<Rightarrow> bool" where
  "world_fresh r now \<longleftrightarrow>
     wr_state r = READY \<and>
     set (dkeys (wr_members r)) = set (dkeys EXPECTED_MEMBERS) \<and>
     (\<forall>i \<in> set (dkeys EXPECTED_MEMBERS). can_admit r now i)"

definition can_reconcile_finalize :: "worker_registry \<Rightarrow> time \<Rightarrow> string \<Rightarrow> bool" where
  "can_reconcile_finalize r now instance_id = can_admit r now instance_id"


subsection \<open>Facts about worlds\<close>

lemmas registry_defs = registry_fail_def install_world_def observe_identity_def
  observe_capabilities_def update_resource_report_def

lemma wf_dict_by [simp]: "wf_dict (dict_by key xs)"
proof -
  have "wf_dict d \<Longrightarrow> wf_dict (foldl (\<lambda>d x. dput d (key x) x) d xs)" for d
    by (induction xs arbitrary: d) auto
  then show ?thesis by (simp add: dict_by_def)
qed

lemma dict_by_key:
  assumes "dget (dict_by key xs) k = Some x"
  shows "key x = k" "x \<in> set xs"
proof -
  have "dget (foldl (\<lambda>d x. dput d (key x) x) d xs) k = Some x \<Longrightarrow>
      dget d k = Some x \<or> (key x = k \<and> x \<in> set xs)" for d
  proof (induction xs arbitrary: d)
    case (Cons y ys)
    from Cons.IH [of "dput d (key y) y"] Cons.prems show ?case
      by (auto simp: dict_simps split: if_splits)
  qed simp
  from this [of "[]"] assms show "key x = k" "x \<in> set xs" by (auto simp: dict_by_def)
qed

lemma admit_capability_cong:
  "wr_require_gpudirect_rdma r' = wr_require_gpudirect_rdma r \<Longrightarrow>
   admit_capability r' c ms = admit_capability r c ms"
  by (simp add: admit_capability_def)

lemma world_valid_update [simp]:
  "world_valid (wr_state_update f r) ms cs = world_valid r ms cs"
  "world_valid (wr_members_update g r) ms cs = world_valid r ms cs"
  "world_valid (wr_capabilities_update h r) ms cs = world_valid r ms cs"
  "world_valid (wr_resources_update k r) ms cs = world_valid r ms cs"
  by (simp_all add: world_valid_def admit_capability_def)

lemma schema_valid_update [simp]:
  "resource_report_schema_valid (wr_state_update f r) rep w = resource_report_schema_valid r rep w"
  "resource_report_schema_valid (wr_members_update g r) rep w = resource_report_schema_valid r rep w"
  "resource_report_schema_valid (wr_capabilities_update h r) rep w = resource_report_schema_valid r rep w"
  "resource_report_schema_valid (wr_resources_update k r) rep w = resource_report_schema_valid r rep w"
  by (simp_all add: resource_report_schema_valid_def model_profile_valid_def)

lemma world_valid_member:
  assumes "world_valid r ms cs" "dget ms i = Some w"
  shows "dget EXPECTED_MEMBERS i = Some (wi_role w, wi_global_rank w)"
    "wi_topology_generation w = wr_expected_topology_generation r"
    "wi_kv_compatibility_id w \<noteq> []"
proof -
  from assms(2) have p: "(i, w) \<in> set ms" by (rule map_of_SomeD)
  from assms(1) p show "dget EXPECTED_MEMBERS i = Some (wi_role w, wi_global_rank w)"
    by (fastforce simp: world_valid_def Let_def)
  from assms(1) have gen: "set (map wi_topology_generation (dvals ms)) = {wr_expected_topology_generation r}"
    and kv: "[] \<notin> set (map wi_kv_compatibility_id (dvals ms))"
    by (simp_all add: world_valid_def Let_def)
  from p have w: "w \<in> set (dvals ms)" by force
  from w gen show "wi_topology_generation w = wr_expected_topology_generation r" by auto
  from w kv show "wi_kv_compatibility_id w \<noteq> []" by (metis image_eqI list.set_map)
qed

lemma world_valid_same_kv:
  assumes "world_valid r ms cs" "dget ms i = Some w" "dget ms j = Some v"
  shows "wi_kv_compatibility_id w = wi_kv_compatibility_id v"
proof -
  from assms(1) have "card (wi_kv_compatibility_id ` set (dvals ms)) = 1"
    by (simp add: world_valid_def Let_def length_remdups_card_conv image_image)
  then obtain k where "wi_kv_compatibility_id ` set (dvals ms) = {k}" by (auto simp: card_1_singleton_iff)
  moreover have "w \<in> set (dvals ms)" "v \<in> set (dvals ms)"
    using assms(2,3) by (force dest: map_of_SomeD)+
  ultimately show ?thesis by (metis imageI singletonD)
qed

lemma world_valid_distinct_pods:
  assumes "world_valid r ms cs" "wf_dict ms" "dget ms i = Some w" "dget ms j = Some v" "i \<noteq> j"
  shows "wi_pod_uid w \<noteq> wi_pod_uid v"
proof -
  from assms(1) have k: "set (dkeys ms) = set (dkeys EXPECTED_MEMBERS)"
    and c: "card (wi_pod_uid ` set (dvals ms)) = 4"
    by (simp_all add: world_valid_def Let_def length_remdups_card_conv image_image)
  have "length ms = card (set (dkeys ms))" using assms(2) by (metis distinct_card length_map)
  also have "\<dots> = 4" unfolding k by (simp add: EXPECTED_MEMBERS_def)
  finally have len: "length ms = 4" .
  have "distinct (map (wi_pod_uid \<circ> snd) ms)"
    using c len by (intro card_distinct) (simp add: image_comp)
  moreover from assms(3,4) have "(i, w) \<in> set ms" "(j, v) \<in> set ms" by (auto dest: map_of_SomeD)
  ultimately show ?thesis using assms(5) by (fastforce simp: distinct_map inj_on_def)
qed

lemma world_valid_pair:
  assumes "world_valid r ms cs" "dget cs pair = Some c"
  shows "\<exists>s t ws wt. split_pair (pc_pair_id c) = Some (s, t) \<and> dget ms s = Some ws \<and> dget ms t = Some wt \<and>
    pc_source_epoch c = wi_instance_epoch ws \<and> pc_target_epoch c = wi_instance_epoch wt \<and>
    pc_probe_passed c \<and> (wr_require_gpudirect_rdma r \<longrightarrow> pc_transport c = ''NCCL_GDR'')"
proof -
  from assms(2) have "(pair, c) \<in> set cs" by (rule map_of_SomeD)
  with assms(1) have "admit_capability r c ms = Some True" by (force simp: world_valid_def Let_def)
  then show ?thesis
    by (auto simp: admit_capability_def split: if_splits option.splits prod.splits)
qed

subsection \<open>The invariant of the registry\<close>

text \<open>What a stored signal promises about its member.\<close>

definition signal_ok :: "worker_registry \<Rightarrow> string \<Rightarrow> resource_signal \<Rightarrow> bool" where
  "signal_ok r i sig \<longleftrightarrow>
     (\<exists>w rep at_s. dget (wr_members r) i = Some w \<and> rs_instance_epoch sig = Some (wi_instance_epoch w) \<and>
        rs_report sig = Some rep \<and> rs_received_at sig = Some at_s \<and>
        jget rep ''instance_epoch'' = JStr (wi_instance_epoch w) \<and> jget rep ''complete'' = JBool True \<and>
        resource_report_schema_valid r rep w)"

definition registry_inv :: "worker_registry \<Rightarrow> bool" where
  "registry_inv r \<longleftrightarrow>
     wf_dict (wr_members r) \<and> wf_dict (wr_capabilities r) \<and> wf_dict (wr_resources r) \<and>
     (wr_state r = READY \<longrightarrow> world_valid r (wr_members r) (wr_capabilities r)) \<and>
     (\<forall>i w. dget (wr_members r) i = Some w \<longrightarrow> wi_instance_id w = i) \<and>
     (\<forall>i sig. dget (wr_resources r) i = Some sig \<longrightarrow> signal_ok r i sig)"

datatype registry_op =
  InstallWorld "worker_identity list" "pair_capability list"
| ObserveIdentity worker_identity
| ObserveCapabilities "pair_capability list"
| UpdateReport time string jobj "json option"
| ReportFailed string
| ObserveUnreachable string

fun registry_exec :: "worker_registry \<Rightarrow> registry_op \<Rightarrow> worker_registry" where
  "registry_exec r (InstallWorld ids caps) = fst (install_world r ids caps)"
| "registry_exec r (ObserveIdentity w) = fst (observe_identity r w)"
| "registry_exec r (ObserveCapabilities cs) = fst (observe_capabilities r cs)"
| "registry_exec r (UpdateReport now i rep received) = fst (update_resource_report r now i rep received)"
| "registry_exec r (ReportFailed i) = resource_report_failed r i"
| "registry_exec r (ObserveUnreachable i) = observe_unreachable r i"

lemma registry_fail_inv [inv_intros]: "registry_inv r \<Longrightarrow> registry_inv (registry_fail r)"
  by (simp add: registry_inv_def registry_fail_def)

lemma install_world_inv [inv_intros]: "registry_inv r \<Longrightarrow> registry_inv (fst (install_world r ids caps))"
  by (auto simp: install_world_def Let_def registry_inv_def dest: dict_by_key intro: registry_fail_inv
      simp: registry_fail_def)

lemma signal_ok_resources [simp]: "signal_ok (wr_resources_update f r) i sig = signal_ok r i sig"
  by (simp add: signal_ok_def)

lemma update_resource_report_cases:
  assumes "update_resource_report r now i rep received = (r', b)"
  shows "(r' = r \<and> \<not> b) \<or> (\<exists>sig. r' = r\<lparr>wr_resources := dput (wr_resources r) i sig\<rparr> \<and> b \<and> signal_ok r i sig)"
  using assms unfolding update_resource_report_def signal_ok_def
  by (force simp: Let_def split: option.splits if_splits)

lemma update_resource_report_inv [inv_intros]:
  assumes "registry_inv r"
  shows "registry_inv (fst (update_resource_report r now i rep received))"
  using assms update_resource_report_cases [of r now i rep received]
  by (cases "update_resource_report r now i rep received") (auto simp: registry_inv_def dict_simps split: if_splits)

lemma observe_inv [inv_intros]:
  "registry_inv r \<Longrightarrow> registry_inv (fst (observe_identity r w))"
  "registry_inv r \<Longrightarrow> registry_inv (fst (observe_capabilities r cs))"
  by (auto simp: observe_identity_def observe_capabilities_def intro: registry_fail_inv split: option.splits)

interpretation registry_ops: op_system registry_exec "\<lambda>_ _. True" registry_inv
proof unfold_locales
  fix r x
  assume "registry_inv r"
  then show "registry_inv (registry_exec r x)"
    by (cases x) (auto intro: inv_intros simp: resource_report_failed_def observe_unreachable_def)
qed

lemma registry_init_inv: "registry_init g k m rdma stale = Inr r \<Longrightarrow> registry_inv r"
  by (auto simp: registry_init_def registry_inv_def split: if_splits)

subsection \<open>A failed world stays closed\<close>

fun installs :: "registry_op \<Rightarrow> bool" where
  "installs (InstallWorld _ _) = True"
| "installs _ = False"

lemma exec_stays_failed:
  "wr_state r \<noteq> READY \<Longrightarrow> \<not> installs x \<Longrightarrow> wr_state (registry_exec r x) \<noteq> READY"
  by (cases x)
    (auto simp: observe_identity_def observe_capabilities_def registry_fail_def
        resource_report_failed_def observe_unreachable_def update_resource_report_def Let_def
      split: option.splits)

lemma foldl_stays_failed:
  "wr_state r \<noteq> READY \<Longrightarrow> \<not> (\<exists>x \<in> set xs. installs x) \<Longrightarrow> wr_state (foldl registry_exec r xs) \<noteq> READY"
  by (induction xs arbitrary: r) (auto simp: exec_stays_failed)

lemma schema_conservation:
  assumes "resource_report_schema_valid r rep w" "dhas rep ''num_gpu_blocks''"
  obtains num free buckets where "jget rep ''num_gpu_blocks'' = JInt num" "jget rep ''free_blocks'' = JInt free"
    "jget rep ''block_buckets'' = JObj buckets" "0 \<le> free" "jget buckets ''free'' = JInt free"
    "sum_list (map (\<lambda>v. case strict_int v of None \<Rightarrow> 0 | Some n \<Rightarrow> n) (dvals buckets)) = num"
    "free \<le> num"
proof -
  have si: "strict_int v = Some n \<longleftrightarrow> v = JInt n" for v n by (cases v) auto
  from assms obtain num free buckets where b: "jget rep ''num_gpu_blocks'' = JInt num"
    "jget rep ''free_blocks'' = JInt free" "jget rep ''block_buckets'' = JObj buckets"
    "0 \<le> free" "jget buckets ''free'' = JInt free"
    "sum_list (map (\<lambda>v. case strict_int v of None \<Rightarrow> 0 | Some n \<Rightarrow> n) (dvals buckets)) = num"
    and nn: "\<forall>v \<in> set (dvals buckets). \<exists>n. v = JInt n \<and> \<not> n < 0"
    by (auto simp: resource_report_schema_valid_def block_fields_def si
        split: if_splits option.splits json.splits)
  from b(5) have "JInt free \<in> set (dvals buckets)"
    by (force simp: jget_def dget_or_def split: option.splits dest: map_of_SomeD)
  then have "free \<in> set (map (\<lambda>v. case strict_int v of None \<Rightarrow> 0 | Some n \<Rightarrow> n) (dvals buckets))"
    by (force simp: image_iff)
  moreover have "\<forall>n \<in> set (map (\<lambda>v. case strict_int v of None \<Rightarrow> 0 | Some n \<Rightarrow> n) (dvals buckets)). 0 \<le> n"
    using nn by force
  ultimately have "free \<le> num"
    unfolding b(6) [symmetric] by (intro member_le_sum_list_int) blast+
  with b show thesis by (rule that)
qed

lemma can_admit_signal:
  assumes "registry_inv r" "can_admit r now i"
  obtains sig received where "dget (wr_resources r) i = Some sig" "rs_received_at sig = Some received"
    "signal_ok r i sig" "max 0 (now - received) \<le> wr_resource_report_stale_after_s r" "wr_state r = READY"
  using assms
  by (auto simp: can_admit_def resource_signal_of_def registry_inv_def signal_state_def Let_def unknown_signal_def
      split: option.splits if_splits)

subsection \<open>Properties\<close>


definition sample_worker :: "string \<Rightarrow> string \<Rightarrow> int \<Rightarrow> worker_identity" where
  "sample_worker i role rank = \<lparr>wi_instance_id = i, wi_role = role, wi_topology_generation = ''g'',
     wi_pod_uid = ''pod-'' @ i, wi_process_generation = ''1'', wi_rpc_endpoint = ''http'', wi_global_rank = rank,
     wi_topology_digest = ''t'', wi_kv_compatibility_id = ''kv''\<rparr>"

definition sample_pair :: "string \<Rightarrow> string \<Rightarrow> pair_capability" where
  "sample_pair a b = \<lparr>pc_pair_id = a @ ''--'' @ b, pc_source_epoch = ''pod-'' @ a @ '':1'',
     pc_target_epoch = ''pod-'' @ b @ '':1'', pc_transport = ''NCCL_GDR'', pc_probe_generation = ''1'',
     pc_probe_passed = True, pc_evidence_path = ''e''\<rparr>"

definition sample_members :: "worker_identity list" where
  "sample_members = [sample_worker ''p0'' ''prefill'' 0, sample_worker ''p1'' ''prefill'' 1,
     sample_worker ''d0'' ''decode'' 2, sample_worker ''d1'' ''decode'' 3]"

definition sample_pairs :: "pair_capability list" where
  "sample_pairs = [sample_pair ''p0'' ''d0'', sample_pair ''p0'' ''d1'', sample_pair ''p1'' ''d0'',
     sample_pair ''p1'' ''d1'', sample_pair ''d0'' ''d1'']"

definition sample_report :: jobj where
  "sample_report = [(''instance_epoch'', JStr ''pod-d0:1''), (''complete'', JBool True), (''resources'', JObj [])]"

definition sample_registry :: worker_registry where
  "sample_registry = \<lparr>wr_expected_topology_generation = ''g'', wr_expected_kv_compatibility_id = None,
     wr_expected_model_profile = None, wr_require_gpudirect_rdma = True, wr_resource_report_stale_after_s = 2,
     wr_state = STARTING, wr_members = [], wr_capabilities = [], wr_resources = []\<rparr>"

lemma sample_registry_init: "registry_init ''g'' None None True 2 = Inr sample_registry"
  by (simp add: registry_init_def sample_registry_def)

lemma sample_worker_fields [simp]:
  "wi_instance_id (sample_worker i role rank) = i" "wi_role (sample_worker i role rank) = role"
  "wi_topology_generation (sample_worker i role rank) = ''g''" "wi_pod_uid (sample_worker i role rank) = ''pod-'' @ i"
  "wi_global_rank (sample_worker i role rank) = rank" "wi_topology_digest (sample_worker i role rank) = ''t''"
  "wi_kv_compatibility_id (sample_worker i role rank) = ''kv''"
  "wi_instance_epoch (sample_worker i role rank) = ''pod-'' @ i @ '':1''"
  by (simp_all add: sample_worker_def wi_instance_epoch_def)

lemma sample_pair_fields [simp]:
  "pc_pair_id (sample_pair a b) = a @ ''--'' @ b" "pc_source_epoch (sample_pair a b) = ''pod-'' @ a @ '':1''"
  "pc_target_epoch (sample_pair a b) = ''pod-'' @ b @ '':1''" "pc_transport (sample_pair a b) = ''NCCL_GDR''"
  "pc_probe_generation (sample_pair a b) = ''1''" "pc_probe_passed (sample_pair a b)"
  by (simp_all add: sample_pair_def)

lemma sample_dicts:
  "dict_by wi_instance_id sample_members =
     [(''p0'', sample_worker ''p0'' ''prefill'' 0), (''p1'', sample_worker ''p1'' ''prefill'' 1),
      (''d0'', sample_worker ''d0'' ''decode'' 2), (''d1'', sample_worker ''d1'' ''decode'' 3)]"
  "dict_by pc_pair_id sample_pairs =
     [(''p0--d0'', sample_pair ''p0'' ''d0''), (''p0--d1'', sample_pair ''p0'' ''d1''),
      (''p1--d0'', sample_pair ''p1'' ''d0''), (''p1--d1'', sample_pair ''p1'' ''d1''),
      (''d0--d1'', sample_pair ''d0'' ''d1'')]"
  by (simp_all add: dict_by_def sample_members_def sample_pairs_def)

lemma sample_installs: "install_world sample_registry sample_members sample_pairs =
  (sample_registry\<lparr>wr_members := dict_by wi_instance_id sample_members,
     wr_capabilities := dict_by pc_pair_id sample_pairs, wr_state := READY\<rparr>, True)"
proof -
  have c: "wr_require_gpudirect_rdma sample_registry" "wr_expected_topology_generation sample_registry = ''g''"
    "wr_expected_kv_compatibility_id sample_registry = None" by (simp_all add: sample_registry_def)
  have "world_valid sample_registry (dict_by wi_instance_id sample_members) (dict_by pc_pair_id sample_pairs)"
    unfolding sample_dicts world_valid_def
    by (simp add: c EXPECTED_MEMBERS_def EXPECTED_PAIRS_def admit_capability_def insert_commute)
  then show ?thesis by (simp add: install_world_def Let_def sample_registry_def)
qed

lemma sample_admits:
  "can_admit (foldl registry_exec sample_registry
     [InstallWorld sample_members sample_pairs, UpdateReport 5 ''d0'' sample_report None]) 6 ''d0''"
proof -
  let ?r = "fst (install_world sample_registry sample_members sample_pairs)"
  have d0: "dget (wr_members ?r) ''d0'' = Some (sample_worker ''d0'' ''decode'' 2)" "wr_state ?r = READY"
    "wr_expected_model_profile ?r = None" "wr_resource_report_stale_after_s ?r = 2"
    by (simp_all add: sample_installs sample_dicts) (simp_all add: sample_registry_def)
  show ?thesis
    by (simp add: can_admit_def resource_signal_of_def update_resource_report_def d0 sample_report_def jget_def
        dget_or_def resource_report_schema_valid_def model_profile_valid_def block_fields_def
        gateway_received_at_def signal_state_def Let_def dict_simps)
qed


text \<open>
  C5.  A world that failed stays closed: after a rejected installation or an observation that differs
  from the installed world, no instance is admitted and the world is not fresh, whatever reports and
  observations follow, until a complete world is installed again.
\<close>

theorem failed_world_stays_closed:
  assumes "install_world r ids caps = (r', False) \<or> observe_identity r w = (r', False) \<or>
      observe_capabilities r cs = (r', False)"
    and "\<not> (\<exists>x \<in> set ops. installs x)"
  shows "\<not> can_admit (foldl registry_exec r' ops) now i \<and> \<not> world_fresh (foldl registry_exec r' ops) now"
proof -
  have "wr_state r' \<noteq> READY"
    using assms(1) by (auto simp: install_world_def observe_identity_def observe_capabilities_def
        registry_fail_def Let_def split: option.splits if_splits)
  from foldl_stays_failed [OF this assms(2)] show ?thesis by (simp add: can_admit_def world_fresh_def)
qed

theorem failed_world_stays_closed_witness:
  "\<not> can_admit (foldl registry_exec (fst (observe_identity (fst (install_world sample_registry sample_members sample_pairs))
       (sample_worker ''p9'' ''prefill'' 0))) [UpdateReport 5 ''d0'' sample_report None]) 6 ''d0''"
proof -
  let ?r = "fst (install_world sample_registry sample_members sample_pairs)"
  have "observe_identity ?r (sample_worker ''p9'' ''prefill'' 0) =
      (fst (observe_identity ?r (sample_worker ''p9'' ''prefill'' 0)), False)"
    by (simp add: sample_installs observe_identity_def sample_dicts)
  then show ?thesis using failed_world_stays_closed [of ?r _ _ _ "sample_worker ''p9'' ''prefill'' 0" _
      "[UpdateReport 5 ''d0'' sample_report None]"] by simp
qed

text \<open>
  C19.  An installed world is coherent: it has exactly the expected members and pairs, one KV
  compatibility id, four different pods, and every pair capability was probed between the current
  epochs of its two ends.
\<close>

theorem installed_world_coherent:
  assumes "install_world r ids caps = (r', True)"
  shows "set (dkeys (wr_members r')) = {''p0'', ''p1'', ''d0'', ''d1''} \<and>
    set (dkeys (wr_capabilities r')) = set EXPECTED_PAIRS \<and>
    (\<forall>i j w v. dget (wr_members r') i = Some w \<and> dget (wr_members r') j = Some v \<longrightarrow>
       wi_kv_compatibility_id w = wi_kv_compatibility_id v \<and> (i \<noteq> j \<longrightarrow> wi_pod_uid w \<noteq> wi_pod_uid v)) \<and>
    (\<forall>p c. dget (wr_capabilities r') p = Some c \<longrightarrow> pc_probe_passed c \<and>
       (\<exists>a b wa wb. split_pair p = Some (a, b) \<and> dget (wr_members r') a = Some wa \<and> dget (wr_members r') b = Some wb \<and>
          pc_source_epoch c = wi_instance_epoch wa \<and> pc_target_epoch c = wi_instance_epoch wb))"
proof -
  let ?ms = "dict_by wi_instance_id ids" and ?cs = "dict_by pc_pair_id caps"
  have v: "world_valid r ?ms ?cs" and r': "wr_members r' = ?ms" "wr_capabilities r' = ?cs"
    using assms by (auto simp: install_world_def Let_def split: if_splits)
  from v have keys: "set (dkeys ?ms) = {''p0'', ''p1'', ''d0'', ''d1''}" "set (dkeys ?cs) = set EXPECTED_PAIRS"
    by (simp_all add: world_valid_def EXPECTED_MEMBERS_def)
  have pair: "pc_probe_passed c \<and> (\<exists>a b wa wb. split_pair p = Some (a, b) \<and> dget ?ms a = Some wa \<and> dget ?ms b = Some wb \<and>
      pc_source_epoch c = wi_instance_epoch wa \<and> pc_target_epoch c = wi_instance_epoch wb)"
    if "dget ?cs p = Some c" for p c
    using world_valid_pair [OF v that, unfolded dict_by_key(1) [OF that]] by blast
  have same: "wi_kv_compatibility_id w = wi_kv_compatibility_id u \<and> (i \<noteq> j \<longrightarrow> wi_pod_uid w \<noteq> wi_pod_uid u)"
    if "dget ?ms i = Some w \<and> dget ?ms j = Some u" for i j w u
    using that world_valid_same_kv [OF v] world_valid_distinct_pods [OF v wf_dict_by] by auto
  show ?thesis unfolding r' using keys pair same by simp
qed

theorem installed_world_coherent_witness:
  "set (dkeys (wr_members (fst (install_world sample_registry sample_members sample_pairs)))) = {''p0'', ''p1'', ''d0'', ''d1''}"
  using conjunct1 [OF installed_world_coherent [OF sample_installs]] sample_installs by simp

end
