(* ===== verification/PD_Scheduler.thy ===== *)
theory PD_Scheduler
  imports Prism_Prelude
begin

text \<open>
  \<^verbatim>\<open>prism_serve/scheduler/scheduler.py\<close>: which prefill instance takes a request, which decode
  instance receives its KV cache, the leases on decode slots, and the quarantine of instances whose
  capacity is no longer trusted.  The worker registry is an optional collaborator: its verdict on an
  instance is the argument \<open>registry\<close> (\<open>None\<close> when the scheduler has no registry).  Tokens drawn from
  \<open>secrets\<close> are arguments, and one reading of the clock serves a whole operation.
\<close>

type_synonym uncertain_op = "string \<times> string \<times> string \<times> string"

record quarantine_record =
  qr_instance_id :: string
  qr_instance_epoch :: string
  qr_role :: string
  qr_reconciliation_token :: string
  qr_quarantined_at :: time
  qr_uncertain_transfer_operations :: "uncertain_op list"
  qr_uncertain_dispatch_commands :: "uncertain_op list"

record kv_usage_sample =
  ku_ratio :: real
  ku_instance_epoch :: string
  ku_sampled_at :: time

datatype lease_state = RESERVED | ACTIVE | QUARANTINED | RELEASED

record decode_slot_lease =
  ls_lease_id :: string
  ls_operation_id :: string
  ls_req_id :: string
  ls_instance_id :: string
  ls_state :: lease_state
  ls_reserved_at :: time
  ls_release_cleanup_id :: "string option"

datatype sched_error =
  QuarantinedInstanceError quarantine_record
| SchedValueError string
| SchedAssertionError
| SchedKeyError string
| SchedZeroDivisionError

text \<open>The configuration keys the scheduler reads, with their defaults.\<close>

record pd_config =
  cf_kv_usage_stale_after_s :: real
  cf_HIGH_WATERMARK :: real
  cf_kv_per_instance_bytes :: int
  cf_min_decode_instances :: int
  cf_max_decode_instances :: int

definition pd_config_default :: pd_config where
  "pd_config_default = \<lparr>cf_kv_usage_stale_after_s = 10, cf_HIGH_WATERMARK = 85 / 100,
     cf_kv_per_instance_bytes = 56 * 1024 ^ 3, cf_min_decode_instances = 1, cf_max_decode_instances = 64\<rparr>"

record pd_scheduler =
  pd_config_of :: pd_config
  pd_prefill_load :: "(string, int) dict"
  pd_decode_free_slots :: "(string, int) dict"
  pd_decode_max_slots :: "(string, int) dict"
  pd_slot_leases :: "(string, decode_slot_lease) dict"
  pd_kv_usage :: "(string, kv_usage_sample) dict"
  pd_instance_epochs :: "(string, string) dict"
  pd_instance_roles :: "(string, string) dict"
  pd_quarantined :: "(string, quarantine_record) dict"

definition scheduler_init :: "pd_config \<Rightarrow> pd_scheduler" where
  "scheduler_init config = \<lparr>pd_config_of = config, pd_prefill_load = [], pd_decode_free_slots = [],
     pd_decode_max_slots = [], pd_slot_leases = [], pd_kv_usage = [], pd_instance_epochs = [],
     pd_instance_roles = [], pd_quarantined = []\<rparr>"

subsection \<open>Registration and quarantine\<close>

definition register_instance ::
  "pd_scheduler \<Rightarrow> string \<Rightarrow> string \<Rightarrow> int \<Rightarrow> string \<Rightarrow> string list \<Rightarrow> sched_error + pd_scheduler" where
  "register_instance s instance_id role max_slots instance_epoch active_request_ids =
     (case dget (pd_quarantined s) instance_id of
        Some record \<Rightarrow> Inl (QuarantinedInstanceError record)
      | None \<Rightarrow>
          if active_request_ids \<noteq> [] then Inl (SchedValueError ''instance still owns active requests'')
          else let epoch = (if instance_epoch \<noteq> [] then instance_epoch else ''legacy:'' @ instance_id)
            in case dget (pd_instance_epochs s) instance_id of
                 Some existing_epoch \<Rightarrow>
                   if existing_epoch \<noteq> epoch
                   then Inl (SchedValueError ''instance epoch changed without reconciliation'') else Inr s
               | None \<Rightarrow>
                   (let known = s\<lparr>pd_instance_epochs := dput (pd_instance_epochs s) instance_id epoch,
                                  pd_instance_roles := dput (pd_instance_roles s) instance_id role\<rparr>
                    in if role = ''prefill''
                       then Inr (known\<lparr>pd_prefill_load := dput (pd_prefill_load s) instance_id 0\<rparr>)
                       else if role = ''decode''
                       then if \<not> max_slots > 0 then Inl SchedAssertionError
                            else Inr (known\<lparr>
                              pd_decode_free_slots := dput (pd_decode_free_slots s) instance_id max_slots,
                              pd_decode_max_slots := dput (pd_decode_max_slots s) instance_id max_slots\<rparr>)
                       else Inl (SchedValueError ''unknown role'')))"

definition deregister_instance :: "pd_scheduler \<Rightarrow> string \<Rightarrow> pd_scheduler" where
  "deregister_instance s instance_id =
     s\<lparr>pd_prefill_load := dpop (pd_prefill_load s) instance_id,
       pd_decode_free_slots := dpop (pd_decode_free_slots s) instance_id,
       pd_decode_max_slots := dpop (pd_decode_max_slots s) instance_id,
       pd_kv_usage := dpop (pd_kv_usage s) instance_id,
       pd_instance_epochs := dpop (pd_instance_epochs s) instance_id,
       pd_instance_roles := dpop (pd_instance_roles s) instance_id\<rparr>"

definition known_op :: "uncertain_op option \<Rightarrow> uncertain_op list \<Rightarrow> bool" where
  "known_op u ops = (case u of None \<Rightarrow> True | Some x \<Rightarrow> x \<in> set ops)"

definition quarantine_instance ::
  "pd_scheduler \<Rightarrow> string \<Rightarrow> uncertain_op option \<Rightarrow> uncertain_op option \<Rightarrow> string \<Rightarrow> time \<Rightarrow>
   pd_scheduler \<times> quarantine_record" where
  "quarantine_instance s instance_id uncertain_transfer uncertain_dispatch token now =
     (case dget (pd_quarantined s) instance_id of
        Some existing \<Rightarrow>
          (let transfer_known = known_op uncertain_transfer (qr_uncertain_transfer_operations existing);
               dispatch_known = known_op uncertain_dispatch (qr_uncertain_dispatch_commands existing)
           in if transfer_known \<and> dispatch_known then (s, existing)
              else let record = existing\<lparr>
                     qr_uncertain_transfer_operations := qr_uncertain_transfer_operations existing @
                       (if \<not> transfer_known then set_option_list uncertain_transfer else []),
                     qr_uncertain_dispatch_commands := qr_uncertain_dispatch_commands existing @
                       (if \<not> dispatch_known then set_option_list uncertain_dispatch else [])\<rparr>
                in (s\<lparr>pd_quarantined := dput (pd_quarantined s) instance_id record\<rparr>, record))
      | None \<Rightarrow>
          (let record = \<lparr>qr_instance_id = instance_id,
                 qr_instance_epoch = dget_or (pd_instance_epochs s) instance_id ''unknown'',
                 qr_role = dget_or (pd_instance_roles s) instance_id ''unknown'',
                 qr_reconciliation_token = token, qr_quarantined_at = now,
                 qr_uncertain_transfer_operations = set_option_list uncertain_transfer,
                 qr_uncertain_dispatch_commands = set_option_list uncertain_dispatch\<rparr>
           in (s\<lparr>pd_prefill_load := dpop (pd_prefill_load s) instance_id,
                 pd_decode_free_slots := dpop (pd_decode_free_slots s) instance_id,
                 pd_decode_max_slots := dpop (pd_decode_max_slots s) instance_id,
                 pd_kv_usage := dpop (pd_kv_usage s) instance_id,
                 pd_quarantined := dput (pd_quarantined s) instance_id record\<rparr>, record)))"

definition reconcile_instance ::
  "pd_scheduler \<Rightarrow> string \<Rightarrow> string \<Rightarrow> string \<Rightarrow> string \<Rightarrow> int \<Rightarrow> string list \<Rightarrow> string list \<Rightarrow> string list \<Rightarrow>
   sched_error + pd_scheduler" where
  "reconcile_instance s instance_id instance_epoch reconciliation_token role max_slots
     active_request_ids active_transfer_operation_ids pending_dispatch_command_ids =
     (case dget (pd_quarantined s) instance_id of
        None \<Rightarrow> Inl (SchedValueError ''instance is not quarantined'')
      | Some record \<Rightarrow>
          if reconciliation_token \<noteq> qr_reconciliation_token record
          then Inl (SchedValueError ''reconciliation token mismatch'')
          else if active_request_ids \<noteq> [] then Inl (SchedValueError ''instance still has active requests'')
          else if active_transfer_operation_ids \<noteq> []
          then Inl (SchedValueError ''instance still has active transfers'')
          else if pending_dispatch_command_ids \<noteq> []
          then Inl (SchedValueError ''instance still has pending dispatches'')
          else if instance_epoch = [] then Inl (SchedValueError ''instance_epoch must not be empty'')
          else if role \<notin> {''prefill'', ''decode''} then Inl (SchedValueError ''unknown role'')
          else if qr_role record \<noteq> ''unknown'' \<and> role \<noteq> qr_role record
          then Inl (SchedValueError ''reconciliation role changed'')
          else if role = ''decode'' \<and> max_slots \<le> 0
          then Inl (SchedValueError ''decode instance must specify max_slots > 0'')
          else let restored = (if role = ''prefill''
                 then s\<lparr>pd_prefill_load := dput (pd_prefill_load s) instance_id 0\<rparr>
                 else s\<lparr>pd_decode_free_slots := dput (pd_decode_free_slots s) instance_id max_slots,
                        pd_decode_max_slots := dput (pd_decode_max_slots s) instance_id max_slots\<rparr>)
            in Inr (restored\<lparr>pd_instance_epochs := dput (pd_instance_epochs s) instance_id instance_epoch,
                             pd_instance_roles := dput (pd_instance_roles s) instance_id role,
                             pd_quarantined := dpop (pd_quarantined s) instance_id\<rparr>))"

subsection \<open>Selection\<close>

definition registry_allows :: "(string \<Rightarrow> bool) option \<Rightarrow> string \<Rightarrow> bool" where
  "registry_allows registry instance_id = (case registry of None \<Rightarrow> True | Some can_route \<Rightarrow> can_route instance_id)"

definition admission_ready :: "bool option \<Rightarrow> bool" where
  "admission_ready registry_world_fresh = (case registry_world_fresh of None \<Rightarrow> True | Some fresh \<Rightarrow> fresh)"

definition sample_is_fresh :: "pd_scheduler \<Rightarrow> time \<Rightarrow> string \<Rightarrow> bool" where
  "sample_is_fresh s now instance_id =
     (case dget (pd_kv_usage s) instance_id of
        None \<Rightarrow> False
      | Some sample \<Rightarrow>
          dget (pd_instance_epochs s) instance_id = Some (ku_instance_epoch sample) \<and>
          now - ku_sampled_at sample \<le> cf_kv_usage_stale_after_s (pd_config_of s))"

definition required_ok :: "string option \<Rightarrow> string \<Rightarrow> bool" where
  "required_ok required_instance instance_id =
     (case required_instance of None \<Rightarrow> True | Some r \<Rightarrow> instance_id = r)"

definition prefill_candidates :: "pd_scheduler \<Rightarrow> (string \<Rightarrow> bool) option \<Rightarrow> string option \<Rightarrow> string list" where
  "prefill_candidates s registry required_instance =
     filter (\<lambda>i. registry_allows registry i \<and> required_ok required_instance i) (dkeys (pd_prefill_load s))"

definition pick_prefill_instance ::
  "pd_scheduler \<Rightarrow> (string \<Rightarrow> bool) option \<Rightarrow> string option \<Rightarrow> pd_scheduler \<times> string option" where
  "pick_prefill_instance s registry required_instance =
     (case min_by (\<lambda>k. dget_or (pd_prefill_load s) k 0) (prefill_candidates s registry required_instance) of
        None \<Rightarrow> (s, None)
      | Some best \<Rightarrow>
          (s\<lparr>pd_prefill_load := dput (pd_prefill_load s) best (dget_or (pd_prefill_load s) best 0 + 1)\<rparr>, Some best))"

definition decode_candidates ::
  "pd_scheduler \<Rightarrow> (string \<Rightarrow> bool) option \<Rightarrow> time \<Rightarrow> string option \<Rightarrow> (string \<times> int) list" where
  "decode_candidates s registry now required_instance =
     filter (\<lambda>(iid, slots).
       slots > 0 \<and> registry_allows registry iid \<and> sample_is_fresh s now iid \<and>
       (case dget (pd_kv_usage s) iid of None \<Rightarrow> False | Some u \<Rightarrow> ku_ratio u < cf_HIGH_WATERMARK (pd_config_of s)) \<and>
       required_ok required_instance iid) (pd_decode_free_slots s)"

definition pick_decode_instance ::
  "pd_scheduler \<Rightarrow> (string \<Rightarrow> bool) option \<Rightarrow> time \<Rightarrow> string option \<Rightarrow> pd_scheduler \<times> string option" where
  "pick_decode_instance s registry now required_instance =
     (case max_by snd (decode_candidates s registry now required_instance) of
        None \<Rightarrow> (s, None)
      | Some (best, _) \<Rightarrow>
          (s\<lparr>pd_decode_free_slots := dput (pd_decode_free_slots s) best (dget_or (pd_decode_free_slots s) best 0 - 1)\<rparr>,
           Some best))"

subsection \<open>Decode slot leases\<close>

definition reserve_decode_slot ::
  "pd_scheduler \<Rightarrow> (string \<Rightarrow> bool) option \<Rightarrow> string \<Rightarrow> string \<Rightarrow> string \<Rightarrow> string \<Rightarrow> time \<Rightarrow>
   sched_error + (pd_scheduler \<times> decode_slot_lease option)" where
  "reserve_decode_slot s registry instance_id req_id operation_id token now =
     (if operation_id = [] then Inl SchedAssertionError
      else case dget (pd_slot_leases s) operation_id of
        Some existing \<Rightarrow> Inr (s, if ls_state existing \<noteq> RELEASED then Some existing else None)
      | None \<Rightarrow>
          if \<not> registry_allows registry instance_id \<or> dget_or (pd_decode_free_slots s) instance_id 0 \<le> 0
          then Inr (s, None)
          else let lease = \<lparr>ls_lease_id = token, ls_operation_id = operation_id, ls_req_id = req_id,
                 ls_instance_id = instance_id, ls_state = RESERVED, ls_reserved_at = now,
                 ls_release_cleanup_id = None\<rparr>
            in Inr (s\<lparr>pd_decode_free_slots := dput (pd_decode_free_slots s) instance_id
                        (dget_or (pd_decode_free_slots s) instance_id 0 - 1),
                      pd_slot_leases := dput (pd_slot_leases s) operation_id lease\<rparr>, Some lease))"

definition adopt_picked_decode_slot ::
  "pd_scheduler \<Rightarrow> string \<Rightarrow> string \<Rightarrow> string \<Rightarrow> string \<Rightarrow> time \<Rightarrow>
   sched_error + (pd_scheduler \<times> decode_slot_lease)" where
  "adopt_picked_decode_slot s instance_id req_id operation_id token now =
     (if operation_id = [] then Inl SchedAssertionError
      else if dhas (pd_slot_leases s) operation_id
      then Inl (SchedValueError ''decode operation already has a slot lease'')
      else if \<not> dhas (pd_decode_free_slots s) instance_id then Inl (SchedValueError ''unknown decode instance'')
      else let lease = \<lparr>ls_lease_id = token, ls_operation_id = operation_id, ls_req_id = req_id,
             ls_instance_id = instance_id, ls_state = RESERVED, ls_reserved_at = now,
             ls_release_cleanup_id = None\<rparr>
        in Inr (s\<lparr>pd_slot_leases := dput (pd_slot_leases s) operation_id lease\<rparr>, lease))"

definition set_lease :: "pd_scheduler \<Rightarrow> string \<Rightarrow> decode_slot_lease \<Rightarrow> pd_scheduler" where
  "set_lease s operation_id lease = s\<lparr>pd_slot_leases := dput (pd_slot_leases s) operation_id lease\<rparr>"

definition commit_decode_slot :: "pd_scheduler \<Rightarrow> string \<Rightarrow> sched_error + pd_scheduler" where
  "commit_decode_slot s operation_id =
     (case dget (pd_slot_leases s) operation_id of
        None \<Rightarrow> Inl (SchedKeyError operation_id)
      | Some lease \<Rightarrow>
          Inr (if ls_state lease = RESERVED then set_lease s operation_id (lease\<lparr>ls_state := ACTIVE\<rparr>) else s))"

text \<open>
  The capacity part that the two release operations share.  The state is returned beside the result,
  because the lease has been marked before a missing maximum could raise.
\<close>

definition free_one_slot :: "pd_scheduler \<Rightarrow> string \<Rightarrow> (pd_scheduler, sched_error, bool) outcome" where
  "free_one_slot s instance_id =
     (case dget (pd_decode_free_slots s) instance_id of
        None \<Rightarrow> (s, Inr True)
      | Some free \<Rightarrow>
          (case dget (pd_decode_max_slots s) instance_id of
             None \<Rightarrow> (s, Inl (SchedKeyError instance_id))
           | Some maximum \<Rightarrow>
               (s\<lparr>pd_decode_free_slots := dput (pd_decode_free_slots s) instance_id (min maximum (free + 1))\<rparr>,
                Inr True)))"

definition release_decode_slot :: "pd_scheduler \<Rightarrow> string \<Rightarrow> (pd_scheduler, sched_error, bool) outcome" where
  "release_decode_slot s operation_id =
     (case dget (pd_slot_leases s) operation_id of
        None \<Rightarrow> (s, Inr False)
      | Some lease \<Rightarrow>
          if ls_state lease \<in> {RELEASED, QUARANTINED} then (s, Inr False)
          else if ls_state lease = ACTIVE then (s, Inl (SchedValueError ''cannot rollback an active decode slot''))
          else free_one_slot (set_lease s operation_id (lease\<lparr>ls_state := RELEASED\<rparr>)) (ls_instance_id lease))"

definition quarantine_decode_slot :: "pd_scheduler \<Rightarrow> string \<Rightarrow> sched_error + pd_scheduler" where
  "quarantine_decode_slot s operation_id =
     (case dget (pd_slot_leases s) operation_id of
        None \<Rightarrow> Inl (SchedKeyError operation_id)
      | Some lease \<Rightarrow>
          if ls_state lease = RELEASED then Inl (SchedValueError ''cannot quarantine a released decode slot'')
          else Inr (set_lease s operation_id (lease\<lparr>ls_state := QUARANTINED\<rparr>)))"

definition release_quarantined_decode_slot ::
  "pd_scheduler \<Rightarrow> string \<Rightarrow> string option \<Rightarrow> string option \<Rightarrow> (pd_scheduler, sched_error, bool) outcome" where
  "release_quarantined_decode_slot s operation_id lease_id cleanup_id =
     (case dget (pd_slot_leases s) operation_id of
        None \<Rightarrow> (s, Inr False)
      | Some lease \<Rightarrow>
          if lease_id \<noteq> None \<and> lease_id \<noteq> Some (ls_lease_id lease)
          then (s, Inl (SchedValueError ''decode slot lease id mismatch''))
          else if ls_state lease = RELEASED
          then if cleanup_id \<noteq> None \<and> ls_release_cleanup_id lease \<noteq> cleanup_id
               then (s, Inl (SchedValueError ''released slot replay changed cleanup id''))
               else (s, Inr False)
          else if ls_state lease \<noteq> QUARANTINED then (s, Inr False)
          else free_one_slot
                 (set_lease s operation_id (lease\<lparr>ls_state := RELEASED, ls_release_cleanup_id := cleanup_id\<rparr>))
                 (ls_instance_id lease))"

text \<open>Taking a slot back when a staged release is rolled back.\<close>

definition retake_slot :: "pd_scheduler \<Rightarrow> string \<Rightarrow> pd_scheduler" where
  "retake_slot s instance_id =
     (case dget (pd_decode_free_slots s) instance_id of
        None \<Rightarrow> s
      | Some free \<Rightarrow> s\<lparr>pd_decode_free_slots := dput (pd_decode_free_slots s) instance_id (max 0 (free - 1))\<rparr>)"

definition restore_quarantined_decode_slot ::
  "pd_scheduler \<Rightarrow> string \<Rightarrow> string \<Rightarrow> string \<Rightarrow> sched_error + pd_scheduler" where
  "restore_quarantined_decode_slot s operation_id lease_id cleanup_id =
     (case dget (pd_slot_leases s) operation_id of
        None \<Rightarrow> Inl (SchedKeyError operation_id)
      | Some lease \<Rightarrow>
          if ls_lease_id lease \<noteq> lease_id then Inl (SchedValueError ''decode slot lease id mismatch'')
          else if ls_state lease \<noteq> RELEASED \<or> ls_release_cleanup_id lease \<noteq> Some cleanup_id
          then Inl (SchedValueError ''decode slot was not released by this cleanup'')
          else Inr (retake_slot
                 (set_lease s operation_id (lease\<lparr>ls_state := QUARANTINED, ls_release_cleanup_id := None\<rparr>))
                 (ls_instance_id lease)))"

definition decode_slot_lease_of :: "pd_scheduler \<Rightarrow> string \<Rightarrow> decode_slot_lease option" where
  "decode_slot_lease_of s operation_id = dget (pd_slot_leases s) operation_id"

definition quarantined_decode_leases :: "pd_scheduler \<Rightarrow> decode_slot_lease list" where
  "quarantined_decode_leases s = filter (\<lambda>l. ls_state l = QUARANTINED) (dvals (pd_slot_leases s))"

definition replacement_decode_leases :: "pd_scheduler \<Rightarrow> decode_slot_lease list" where
  "replacement_decode_leases s =
     filter (\<lambda>l. ls_state l \<in> {RESERVED, ACTIVE, QUARANTINED}) (dvals (pd_slot_leases s))"

definition restore_replaced_decode_slot ::
  "pd_scheduler \<Rightarrow> string \<Rightarrow> string \<Rightarrow> string \<Rightarrow> lease_state \<Rightarrow> sched_error + pd_scheduler" where
  "restore_replaced_decode_slot s operation_id lease_id cleanup_id previous_state =
     (if previous_state \<notin> {RESERVED, ACTIVE, QUARANTINED}
      then Inl (SchedValueError ''invalid replacement lease state'')
      else case dget (pd_slot_leases s) operation_id of
        None \<Rightarrow> Inl (SchedKeyError operation_id)
      | Some lease \<Rightarrow>
          (let restored = set_lease s operation_id
                 (lease\<lparr>ls_state := previous_state, ls_release_cleanup_id := None\<rparr>)
           in if ls_lease_id lease \<noteq> lease_id then Inl (SchedValueError ''decode slot lease id mismatch'')
              else if ls_state lease = RELEASED
              then if ls_release_cleanup_id lease \<noteq> Some cleanup_id
                   then Inl (SchedValueError ''decode slot was not released by this cleanup'')
                   else Inr (retake_slot restored (ls_instance_id lease))
              else if ls_state lease \<noteq> QUARANTINED
              then Inl (SchedValueError ''replacement rollback requires quarantined/released slot'')
              else Inr restored))"

definition decode_slot_lease_counts :: "pd_scheduler \<Rightarrow> (lease_state, nat) dict" where
  "decode_slot_lease_counts s =
     foldl (\<lambda>counts lease. case dget counts (ls_state lease) of
        None \<Rightarrow> counts | Some n \<Rightarrow> dput counts (ls_state lease) (n + 1))
       [(RESERVED, 0), (ACTIVE, 0), (QUARANTINED, 0)] (dvals (pd_slot_leases s))"

subsection \<open>Feedback and capacity\<close>

definition epoch_matches :: "pd_scheduler \<Rightarrow> string \<Rightarrow> string \<Rightarrow> bool" where
  "epoch_matches s instance_id assigned_epoch \<longleftrightarrow>
     assigned_epoch \<noteq> [] \<and> dget (pd_instance_epochs s) instance_id = Some assigned_epoch"

definition stale_epoch :: "pd_scheduler \<Rightarrow> string \<Rightarrow> string option \<Rightarrow> bool" where
  "stale_epoch s instance_id assigned_epoch =
     (case assigned_epoch of None \<Rightarrow> False | Some e \<Rightarrow> \<not> epoch_matches s instance_id e)"

definition on_prefill_done :: "pd_scheduler \<Rightarrow> string \<Rightarrow> string option \<Rightarrow> pd_scheduler \<times> bool" where
  "on_prefill_done s instance_id assigned_epoch =
     (if stale_epoch s instance_id assigned_epoch then (s, False)
      else case dget (pd_prefill_load s) instance_id of
        Some load \<Rightarrow> (s\<lparr>pd_prefill_load := dput (pd_prefill_load s) instance_id (max 0 (load - 1))\<rparr>, True)
      | None \<Rightarrow> (s, False))"

text \<open>The capacity part of \<open>on_decode_finished\<close>: a full instance takes nothing back.\<close>

definition decode_finished_slot :: "pd_scheduler \<Rightarrow> string \<Rightarrow> (pd_scheduler, sched_error, bool) outcome" where
  "decode_finished_slot s instance_id =
     (case dget (pd_decode_free_slots s) instance_id of
        None \<Rightarrow> (s, Inr False)
      | Some free \<Rightarrow>
          (case dget (pd_decode_max_slots s) instance_id of
             None \<Rightarrow> (s, Inl (SchedKeyError instance_id))
           | Some maximum \<Rightarrow>
               if free \<ge> maximum then (s, Inr False)
               else (s\<lparr>pd_decode_free_slots := dput (pd_decode_free_slots s) instance_id (free + 1)\<rparr>, Inr True)))"

definition on_decode_finished ::
  "pd_scheduler \<Rightarrow> string \<Rightarrow> string option \<Rightarrow> string option \<Rightarrow> (pd_scheduler, sched_error, bool) outcome" where
  "on_decode_finished s instance_id assigned_epoch operation_id =
     (if stale_epoch s instance_id assigned_epoch then (s, Inr False)
      else if operation_id \<noteq> None \<and> operation_id \<noteq> Some [] then
        (case dget (pd_slot_leases s) (the operation_id) of
           None \<Rightarrow> (s, Inr False)
         | Some lease \<Rightarrow>
             if ls_instance_id lease \<noteq> instance_id \<or> ls_state lease \<in> {RELEASED, QUARANTINED} then (s, Inr False)
             else decode_finished_slot (set_lease s (the operation_id) (lease\<lparr>ls_state := RELEASED\<rparr>)) instance_id)
      else decode_finished_slot s instance_id)"

definition update_kv_usage :: "pd_scheduler \<Rightarrow> string \<Rightarrow> kv_usage_sample option \<Rightarrow> pd_scheduler" where
  "update_kv_usage s instance_id sample =
     (case sample of
        None \<Rightarrow> s\<lparr>pd_kv_usage := dpop (pd_kv_usage s) instance_id\<rparr>
      | Some u \<Rightarrow> s\<lparr>pd_kv_usage := dput (pd_kv_usage s) instance_id (u\<lparr>ku_ratio := max 0 (min 1 (ku_ratio u))\<rparr>)\<rparr>)"

definition decode_instance_epochs :: "pd_scheduler \<Rightarrow> sched_error + (string, string) dict" where
  "decode_instance_epochs s =
     (case filter (\<lambda>i. \<not> dhas (pd_instance_epochs s) i) (dkeys (pd_decode_free_slots s)) of
        i # _ \<Rightarrow> Inl (SchedKeyError i)
      | [] \<Rightarrow> Inr (map (\<lambda>i. (i, the (dget (pd_instance_epochs s) i))) (dkeys (pd_decode_free_slots s))))"

definition instance_epoch_of :: "pd_scheduler \<Rightarrow> string \<Rightarrow> string" where
  "instance_epoch_of s instance_id = dget_or (pd_instance_epochs s) instance_id ''unknown''"

definition decide_decode_instance_count :: "pd_config \<Rightarrow> int \<Rightarrow> sched_error + int" where
  "decide_decode_instance_count config active_kv_bytes =
     (let bound = (\<lambda>n. max (cf_min_decode_instances config) (min n (cf_max_decode_instances config)))
      in if active_kv_bytes > 0
         then if cf_kv_per_instance_bytes config = 0 then Inl SchedZeroDivisionError
              else Inr (bound \<lceil>real_of_int active_kv_bytes / real_of_int (cf_kv_per_instance_bytes config)\<rceil>)
         else Inr (bound 1))"

subsection \<open>Accounting\<close>

text \<open>
  \<open>live\<close> counts the leases of an instance that are not released; \<open>picked\<close> is the number of slots
  taken from it that no lease accounts for: those between \<open>pick_decode_instance\<close> and
  \<open>adopt_picked_decode_slot\<close>.
\<close>

definition live_on :: "string \<Rightarrow> decode_slot_lease \<Rightarrow> int" where
  "live_on i l = (if ls_instance_id l = i \<and> ls_state l \<noteq> RELEASED then 1 else 0)"

definition live :: "pd_scheduler \<Rightarrow> string \<Rightarrow> int" where
  "live s i = dsum (live_on i) (pd_slot_leases s)"

definition picked :: "pd_scheduler \<Rightarrow> string \<Rightarrow> int" where
  "picked s i = dget_or (pd_decode_max_slots s) i 0 - dget_or (pd_decode_free_slots s) i 0 - live s i"

text \<open>
  The invariant, instance by instance: free slots, maximum, prefill load, quarantine record, epoch and
  number of live leases fit together.
\<close>

definition inst_ok ::
  "int option \<Rightarrow> int option \<Rightarrow> int option \<Rightarrow> quarantine_record option \<Rightarrow> string option \<Rightarrow> int \<Rightarrow> bool" where
  "inst_ok free maximum load quar epoch leased \<longleftrightarrow>
     (case free of
        None \<Rightarrow> maximum = None
      | Some f \<Rightarrow> (case maximum of None \<Rightarrow> False | Some m \<Rightarrow> 0 \<le> f \<and> f + leased \<le> m) \<and> quar = None \<and> epoch \<noteq> None) \<and>
     (case load of None \<Rightarrow> True | Some n \<Rightarrow> 0 \<le> n \<and> quar = None)"

definition sched_inv :: "pd_scheduler \<Rightarrow> bool" where
  "sched_inv s \<longleftrightarrow>
     wf_dict (pd_slot_leases s) \<and> wf_dict (pd_decode_free_slots s) \<and> wf_dict (pd_prefill_load s) \<and>
     (\<forall>k l. dget (pd_slot_leases s) k = Some l \<longrightarrow> ls_operation_id l = k \<and> k \<noteq> []) \<and>
     (\<forall>i. inst_ok (dget (pd_decode_free_slots s) i) (dget (pd_decode_max_slots s) i) (dget (pd_prefill_load s) i)
        (dget (pd_quarantined s) i) (dget (pd_instance_epochs s) i) (live s i))"

datatype sched_op =
  Register string string int string "string list"
| Deregister string
| QuarantineInstance string "uncertain_op option" "uncertain_op option" string time
| Reconcile string string string string int "string list" "string list" "string list"
| PickPrefill "(string \<Rightarrow> bool) option" "string option"
| PickDecode "(string \<Rightarrow> bool) option" time "string option"
| Reserve "(string \<Rightarrow> bool) option" string string string string time
| Adopt string string string string time
| Commit string
| Release string
| QuarantineSlot string
| ReleaseQuarantined string "string option" "string option"
| RestoreQuarantined string string string
| RestoreReplaced string string string lease_state
| PrefillDone string "string option"
| DecodeFinished string "string option" "string option"
| UpdateKvUsage string "kv_usage_sample option"

text \<open>An operation that raises before it writes leaves the state as it was.\<close>

definition keep :: "'s \<Rightarrow> 'e + 's \<Rightarrow> 's" where
  "keep s r = (case r of Inl _ \<Rightarrow> s | Inr t \<Rightarrow> t)"

fun sched_exec :: "pd_scheduler \<Rightarrow> sched_op \<Rightarrow> pd_scheduler" where
  "sched_exec s (Register i role m e act) = keep s (register_instance s i role m e act)"
| "sched_exec s (Deregister i) = deregister_instance s i"
| "sched_exec s (QuarantineInstance i ut ud token now) = fst (quarantine_instance s i ut ud token now)"
| "sched_exec s (Reconcile i e t role m rs ts ds) = keep s (reconcile_instance s i e t role m rs ts ds)"
| "sched_exec s (PickPrefill registry required) = fst (pick_prefill_instance s registry required)"
| "sched_exec s (PickDecode registry now required) = fst (pick_decode_instance s registry now required)"
| "sched_exec s (Reserve registry i rid k token now) =
     keep s (map_sum id fst (reserve_decode_slot s registry i rid k token now))"
| "sched_exec s (Adopt i rid k token now) = keep s (map_sum id fst (adopt_picked_decode_slot s i rid k token now))"
| "sched_exec s (Commit k) = keep s (commit_decode_slot s k)"
| "sched_exec s (Release k) = fst (release_decode_slot s k)"
| "sched_exec s (QuarantineSlot k) = keep s (quarantine_decode_slot s k)"
| "sched_exec s (ReleaseQuarantined k lid cid) = fst (release_quarantined_decode_slot s k lid cid)"
| "sched_exec s (RestoreQuarantined k lid cid) = keep s (restore_quarantined_decode_slot s k lid cid)"
| "sched_exec s (RestoreReplaced k lid cid st) = keep s (restore_replaced_decode_slot s k lid cid st)"
| "sched_exec s (PrefillDone i e) = fst (on_prefill_done s i e)"
| "sched_exec s (DecodeFinished i e k) = fst (on_decode_finished s i e k)"
| "sched_exec s (UpdateKvUsage i u) = update_kv_usage s i u"

text \<open>
  What the clients of the scheduler owe it.  An instance comes into service without live leases, a
  slot is adopted or given back without a lease only after it was picked, and a rollback finds the
  slot it takes back still free.
\<close>

definition slot_free_for :: "pd_scheduler \<Rightarrow> string \<Rightarrow> bool" where
  "slot_free_for s k =
     (case dget (pd_slot_leases s) k of None \<Rightarrow> True
      | Some l \<Rightarrow> ls_state l = RELEASED \<longrightarrow> dget (pd_decode_free_slots s) (ls_instance_id l) \<noteq> Some 0)"

fun sched_admissible :: "pd_scheduler \<Rightarrow> sched_op \<Rightarrow> bool" where
  "sched_admissible s (Register i role m e act) \<longleftrightarrow> live s i = 0"
| "sched_admissible s (Reconcile i e t role m rs ts ds) \<longleftrightarrow> live s i = 0"
| "sched_admissible s (Adopt i rid k token now) \<longleftrightarrow> dhas (pd_decode_free_slots s) i \<longrightarrow> 0 < picked s i"
| "sched_admissible s (DecodeFinished i e k) \<longleftrightarrow>
     (k = None \<or> k = Some []) \<longrightarrow> dhas (pd_decode_free_slots s) i \<longrightarrow> 0 < picked s i"
| "sched_admissible s (RestoreQuarantined k lid cid) \<longleftrightarrow> slot_free_for s k"
| "sched_admissible s (RestoreReplaced k lid cid st) \<longleftrightarrow> slot_free_for s k"
| "sched_admissible s _ \<longleftrightarrow> True"

subsection \<open>The accounting laws\<close>

lemmas keep_simps [simp] = keep_def

lemma live_set_lease:
  "live (set_lease s k l) i = live s i - dval_at (live_on i) (dget (pd_slot_leases s) k) + live_on i l"
  by (simp add: live_def set_lease_def dsum_dput)

lemma live_nonneg: "0 \<le> live s i"
  unfolding live_def by (rule dsum_nonneg) (simp add: live_on_def)

lemma live_cong [simp]:
  "live (pd_decode_free_slots_update f s) i = live s i"
  "live (pd_decode_max_slots_update f s) i = live s i"
  "live (pd_prefill_load_update g s) i = live s i"
  "live (pd_kv_usage_update h s) i = live s i"
  "live (pd_instance_epochs_update e s) i = live s i"
  "live (pd_instance_roles_update e s) i = live s i"
  "live (pd_quarantined_update q s) i = live s i"
  by (simp_all add: live_def)

lemma set_lease_fields [simp]:
  "pd_decode_free_slots (set_lease s k l) = pd_decode_free_slots s"
  "pd_decode_max_slots (set_lease s k l) = pd_decode_max_slots s"
  "pd_prefill_load (set_lease s k l) = pd_prefill_load s"
  "pd_quarantined (set_lease s k l) = pd_quarantined s"
  "pd_instance_epochs (set_lease s k l) = pd_instance_epochs s"
  "pd_instance_roles (set_lease s k l) = pd_instance_roles s"
  "pd_slot_leases (set_lease s k l) = dput (pd_slot_leases s) k l"
  by (simp_all add: set_lease_def)

lemma picked_set_lease:
  "picked (set_lease s k l) i = picked s i + dval_at (live_on i) (dget (pd_slot_leases s) k) - live_on i l"
  by (simp add: picked_def live_set_lease)

lemma picked_set_free:
  "d = pd_decode_free_slots s \<Longrightarrow>
   picked (s\<lparr>pd_decode_free_slots := dput d i f\<rparr>) j =
   picked s j + (if j = i then dget_or (pd_decode_free_slots s) i 0 - f else 0)"
  by (simp add: picked_def dict_simps)

lemma picked_cong [simp]:
  "picked (pd_prefill_load_update g s) i = picked s i"
  "picked (pd_kv_usage_update h s) i = picked s i"
  "picked (pd_instance_epochs_update e s) i = picked s i"
  "picked (pd_instance_roles_update e s) i = picked s i"
  "picked (pd_quarantined_update q s) i = picked s i"
  by (simp_all add: picked_def)

lemmas accounting = picked_set_lease picked_set_free live_on_def

lemma inst_ok_simps [simp]:
  "inst_ok None m n q e lv \<longleftrightarrow> m = None \<and> (case n of None \<Rightarrow> True | Some n \<Rightarrow> 0 \<le> n \<and> q = None)"
  "inst_ok (Some f) m n q e lv \<longleftrightarrow> (\<exists>m'. m = Some m' \<and> 0 \<le> f \<and> f + lv \<le> m') \<and> q = None \<and> e \<noteq> None \<and>
     (case n of None \<Rightarrow> True | Some n \<Rightarrow> 0 \<le> n \<and> q = None)"
  by (auto simp: inst_ok_def split: option.splits)

lemma inst_ok_at:
  "sched_inv s \<Longrightarrow> inst_ok (dget (pd_decode_free_slots s) i) (dget (pd_decode_max_slots s) i)
     (dget (pd_prefill_load s) i) (dget (pd_quarantined s) i) (dget (pd_instance_epochs s) i) (live s i)"
  by (simp add: sched_inv_def)

lemma sched_invD:
  assumes "sched_inv s"
  shows "wf_dict (pd_slot_leases s)" "wf_dict (pd_decode_free_slots s)" "wf_dict (pd_prefill_load s)"
    "dhas (pd_decode_free_slots s) i = dhas (pd_decode_max_slots s) i"
    "dget (pd_decode_free_slots s) i = Some f \<Longrightarrow> 0 \<le> f"
    "dget (pd_decode_free_slots s) i = Some f \<Longrightarrow> 0 \<le> picked s i"
    "dget (pd_slot_leases s) k = Some l \<Longrightarrow> ls_operation_id l = k"
    "dget (pd_slot_leases s) k = Some l \<Longrightarrow> k \<noteq> []"
    "dhas (pd_quarantined s) i \<Longrightarrow> \<not> dhas (pd_prefill_load s) i \<and> \<not> dhas (pd_decode_free_slots s) i"
    "dget (pd_prefill_load s) i = Some n \<Longrightarrow> 0 \<le> n"
proof -
  show "wf_dict (pd_slot_leases s)" "wf_dict (pd_decode_free_slots s)" "wf_dict (pd_prefill_load s)"
    "dget (pd_slot_leases s) k = Some l \<Longrightarrow> ls_operation_id l = k"
    "dget (pd_slot_leases s) k = Some l \<Longrightarrow> k \<noteq> []"
    using assms by (simp_all add: sched_inv_def)
  show "dhas (pd_decode_free_slots s) i = dhas (pd_decode_max_slots s) i"
    "dget (pd_decode_free_slots s) i = Some f \<Longrightarrow> 0 \<le> f"
    "dget (pd_decode_free_slots s) i = Some f \<Longrightarrow> 0 \<le> picked s i"
    "dhas (pd_quarantined s) i \<Longrightarrow> \<not> dhas (pd_prefill_load s) i \<and> \<not> dhas (pd_decode_free_slots s) i"
    "dget (pd_prefill_load s) i = Some n \<Longrightarrow> 0 \<le> n"
    using inst_ok_at [OF assms, of i]
    by (auto simp: inst_ok_def picked_def dget_or_def split: option.splits)
qed

lemma inv_set_lease:
  assumes "sched_inv s" "ls_operation_id l = k" "k \<noteq> []"
    "\<And>j. dhas (pd_decode_free_slots s) j \<Longrightarrow>
       live_on j l - dval_at (live_on j) (dget (pd_slot_leases s) k) \<le> picked s j"
  shows "sched_inv (set_lease s k l)"
proof -
  have "inst_ok (dget (pd_decode_free_slots s) j) (dget (pd_decode_max_slots s) j) (dget (pd_prefill_load s) j)
      (dget (pd_quarantined s) j) (dget (pd_instance_epochs s) j) (live (set_lease s k l) j)" for j
    using inst_ok_at [OF assms(1), of j] assms(4) [of j]
    by (auto simp: live_set_lease picked_def dget_or_def inst_ok_def split: option.splits)
  with assms show ?thesis by (auto simp: sched_inv_def dict_simps)
qed

lemma inv_instance:
  assumes "sched_inv s" "wf_dict (pd_decode_free_slots t)" "wf_dict (pd_prefill_load t)"
    "pd_slot_leases t = pd_slot_leases s"
    "\<And>j. j \<noteq> i \<Longrightarrow> dget (pd_decode_free_slots t) j = dget (pd_decode_free_slots s) j \<and>
       dget (pd_decode_max_slots t) j = dget (pd_decode_max_slots s) j \<and>
       dget (pd_prefill_load t) j = dget (pd_prefill_load s) j \<and>
       dget (pd_quarantined t) j = dget (pd_quarantined s) j \<and>
       dget (pd_instance_epochs t) j = dget (pd_instance_epochs s) j"
    "inst_ok (dget (pd_decode_free_slots t) i) (dget (pd_decode_max_slots t) i) (dget (pd_prefill_load t) i)
       (dget (pd_quarantined t) i) (dget (pd_instance_epochs t) i) (live s i)"
  shows "sched_inv t"
proof -
  have lv: "live t j = live s j" for j using assms(4) by (simp add: live_def)
  have "inst_ok (dget (pd_decode_free_slots t) j) (dget (pd_decode_max_slots t) j) (dget (pd_prefill_load t) j)
       (dget (pd_quarantined t) j) (dget (pd_instance_epochs t) j) (live t j)" for j
    using assms(5) [of j] assms(6) inst_ok_at [OF assms(1), of j] by (cases "j = i") (simp_all add: lv)
  with assms show ?thesis by (simp add: sched_inv_def)
qed

lemma inv_set_free:
  assumes "sched_inv s" "dget (pd_decode_free_slots s) i = Some f" "0 \<le> f'" "f' - f \<le> picked s i"
  shows "sched_inv (s\<lparr>pd_decode_free_slots := dput (pd_decode_free_slots s) i f'\<rparr>)"
  using assms inst_ok_at [OF assms(1), of i] sched_invD(2,3) [OF assms(1)]
  by (intro inv_instance [OF assms(1), where i = i])
    (auto simp: dict_simps picked_def dget_or_def split: option.splits)

lemma inv_prefill_load:
  assumes "sched_inv s" "dhas (pd_prefill_load s) i" "0 \<le> n"
  shows "sched_inv (s\<lparr>pd_prefill_load := dput (pd_prefill_load s) i n\<rparr>)"
  using assms inst_ok_at [OF assms(1), of i] sched_invD(2,3) [OF assms(1)]
  by (intro inv_instance [OF assms(1), where i = i])
    (auto simp: dict_simps inst_ok_def split: option.splits)

lemma free_one_slot_cases:
  assumes "sched_inv s"
  shows "dget (pd_decode_free_slots s) i = None \<Longrightarrow> free_one_slot s i = (s, Inr True)"
    and "dget (pd_decode_free_slots s) i = Some f \<Longrightarrow> 0 < picked s i \<Longrightarrow>
      free_one_slot s i = (s\<lparr>pd_decode_free_slots := dput (pd_decode_free_slots s) i (f + 1)\<rparr>, Inr True)"
proof -
  assume "dget (pd_decode_free_slots s) i = None"
  then show "free_one_slot s i = (s, Inr True)" by (simp add: free_one_slot_def)
next
  assume f: "dget (pd_decode_free_slots s) i = Some f" and p: "0 < picked s i"
  then obtain m where m: "dget (pd_decode_max_slots s) i = Some m"
    using sched_invD(4) [OF assms, of i] by auto
  have "f + 1 \<le> m" using p f m live_nonneg [of s i] by (simp add: picked_def dget_or_def)
  with f m show "free_one_slot s i = (s\<lparr>pd_decode_free_slots := dput (pd_decode_free_slots s) i (f + 1)\<rparr>, Inr True)"
    by (simp add: free_one_slot_def min_def)
qed

lemma decode_finished_slot_cases:
  assumes "sched_inv s"
  shows "dget (pd_decode_free_slots s) i = None \<Longrightarrow> decode_finished_slot s i = (s, Inr False)"
    and "dget (pd_decode_free_slots s) i = Some f \<Longrightarrow> 0 < picked s i \<Longrightarrow>
      decode_finished_slot s i = (s\<lparr>pd_decode_free_slots := dput (pd_decode_free_slots s) i (f + 1)\<rparr>, Inr True)"
proof -
  assume "dget (pd_decode_free_slots s) i = None"
  then show "decode_finished_slot s i = (s, Inr False)" by (simp add: decode_finished_slot_def)
next
  assume f: "dget (pd_decode_free_slots s) i = Some f" and p: "0 < picked s i"
  then obtain m where m: "dget (pd_decode_max_slots s) i = Some m"
    using sched_invD(4) [OF assms, of i] by auto
  have "f < m" using p f m live_nonneg [of s i] by (simp add: picked_def dget_or_def)
  with f m show "decode_finished_slot s i = (s\<lparr>pd_decode_free_slots := dput (pd_decode_free_slots s) i (f + 1)\<rparr>, Inr True)"
    by (simp add: decode_finished_slot_def)
qed

text \<open>Marking a live lease released makes its slot one that no lease accounts for.\<close>

lemma mark_released:
  assumes "sched_inv s" "dget (pd_slot_leases s) k = Some l" "ls_state l \<noteq> RELEASED"
    "ls_state l' = RELEASED" "ls_operation_id l' = ls_operation_id l"
  shows "sched_inv (set_lease s k l')"
    and "picked (set_lease s k l') j = picked s j + (if j = ls_instance_id l then 1 else 0)"
    and "dhas (pd_decode_free_slots s) (ls_instance_id l) \<Longrightarrow> 0 < picked (set_lease s k l') (ls_instance_id l)"
proof -
  from assms have k: "ls_operation_id l' = k" "k \<noteq> []" using sched_invD by auto
  have nn: "dhas (pd_decode_free_slots s) j \<Longrightarrow> 0 \<le> picked s j" for j using sched_invD(6) [OF assms(1)] by auto
  show "sched_inv (set_lease s k l')"
  proof (rule inv_set_lease [OF assms(1) k])
    fix j
    assume "dhas (pd_decode_free_slots s) j"
    with nn assms show "live_on j l' - dval_at (live_on j) (dget (pd_slot_leases s) k) \<le> picked s j"
      by (force simp: live_on_def)
  qed
  show p: "picked (set_lease s k l') j = picked s j + (if j = ls_instance_id l then 1 else 0)" for j
    using assms by (simp add: accounting)
  show "dhas (pd_decode_free_slots s) (ls_instance_id l) \<Longrightarrow> 0 < picked (set_lease s k l') (ls_instance_id l)"
    using nn unfolding p by force
qed

text \<open>Giving back the slot of a live lease, in the two forms the scheduler has.\<close>

lemma release_marked:
  assumes "sched_inv s" "dget (pd_slot_leases s) k = Some l" "ls_state l \<noteq> RELEASED"
    "ls_state l' = RELEASED" "ls_operation_id l' = ls_operation_id l" "ls_instance_id l = i"
  shows "sched_inv (fst (free_one_slot (set_lease s k l') i)) \<and>
    (\<forall>j. dhas (pd_decode_free_slots s) j \<longrightarrow> picked (fst (free_one_slot (set_lease s k l') i)) j = picked s j) \<and>
    snd (free_one_slot (set_lease s k l') i) = Inr True \<and>
    fst (decode_finished_slot (set_lease s k l') i) = fst (free_one_slot (set_lease s k l') i)"
proof (cases "dget (pd_decode_free_slots s) i")
  case None
  note m = mark_released [OF assms(1-5)]
  from None free_one_slot_cases(1) [OF m(1)] decode_finished_slot_cases(1) [OF m(1)] m(1) m(2) assms(6)
  show ?thesis by auto
next
  case (Some f)
  note m = mark_released [OF assms(1-5)]
  let ?t = "set_lease s k l'"
  from Some have f: "dget (pd_decode_free_slots ?t) i = Some f" by simp
  have p: "0 < picked ?t i" using m(3) Some assms(6) by simp
  have f0: "0 \<le> f" by (rule sched_invD(5) [OF assms(1) Some])
  have "sched_inv (?t\<lparr>pd_decode_free_slots := dput (pd_decode_free_slots ?t) i (f + 1)\<rparr>)"
    using f0 p by (intro inv_set_free [OF m(1) f]) auto
  with f m(2) assms(6) show ?thesis
    unfolding free_one_slot_cases(2) [OF m(1) f p] decode_finished_slot_cases(2) [OF m(1) f p]
    by (auto simp: picked_set_free dget_or_def)
qed

text \<open>
  The lease operations: they keep the invariant, and on every decode instance in service they keep
  the number of slots that no lease accounts for, so that a slot is neither lost nor given back
  twice.
\<close>

definition balanced :: "pd_scheduler \<Rightarrow> pd_scheduler \<Rightarrow> bool" where
  "balanced s t \<longleftrightarrow> sched_inv t \<and> pd_decode_max_slots t = pd_decode_max_slots s \<and>
     (\<forall>i. dhas (pd_decode_free_slots s) i \<longrightarrow> picked t i = picked s i)"

lemma free_one_slot_max [simp]:
  "pd_decode_max_slots (fst (free_one_slot s i)) = pd_decode_max_slots s"
  "pd_decode_max_slots (fst (decode_finished_slot s i)) = pd_decode_max_slots s"
  by (simp_all add: free_one_slot_def decode_finished_slot_def split: option.splits)

lemma balanced_refl [simp]: "balanced s s \<longleftrightarrow> sched_inv s"
  by (simp add: balanced_def)

lemma balanced_release:
  assumes "sched_inv s" "dget (pd_slot_leases s) k = Some l" "ls_state l \<noteq> RELEASED"
    "ls_state l' = RELEASED" "ls_operation_id l' = ls_operation_id l" "ls_instance_id l = i"
  shows "balanced s (fst (free_one_slot (set_lease s k l') i))"
    "balanced s (fst (decode_finished_slot (set_lease s k l') i))"
  using release_marked [OF assms] by (simp_all add: balanced_def)

lemma balanced_restate:
  assumes "sched_inv s" "dget (pd_slot_leases s) k = Some l" "ls_state l \<noteq> RELEASED" "ls_state l' \<noteq> RELEASED"
    "ls_operation_id l' = ls_operation_id l" "ls_instance_id l' = ls_instance_id l"
  shows "balanced s (set_lease s k l')"
proof -
  have eq: "live_on j l' = live_on j l" for j using assms by (simp add: live_on_def)
  have nn: "dhas (pd_decode_free_slots s) j \<Longrightarrow> 0 \<le> picked s j" for j using sched_invD(6) [OF assms(1)] by auto
  have "sched_inv (set_lease s k l')"
    using assms nn sched_invD(7,8) [OF assms(1,2)]
    by (intro inv_set_lease) (auto simp: eq)
  then show ?thesis using assms by (simp add: balanced_def picked_set_lease eq)
qed

lemma commit_balanced: "sched_inv s \<Longrightarrow> balanced s (sched_exec s (Commit k))"
  by (auto simp: commit_decode_slot_def intro!: balanced_restate split: option.splits)

lemma quarantine_slot_balanced: "sched_inv s \<Longrightarrow> balanced s (sched_exec s (QuarantineSlot k))"
  by (auto simp: quarantine_decode_slot_def intro!: balanced_restate split: option.splits)

lemma release_balanced: "sched_inv s \<Longrightarrow> balanced s (sched_exec s (Release k))"
  by (auto simp: release_decode_slot_def intro!: balanced_release split: option.splits)

lemma release_quarantined_balanced: "sched_inv s \<Longrightarrow> balanced s (sched_exec s (ReleaseQuarantined k lid cid))"
  by (auto simp: release_quarantined_decode_slot_def intro!: balanced_release split: option.splits)

lemma decode_finished_balanced:
  "sched_inv s \<Longrightarrow> k \<noteq> None \<Longrightarrow> k \<noteq> Some [] \<Longrightarrow> balanced s (sched_exec s (DecodeFinished i e k))"
  by (auto simp: on_decode_finished_def intro!: balanced_release split: option.splits)

lemma reserve_balanced:
  assumes "sched_inv s"
  shows "balanced s (sched_exec s (Reserve registry i rid k token now))"
proof (cases "k = [] \<or> dhas (pd_slot_leases s) k \<or> \<not> registry_allows registry i \<or> dget_or (pd_decode_free_slots s) i 0 \<le> 0")
  case True
  with assms show ?thesis by (auto simp: reserve_decode_slot_def split: option.splits)
next
  case False
  then obtain f where f: "dget (pd_decode_free_slots s) i = Some f" "0 < f" "k \<noteq> []" "dget (pd_slot_leases s) k = None"
    by (auto simp: dget_or_def split: option.splits)
  let ?l = "\<lparr>ls_lease_id = token, ls_operation_id = k, ls_req_id = rid, ls_instance_id = i,
     ls_state = RESERVED, ls_reserved_at = now, ls_release_cleanup_id = None\<rparr>"
  let ?t = "s\<lparr>pd_decode_free_slots := dput (pd_decode_free_slots s) i (f - 1)\<rparr>"
  have exec: "sched_exec s (Reserve registry i rid k token now) = set_lease ?t k ?l"
    using False f by (simp add: reserve_decode_slot_def set_lease_def dget_or_def Let_def)
  have "0 \<le> picked s i" by (rule sched_invD(6) [OF assms f(1)])
  then have t: "sched_inv ?t" using f by (intro inv_set_free [OF assms f(1)]) auto
  have live: "live_on j ?l = (if j = i then 1 else 0)" for j by (simp add: live_on_def)
  have nn: "dhas (pd_decode_free_slots s) j \<Longrightarrow> 0 \<le> picked s j" for j using sched_invD(6) [OF assms] by auto
  have "sched_inv (set_lease ?t k ?l)"
    using f nn by (intro inv_set_lease [OF t]) (auto simp: live picked_set_free dget_or_def dict_simps split: if_splits)
  then show ?thesis unfolding exec using f
    by (simp add: balanced_def picked_set_lease picked_set_free live dget_or_def)
qed

subsection \<open>The remaining operations keep the invariant\<close>

lemma balanced_inv: "balanced s t \<Longrightarrow> sched_inv t"
  by (simp add: balanced_def)

lemma inv_new_decode:
  assumes "sched_inv s" "live s i = 0" "0 < m" "\<not> dhas (pd_quarantined s) i" "dhas (pd_instance_epochs s) i"
  shows "sched_inv (s\<lparr>pd_decode_free_slots := dput (pd_decode_free_slots s) i m,
                      pd_decode_max_slots := dput (pd_decode_max_slots s) i m\<rparr>)"
  using assms inst_ok_at [OF assms(1), of i] sched_invD(2,3) [OF assms(1)]
  by (intro inv_instance [OF assms(1), where i = i])
    (auto simp: dict_simps inst_ok_def split: option.splits)

lemma inv_new_prefill:
  assumes "sched_inv s" "\<not> dhas (pd_quarantined s) i"
  shows "sched_inv (s\<lparr>pd_prefill_load := dput (pd_prefill_load s) i 0\<rparr>)"
  using assms inst_ok_at [OF assms(1), of i] sched_invD(2,3) [OF assms(1)]
  by (intro inv_instance [OF assms(1), where i = i])
    (auto simp: dict_simps inst_ok_def split: option.splits)

lemma inv_known:
  assumes "sched_inv s"
  shows "sched_inv (s\<lparr>pd_instance_epochs := dput (pd_instance_epochs s) i e,
                      pd_instance_roles := dput (pd_instance_roles s) i r\<rparr>)"
  using assms inst_ok_at [OF assms(1), of i] sched_invD(2,3) [OF assms(1)]
  by (intro inv_instance [OF assms(1), where i = i])
    (auto simp: dict_simps inst_ok_def split: option.splits)

lemma inv_unquarantine:
  assumes "sched_inv s"
  shows "sched_inv (s\<lparr>pd_quarantined := dpop (pd_quarantined s) i\<rparr>)"
  using assms inst_ok_at [OF assms(1), of i] sched_invD(2,3) [OF assms(1)]
  by (intro inv_instance [OF assms(1), where i = i])
    (auto simp: dict_simps inst_ok_def split: option.splits)

definition with_known :: "pd_scheduler \<Rightarrow> string \<Rightarrow> string \<Rightarrow> string \<Rightarrow> pd_scheduler" where
  "with_known s i e r = s\<lparr>pd_instance_epochs := dput (pd_instance_epochs s) i e,
     pd_instance_roles := dput (pd_instance_roles s) i r\<rparr>"

definition with_prefill :: "pd_scheduler \<Rightarrow> string \<Rightarrow> pd_scheduler" where
  "with_prefill s i = s\<lparr>pd_prefill_load := dput (pd_prefill_load s) i 0\<rparr>"

definition with_decode :: "pd_scheduler \<Rightarrow> string \<Rightarrow> int \<Rightarrow> pd_scheduler" where
  "with_decode s i m = s\<lparr>pd_decode_free_slots := dput (pd_decode_free_slots s) i m,
     pd_decode_max_slots := dput (pd_decode_max_slots s) i m\<rparr>"

lemmas with_defs = with_known_def with_prefill_def with_decode_def

lemma register_Inr:
  assumes "register_instance s i role m e act = Inr t"
  shows "\<not> dhas (pd_quarantined s) i \<and>
    (t = s \<or> (\<exists>ep. t = with_prefill (with_known s i ep role) i \<or>
               (0 < m \<and> t = with_decode (with_known s i ep role) i m)))"
proof (cases "dget (pd_quarantined s) i")
  case (Some q)
  with assms show ?thesis by (simp add: register_instance_def)
next
  case None
  define ep where "ep = (if e \<noteq> [] then e else ''legacy:'' @ i)"
  from assms None have "t = s \<or> t = with_prefill (with_known s i ep role) i \<or>
               (0 < m \<and> t = with_decode (with_known s i ep role) i m)"
    unfolding register_instance_def ep_def [symmetric]
    by (auto simp: Let_def with_defs split: option.splits if_splits)
  with None show ?thesis by blast
qed

lemma reconcile_Inr:
  assumes "reconcile_instance s i e token role m rs ts ds = Inr t"
  shows "\<exists>q. dget (pd_quarantined s) i = Some q \<and> qr_reconciliation_token q = token \<and> rs = [] \<and> ts = [] \<and> ds = [] \<and>
    e \<noteq> [] \<and> (let k = (with_known s i e role)\<lparr>pd_quarantined := dpop (pd_quarantined s) i\<rparr> in
      (role = ''prefill'' \<and> t = with_prefill k i) \<or> (role = ''decode'' \<and> 0 < m \<and> t = with_decode k i m))"
proof (cases "dget (pd_quarantined s) i")
  case None
  with assms show ?thesis by (simp add: reconcile_instance_def)
next
  case (Some q)
  with assms show ?thesis
    by (auto simp: reconcile_instance_def Let_def with_defs intro!: pd_scheduler.equality split: if_splits)
qed

lemma register_inv:
  assumes "sched_inv s" "live s i = 0"
  shows "sched_inv (sched_exec s (Register i role m e act))"
proof (cases "register_instance s i role m e act")
  case (Inl x)
  with assms show ?thesis by simp
next
  case (Inr t)
  have kn: "sched_inv (with_known s i ep role)" "live (with_known s i ep role) i = 0"
    "dhas (pd_instance_epochs (with_known s i ep role)) i"
    "pd_quarantined (with_known s i ep role) = pd_quarantined s" for ep
    using assms by (simp_all add: with_known_def inv_known dict_simps)
  from register_Inr [OF Inr] assms kn inv_new_prefill [OF kn(1)] inv_new_decode [OF kn(1,2)] Inr show ?thesis
    by (auto simp: with_prefill_def with_decode_def)
qed

lemma reconcile_inv:
  assumes "sched_inv s" "live s i = 0"
  shows "sched_inv (sched_exec s (Reconcile i e token role m rs ts ds))"
proof (cases "reconcile_instance s i e token role m rs ts ds")
  case (Inl x)
  with assms show ?thesis by simp
next
  case (Inr t)
  let ?k = "(with_known s i e role)\<lparr>pd_quarantined := dpop (pd_quarantined s) i\<rparr>"
  have kn: "sched_inv ?k" "live ?k i = 0" "dhas (pd_instance_epochs ?k) i" "\<not> dhas (pd_quarantined ?k) i"
    using assms inv_unquarantine [OF inv_known [of s i role e], of i] by (simp_all add: with_known_def dict_simps)
  from reconcile_Inr [OF Inr] inv_new_prefill [OF kn(1,4)] inv_new_decode [OF kn(1,2) _ kn(4,3)] Inr show ?thesis
    by (auto simp: with_prefill_def with_decode_def Let_def)
qed

lemma deregister_inv:
  assumes "sched_inv s"
  shows "sched_inv (deregister_instance s i)"
  using assms inst_ok_at [OF assms(1), of i] sched_invD(2,3) [OF assms(1)]
  by (intro inv_instance [OF assms(1), where i = i])
    (auto simp: deregister_instance_def dict_simps)

lemma quarantine_inv:
  assumes "sched_inv s"
  shows "sched_inv (fst (quarantine_instance s i ut ud token now))"
  using assms inst_ok_at [OF assms(1), of i] sched_invD(2,3) [OF assms(1)]
  by (intro inv_instance [OF assms(1), where i = i])
    (auto simp: quarantine_instance_def dict_simps Let_def inst_ok_def split: option.splits)

lemma pick_prefill_inv:
  assumes "sched_inv s"
  shows "sched_inv (fst (pick_prefill_instance s registry required))"
proof (cases "min_by (\<lambda>k. dget_or (pd_prefill_load s) k 0) (prefill_candidates s registry required)")
  case None
  with assms show ?thesis by (simp add: pick_prefill_instance_def)
next
  case (Some i)
  from min_by_Some(1) [OF Some] have "i \<in> set (dkeys (pd_prefill_load s))"
    unfolding prefill_candidates_def by (rule filter_set_member)
  then obtain n where n: "dget (pd_prefill_load s) i = Some n" by (auto simp only: dkeys_iff not_None_eq)
  moreover have "0 \<le> n" using assms n by (rule sched_invD(10))
  ultimately show ?thesis using assms Some
    by (auto simp: pick_prefill_instance_def dget_or_def intro!: inv_prefill_load)
qed

lemma decode_candidates_free:
  "(i, f) \<in> set (decode_candidates s registry now required) \<Longrightarrow> wf_dict (pd_decode_free_slots s) \<Longrightarrow>
   dget (pd_decode_free_slots s) i = Some f \<and> 0 < f"
  by (auto simp: decode_candidates_def dict_items)

lemma pick_decode_cases:
  assumes "sched_inv s" "pick_decode_instance s registry now required = (t, r)"
  shows "(r = None \<and> t = s) \<or>
    (\<exists>i f. r = Some i \<and> dget (pd_decode_free_slots s) i = Some f \<and> 0 < f \<and>
       t = s\<lparr>pd_decode_free_slots := dput (pd_decode_free_slots s) i (f - 1)\<rparr>)"
  using assms(2) decode_candidates_free [OF max_by_Some(1) sched_invD(2) [OF assms(1)]]
  by (force simp: pick_decode_instance_def dget_or_def split: option.splits)

lemma pick_decode_inv:
  assumes "sched_inv s"
  shows "sched_inv (fst (pick_decode_instance s registry now required))"
proof (cases "pick_decode_instance s registry now required")
  case (Pair t r)
  have "dget (pd_decode_free_slots s) i = Some f \<Longrightarrow> - 1 \<le> picked s i" for i f
    using sched_invD(6) [OF assms, of i f] by simp
  with pick_decode_cases [OF assms Pair] assms show ?thesis
    by (auto simp: Pair intro!: inv_set_free)
qed

lemma adopt_inv:
  assumes "sched_inv s" "dhas (pd_decode_free_slots s) i \<longrightarrow> 0 < picked s i"
  shows "sched_inv (sched_exec s (Adopt i rid k token now))"
proof (cases "k = [] \<or> dhas (pd_slot_leases s) k \<or> \<not> dhas (pd_decode_free_slots s) i")
  case True
  with assms show ?thesis by (auto simp: adopt_picked_decode_slot_def)
next
  case False
  let ?l = "\<lparr>ls_lease_id = token, ls_operation_id = k, ls_req_id = rid, ls_instance_id = i,
     ls_state = RESERVED, ls_reserved_at = now, ls_release_cleanup_id = None\<rparr>"
  have exec: "sched_exec s (Adopt i rid k token now) = set_lease s k ?l"
    using False by (simp add: adopt_picked_decode_slot_def set_lease_def Let_def)
  have "sched_inv (set_lease s k ?l)"
    using assms False sched_invD(6) [OF assms(1)] by (intro inv_set_lease) (auto simp: live_on_def)
  then show ?thesis by (simp only: exec)
qed

lemma retake_set_lease: "retake_slot (set_lease s k l) i = set_lease (retake_slot s i) k l"
  by (simp add: retake_slot_def set_lease_def split: option.splits)

lemma inv_restore:
  assumes "sched_inv s" "dget (pd_slot_leases s) k = Some l" "ls_state l = RELEASED" "slot_free_for s k"
    "ls_operation_id l' = ls_operation_id l" "ls_instance_id l' = ls_instance_id l"
  shows "sched_inv (retake_slot (set_lease s k l') (ls_instance_id l))"
proof -
  have k: "ls_operation_id l' = k" "k \<noteq> []" using assms sched_invD(7,8) by auto
  have nn: "dhas (pd_decode_free_slots s) j \<Longrightarrow> 0 \<le> picked s j" for j using sched_invD(6) [OF assms(1)] by auto
  let ?t = "retake_slot s (ls_instance_id l)"
  have t: "sched_inv ?t \<and> pd_slot_leases ?t = pd_slot_leases s \<and>
    (\<forall>j. dhas (pd_decode_free_slots ?t) j \<longrightarrow> (if j = ls_instance_id l then 1 else 0) \<le> picked ?t j)"
  proof (cases "dget (pd_decode_free_slots s) (ls_instance_id l)")
    case None
    with assms nn show ?thesis by (auto simp: retake_slot_def)
  next
    case (Some f)
    with assms sched_invD(5) [OF assms(1) Some] have f: "0 < f" by (auto simp: slot_free_for_def)
    then have "?t = s\<lparr>pd_decode_free_slots := dput (pd_decode_free_slots s) (ls_instance_id l) (f - 1)\<rparr>"
      using Some by (simp add: retake_slot_def)
    moreover have "- 1 \<le> picked s (ls_instance_id l)" using nn [of "ls_instance_id l"] Some by simp
    ultimately show ?thesis using Some f nn
      by (auto intro!: inv_set_free [OF assms(1)] simp: picked_set_free dget_or_def dict_simps split: if_splits)
  qed
  show ?thesis unfolding retake_set_lease
  proof (rule inv_set_lease)
    show "sched_inv ?t" using t by simp
    fix j
    assume j: "dhas (pd_decode_free_slots ?t) j"
    have "live_on j l' \<le> (if j = ls_instance_id l then 1 else 0)" using assms(6) by (simp add: live_on_def)
    moreover have "dval_at (live_on j) (dget (pd_slot_leases ?t) k) = 0"
      using t assms(2,3) by (simp add: live_on_def)
    ultimately show "live_on j l' - dval_at (live_on j) (dget (pd_slot_leases ?t) k) \<le> picked ?t j"
      using t j by (metis diff_zero order_trans)
  qed (use k in auto)
qed

lemma restore_inv:
  assumes "sched_inv s" "slot_free_for s k"
  shows "sched_inv (sched_exec s (RestoreQuarantined k lid cid))"
    "sched_inv (sched_exec s (RestoreReplaced k lid cid st))"
  using assms
  by (auto simp: restore_quarantined_decode_slot_def restore_replaced_decode_slot_def Let_def
      split: option.splits intro!: inv_restore balanced_inv [OF balanced_restate])

lemma prefill_done_inv:
  "sched_inv s \<Longrightarrow> sched_inv (fst (on_prefill_done s i e))"
  by (auto simp: on_prefill_done_def split: option.splits intro!: inv_prefill_load)

lemma unleased_finish_inv:
  assumes "sched_inv s" "dhas (pd_decode_free_slots s) i \<longrightarrow> 0 < picked s i" "k = None \<or> k = Some []"
  shows "sched_inv (fst (on_decode_finished s i e k))"
proof (cases "dget (pd_decode_free_slots s) i")
  case None
  with assms show ?thesis by (auto simp: on_decode_finished_def decode_finished_slot_def)
next
  case (Some f)
  with assms have p: "0 < picked s i" by simp
  from decode_finished_slot_cases(2) [OF assms(1) Some p] sched_invD(5) [OF assms(1) Some] p assms
  show ?thesis by (auto simp: on_decode_finished_def intro!: inv_set_free [OF assms(1) Some])
qed

lemma kv_usage_inv: "sched_inv s \<Longrightarrow> sched_inv (update_kv_usage s i u)"
  by (simp add: update_kv_usage_def sched_inv_def split: option.splits)

lemmas sched_step_inv = register_inv deregister_inv quarantine_inv reconcile_inv pick_prefill_inv pick_decode_inv
  adopt_inv restore_inv prefill_done_inv unleased_finish_inv kv_usage_inv
  balanced_inv [OF reserve_balanced] balanced_inv [OF commit_balanced] balanced_inv [OF release_balanced]
  balanced_inv [OF quarantine_slot_balanced] balanced_inv [OF release_quarantined_balanced]
  balanced_inv [OF decode_finished_balanced]

interpretation sched_ops: op_system sched_exec sched_admissible sched_inv
proof unfold_locales
  fix s x
  assume s: "sched_inv s" and x: "sched_admissible s x"
  show "sched_inv (sched_exec s x)"
  proof (cases x)
    case (DecodeFinished i e k)
    with s x unleased_finish_inv [of s i k e] balanced_inv [OF decode_finished_balanced [of s k i e]] show ?thesis by fastforce
  qed (use s x in \<open>auto simp del: keep_simps intro: sched_step_inv sched_step_inv [unfolded sched_exec.simps]\<close>)
qed

subsection \<open>The quarantine fence\<close>

fun unlocks :: "string \<Rightarrow> string \<Rightarrow> sched_op \<Rightarrow> bool" where
  "unlocks i token (Reconcile j e t role m rs ts ds) \<longleftrightarrow> j = i \<and> t = token"
| "unlocks i token _ \<longleftrightarrow> False"

definition fenced :: "pd_scheduler \<Rightarrow> string \<Rightarrow> string \<Rightarrow> bool" where
  "fenced s i token \<longleftrightarrow> (case dget (pd_quarantined s) i of None \<Rightarrow> False | Some q \<Rightarrow> qr_reconciliation_token q = token)"

lemma slot_ops_quarantined [simp]:
  "pd_quarantined (fst (free_one_slot s i)) = pd_quarantined s"
  "pd_quarantined (fst (decode_finished_slot s i)) = pd_quarantined s"
  "pd_quarantined (retake_slot s i) = pd_quarantined s"
  by (simp_all add: free_one_slot_def decode_finished_slot_def retake_slot_def split: option.splits)

lemma fenced_cong: "pd_quarantined t = pd_quarantined s \<Longrightarrow> fenced t i token = fenced s i token"
  by (simp add: fenced_def)

lemma lease_ops_quarantined:
  "pd_quarantined (sched_exec s (PickPrefill registry required)) = pd_quarantined s"
  "pd_quarantined (sched_exec s (PickDecode registry now required)) = pd_quarantined s"
  "pd_quarantined (sched_exec s (Reserve registry i rid k token now)) = pd_quarantined s"
  "pd_quarantined (sched_exec s (Adopt i rid k token now)) = pd_quarantined s"
  "pd_quarantined (sched_exec s (Commit k)) = pd_quarantined s"
  "pd_quarantined (sched_exec s (Release k)) = pd_quarantined s"
  "pd_quarantined (sched_exec s (QuarantineSlot k)) = pd_quarantined s"
  "pd_quarantined (sched_exec s (ReleaseQuarantined k lid cid)) = pd_quarantined s"
  "pd_quarantined (sched_exec s (RestoreQuarantined k lid' cid')) = pd_quarantined s"
  "pd_quarantined (sched_exec s (RestoreReplaced k lid' cid' st)) = pd_quarantined s"
  "pd_quarantined (sched_exec s (PrefillDone i e)) = pd_quarantined s"
  "pd_quarantined (sched_exec s (DecodeFinished i e k')) = pd_quarantined s"
  "pd_quarantined (sched_exec s (UpdateKvUsage i u)) = pd_quarantined s"
  "pd_quarantined (sched_exec s (Deregister i)) = pd_quarantined s"
  by (simp_all add: pick_prefill_instance_def pick_decode_instance_def reserve_decode_slot_def
      adopt_picked_decode_slot_def commit_decode_slot_def release_decode_slot_def quarantine_decode_slot_def
      release_quarantined_decode_slot_def restore_quarantined_decode_slot_def restore_replaced_decode_slot_def
      on_prefill_done_def on_decode_finished_def update_kv_usage_def deregister_instance_def Let_def
      split: option.splits)

lemma register_quarantined: "pd_quarantined (sched_exec s (Register i role m e act)) = pd_quarantined s"
  using register_Inr [of s i role m e act]
  by (cases "register_instance s i role m e act") (auto simp: with_defs)

lemma quarantine_fenced: "fenced s i token \<Longrightarrow> fenced (sched_exec s (QuarantineInstance j ut ud t now)) i token"
  by (auto simp: fenced_def quarantine_instance_def Let_def dict_simps split: option.splits if_splits)

lemma reconcile_fenced:
  assumes "fenced s i token" "\<not> (j = i \<and> t = token)"
  shows "fenced (sched_exec s (Reconcile j e t role m rs ts ds)) i token"
  using assms reconcile_Inr [of s j e t role m rs ts ds]
  by (cases "reconcile_instance s j e t role m rs ts ds")
    (auto simp: with_defs fenced_def Let_def dict_simps split: option.splits if_splits)

lemma exec_fenced:
  assumes "fenced s i token" "\<not> unlocks i token x"
  shows "fenced (sched_exec s x) i token"
  using assms quarantine_fenced reconcile_fenced
  by (cases x)
    (simp_all add: fenced_cong [OF lease_ops_quarantined(1)] fenced_cong [OF lease_ops_quarantined(2)]
      fenced_cong [OF lease_ops_quarantined(3)] fenced_cong [OF lease_ops_quarantined(4)]
      fenced_cong [OF lease_ops_quarantined(5)] fenced_cong [OF lease_ops_quarantined(6)]
      fenced_cong [OF lease_ops_quarantined(7)] fenced_cong [OF lease_ops_quarantined(8)]
      fenced_cong [OF lease_ops_quarantined(9)] fenced_cong [OF lease_ops_quarantined(10)]
      fenced_cong [OF lease_ops_quarantined(11)] fenced_cong [OF lease_ops_quarantined(12)]
      fenced_cong [OF lease_ops_quarantined(13)] fenced_cong [OF lease_ops_quarantined(14)]
      fenced_cong [OF register_quarantined] del: sched_exec.simps)

lemma run_fenced:
  "fenced s i token \<Longrightarrow> \<not> (\<exists>x \<in> set xs. unlocks i token x) \<Longrightarrow> fenced (foldl sched_exec s xs) i token"
  by (induction xs arbitrary: s) (auto simp: exec_fenced simp del: sched_exec.simps)

subsection \<open>What the picks return\<close>

lemma pick_prefill_Some:
  assumes "pick_prefill_instance s registry required = (t, Some i)"
  shows "i \<in> set (prefill_candidates s registry required) \<and>
    (\<forall>j \<in> set (prefill_candidates s registry required).
       dget_or (pd_prefill_load s) i 0 \<le> dget_or (pd_prefill_load s) j 0)"
  using assms min_by_Some [of "\<lambda>k. dget_or (pd_prefill_load s) k 0" "prefill_candidates s registry required"]
  by (auto simp: pick_prefill_instance_def split: option.splits)

lemma pick_decode_Some:
  assumes "pick_decode_instance s registry now required = (t, Some i)"
  obtains f where "(i, f) \<in> set (decode_candidates s registry now required)"
    "\<forall>p \<in> set (decode_candidates s registry now required). snd p \<le> f"
  using assms max_by_Some [of snd "decode_candidates s registry now required"]
  by (fastforce simp: pick_decode_instance_def split: option.splits)

lemma pick_decode_None:
  "snd (pick_decode_instance s registry now required) = None \<longleftrightarrow> decode_candidates s registry now required = []"
  by (cases "max_by snd (decode_candidates s registry now required)") (auto simp: pick_decode_instance_def)

lemma quarantined_not_candidate:
  assumes "sched_inv s" "dhas (pd_quarantined s) i"
  shows "i \<notin> set (prefill_candidates s registry required)" "(i, f) \<notin> set (decode_candidates s registry now required)"
proof -
  show "i \<notin> set (prefill_candidates s registry required)"
    using sched_invD(9) [OF assms] by (auto simp: prefill_candidates_def map_of_eq_None_iff)
  show "(i, f) \<notin> set (decode_candidates s registry now required)"
    using sched_invD(9) [OF assms] decode_candidates_free [OF _ sched_invD(2) [OF assms(1)]] by fastforce
qed

subsection \<open>Lease operations\<close>

fun lease_op :: "sched_op \<Rightarrow> bool" where
  "lease_op (Reserve _ _ _ _ _ _) = True"
| "lease_op (Commit _) = True"
| "lease_op (Release _) = True"
| "lease_op (QuarantineSlot _) = True"
| "lease_op (ReleaseQuarantined _ _ _) = True"
| "lease_op (DecodeFinished _ _ k) = (k \<noteq> None \<and> k \<noteq> Some [])"
| "lease_op _ = False"

lemma lease_op_balanced: "sched_inv s \<Longrightarrow> lease_op x \<Longrightarrow> balanced s (sched_exec s x)"
  using reserve_balanced commit_balanced release_balanced quarantine_slot_balanced
    release_quarantined_balanced decode_finished_balanced
  by (cases x) (simp_all del: sched_exec.simps)

lemma balanced_trans: "sched_inv s \<Longrightarrow> balanced s t \<Longrightarrow> balanced t u \<Longrightarrow> balanced s u"
  unfolding balanced_def by (metis sched_invD(4))

lemma lease_run_balanced:
  "sched_inv s \<Longrightarrow> (\<forall>x \<in> set xs. lease_op x) \<Longrightarrow> balanced s (foldl sched_exec s xs)"
proof (induction xs arbitrary: s)
  case (Cons x xs)
  have b: "balanced s (sched_exec s x)" using Cons.prems by (simp add: lease_op_balanced)
  from Cons.IH [OF balanced_inv [OF b]] Cons.prems balanced_trans [OF Cons.prems(1) b] show ?case by simp
qed simp

lemma scheduler_init_inv [simp]: "sched_inv (scheduler_init config)"
  by (simp add: sched_inv_def scheduler_init_def)

subsection \<open>Properties\<close>

text \<open>
  C1.  Capacity safety: whatever operations the clients call, as long as each is admissible where it
  is called, no decode instance ever has more live leases than slots, its free count is never
  negative, and free slots and live leases together stay within its maximum.
\<close>

theorem scheduler_capacity:
  assumes "ok_run sched_exec sched_admissible (scheduler_init config) ops"
    and "s = foldl sched_exec (scheduler_init config) ops"
    and "dget (pd_decode_max_slots s) i = Some m"
  shows "\<exists>f. dget (pd_decode_free_slots s) i = Some f \<and> 0 \<le> f \<and> 0 \<le> live s i \<and> f + live s i \<le> m"
proof -
  have "sched_inv s" unfolding assms(2) by (rule sched_ops.run_inv [OF assms(1)]) simp
  from inst_ok_at [OF this, of i] assms(3) live_nonneg [of s i] show ?thesis
    by (auto simp: inst_ok_def split: option.splits)
qed

text \<open>A decode instance with two slots: one lease is taken, released after quarantine, and retaken.\<close>

definition sample_ops :: "sched_op list" where
  "sample_ops =
     [Register ''d0'' ''decode'' 2 ''e1'' [], Register ''p0'' ''prefill'' 0 ''e2'' [],
      UpdateKvUsage ''d0'' (Some \<lparr>ku_ratio = 1 / 2, ku_instance_epoch = ''e1'', ku_sampled_at = 0\<rparr>),
      Reserve None ''d0'' ''r1'' ''op1'' ''t1'' 1, Commit ''op1'', QuarantineSlot ''op1'',
      ReleaseQuarantined ''op1'' (Some ''t1'') (Some ''c1''), RestoreQuarantined ''op1'' ''t1'' ''c1'',
      PickDecode None 1 None, Adopt ''d0'' ''r2'' ''op2'' ''t2'' 1]"

lemmas sched_eval = scheduler_init_def sample_ops_def register_instance_def update_kv_usage_def
  reserve_decode_slot_def commit_decode_slot_def quarantine_decode_slot_def set_lease_def
  release_quarantined_decode_slot_def free_one_slot_def restore_quarantined_decode_slot_def retake_slot_def
  pick_decode_instance_def decode_candidates_def adopt_picked_decode_slot_def pd_config_default_def
  registry_allows_def required_ok_def sample_is_fresh_def max_by_def live_def dsum_def live_on_def
  picked_def dget_or_def slot_free_for_def Let_def

theorem scheduler_capacity_witness:
  "\<exists>f. dget (pd_decode_free_slots (foldl sched_exec (scheduler_init pd_config_default) sample_ops)) ''d0'' = Some f \<and>
     0 \<le> f \<and> 0 \<le> live (foldl sched_exec (scheduler_init pd_config_default) sample_ops) ''d0'' \<and>
     f + live (foldl sched_exec (scheduler_init pd_config_default) sample_ops) ''d0'' \<le> 2"
  by (rule scheduler_capacity [OF _ refl]) (simp_all add: sched_eval)

text \<open>
  C2.  Slot conservation: operations on leases (reserve, commit, release, quarantine, release after
  quarantine, finish) neither lose a slot nor give one back twice.  From any state in which an
  instance has nothing picked outside a lease, its free count is again exactly the maximum minus the
  leases still live, so it is full again once all leases are released.
\<close>

theorem lease_conservation:
  assumes "sched_inv s" and "dget (pd_decode_max_slots s) i = Some m" and "picked s i = 0"
    and "\<forall>x \<in> set xs. lease_op x"
  shows "dget (pd_decode_free_slots (foldl sched_exec s xs)) i = Some (m - live (foldl sched_exec s xs) i)"
proof -
  let ?t = "foldl sched_exec s xs"
  have b: "balanced s ?t" by (rule lease_run_balanced [OF assms(1,4)])
  have "dhas (pd_decode_free_slots s) i" using sched_invD(4) [OF assms(1), of i] assms(2) by simp
  with b assms(2,3) have p: "picked ?t i = 0" "dget (pd_decode_max_slots ?t) i = Some m"
    by (simp_all add: balanced_def)
  with sched_invD(4) [OF balanced_inv [OF b], of i] show ?thesis
    by (auto simp: picked_def dget_or_def split: option.splits)
qed

definition sample_sched :: pd_scheduler where
  "sample_sched = foldl sched_exec (scheduler_init pd_config_default) [Register ''d0'' ''decode'' 2 ''e1'' []]"

theorem lease_conservation_witness:
  "dget (pd_decode_free_slots (foldl sched_exec sample_sched
     [Reserve None ''d0'' ''r1'' ''op1'' ''t1'' 1, QuarantineSlot ''op1'',
      ReleaseQuarantined ''op1'' (Some ''t1'') (Some ''c1''), ReleaseQuarantined ''op1'' (Some ''t1'') (Some ''c1'')]))
     ''d0'' =
   Some (2 - live (foldl sched_exec sample_sched
     [Reserve None ''d0'' ''r1'' ''op1'' ''t1'' 1, QuarantineSlot ''op1'',
      ReleaseQuarantined ''op1'' (Some ''t1'') (Some ''c1''), ReleaseQuarantined ''op1'' (Some ''t1'') (Some ''c1'')])
     ''d0'')"
proof (rule lease_conservation)
  have "ok_run sched_exec sched_admissible (scheduler_init pd_config_default) [Register ''d0'' ''decode'' 2 ''e1'' []]"
    by (simp add: sched_eval)
  then show "sched_inv sample_sched"
    unfolding sample_sched_def by (rule sched_ops.run_inv) simp
qed (simp_all add: sample_sched_def sched_eval)


definition sample_fenced :: pd_scheduler where
  "sample_fenced = foldl sched_exec sample_sched [QuarantineInstance ''d0'' None None ''tok'' 5]"


text \<open>
  C18.  Staged releases can be rolled back: after a cleanup has released a quarantined lease, restoring
  it with the same lease and cleanup ids gives back exactly the state before the release, and
  releasing it again meanwhile changes nothing and reports \<open>False\<close>.
\<close>

theorem release_restore_roundtrip:
  assumes "sched_inv s" and "dget (pd_slot_leases s) k = Some l"
    and "ls_state l = QUARANTINED" and "ls_release_cleanup_id l = None"
    and "release_quarantined_decode_slot s k (Some (ls_lease_id l)) (Some cid) = (t, r)"
  shows "r = Inr True \<and> restore_quarantined_decode_slot t k (ls_lease_id l) cid = Inr s \<and>
    release_quarantined_decode_slot t k (Some (ls_lease_id l)) (Some cid) = (t, Inr False)"
proof -
  let ?l = "l\<lparr>ls_state := RELEASED, ls_release_cleanup_id := Some cid\<rparr>"
  have eq: "(t, r) = free_one_slot (set_lease s k ?l) (ls_instance_id l)"
    using assms by (simp add: release_quarantined_decode_slot_def)
  have r: "r = Inr True" using release_marked [OF assms(1,2), of ?l] assms(3) eq [symmetric] by simp
  have leases: "pd_slot_leases t = dput (pd_slot_leases s) k ?l"
    using eq by (simp add: free_one_slot_def split: option.splits)
  have l: "l\<lparr>ls_state := QUARANTINED, ls_release_cleanup_id := None\<rparr> = l"
    using assms(3,4) by (intro decode_slot_lease.equality) simp_all
  have undo: "retake_slot (set_lease t k l) (ls_instance_id l) = s"
  proof (cases "dget (pd_decode_free_slots s) (ls_instance_id l)")
    case None
    with eq have "t = set_lease s k ?l" by (simp add: free_one_slot_def)
    with None assms(2) show ?thesis by (simp add: retake_slot_def set_lease_def dput_same)
  next
    case (Some f)
    have m: "sched_inv (set_lease s k ?l)" "0 < picked (set_lease s k ?l) (ls_instance_id l)"
      using mark_released(1,3) [OF assms(1,2), of ?l] assms(3) Some by simp_all
    from free_one_slot_cases(2) [OF m(1) _ m(2)] Some eq
    have "t = (set_lease s k ?l)\<lparr>pd_decode_free_slots := dput (pd_decode_free_slots s) (ls_instance_id l) (f + 1)\<rparr>"
      by simp
    with Some assms(2) sched_invD(5) [OF assms(1) Some] show ?thesis
      by (simp add: retake_slot_def set_lease_def dput_same dict_simps)
  qed
  show ?thesis using r leases undo l
    by (simp add: restore_quarantined_decode_slot_def release_quarantined_decode_slot_def dict_simps)
qed

definition sample_quarantined :: pd_scheduler where
  "sample_quarantined = foldl sched_exec sample_sched [Reserve None ''d0'' ''r1'' ''op1'' ''t1'' 1, QuarantineSlot ''op1'']"

theorem release_restore_roundtrip_witness:
  "restore_quarantined_decode_slot
     (fst (release_quarantined_decode_slot sample_quarantined ''op1'' (Some ''t1'') (Some ''c1''))) ''op1'' ''t1'' ''c1'' =
   Inr sample_quarantined"
proof -
  have run: "ok_run sched_exec sched_admissible (scheduler_init pd_config_default)
      [Register ''d0'' ''decode'' 2 ''e1'' [], Reserve None ''d0'' ''r1'' ''op1'' ''t1'' 1, QuarantineSlot ''op1'']"
    by (simp add: sched_eval)
  have inv: "sched_inv sample_quarantined"
    using sched_ops.run_inv [OF run scheduler_init_inv] by (simp add: sample_quarantined_def sample_sched_def)
  obtain l where l: "dget (pd_slot_leases sample_quarantined) ''op1'' = Some l" "ls_state l = QUARANTINED"
    "ls_release_cleanup_id l = None" "ls_lease_id l = ''t1''"
    by (simp add: sample_quarantined_def sample_sched_def sched_eval)
  show ?thesis
    using release_restore_roundtrip [OF inv l(1-3) prod.collapse [symmetric], of "''c1''"] l(4) by simp
qed

text \<open>
  C17.  The decode pick: it succeeds exactly when some instance has a free slot, is allowed by the
  registry, has a usage sample of its current epoch that is fresh and below the high watermark, and
  meets the requirement of the caller; then it returns one with the most free slots and takes one of
  them.
\<close>

theorem pick_decode_best:
  assumes "sched_inv s" and "pick_decode_instance s registry now required = (t, r)"
    and "ok = (\<lambda>j. registry_allows registry j \<and> sample_is_fresh s now j \<and> required_ok required j \<and>
          (\<exists>u. dget (pd_kv_usage s) j = Some u \<and> ku_ratio u < cf_HIGH_WATERMARK (pd_config_of s)))"
  shows "case r of
      None \<Rightarrow> t = s \<and> (\<forall>j f. dget (pd_decode_free_slots s) j = Some f \<and> ok j \<longrightarrow> f \<le> 0)
    | Some i \<Rightarrow> ok i \<and> (\<exists>f. dget (pd_decode_free_slots s) i = Some f \<and> 0 < f \<and>
        (\<forall>j g. dget (pd_decode_free_slots s) j = Some g \<and> ok j \<longrightarrow> g \<le> f) \<and>
        t = s\<lparr>pd_decode_free_slots := dput (pd_decode_free_slots s) i (f - 1)\<rparr>)"
proof -
  note wf = sched_invD(2) [OF assms(1)]
  have cand: "(j, f) \<in> set (decode_candidates s registry now required) \<longleftrightarrow>
      dget (pd_decode_free_slots s) j = Some f \<and> 0 < f \<and> ok j" for j f
    using wf unfolding assms(3) by (auto simp: decode_candidates_def dict_items split: option.splits)
  show ?thesis
  proof (cases r)
    case None
    with assms(2) have "decode_candidates s registry now required = []" "t = s"
      using pick_decode_None [of s registry now required] pick_decode_cases [OF assms(1,2)] by auto
    with cand None show ?thesis by (fastforce simp: not_less [symmetric])
  next
    case (Some i)
    obtain f where f: "(i, f) \<in> set (decode_candidates s registry now required)"
      "\<forall>p \<in> set (decode_candidates s registry now required). snd p \<le> f"
      using pick_decode_Some assms(2) Some by metis
    have "g \<le> f" if "dget (pd_decode_free_slots s) j = Some g" "ok j" for j g
      using f cand [of i f] cand [of j g] that by (cases "0 < g") force+
    with Some f(1) cand pick_decode_cases [OF assms(1,2)] show ?thesis by auto
  qed
qed

theorem pick_decode_best_witness:
  "snd (pick_decode_instance (update_kv_usage sample_sched ''d0''
     (Some \<lparr>ku_ratio = 1 / 2, ku_instance_epoch = ''e1'', ku_sampled_at = 0\<rparr>)) None 1 None) = Some ''d0''"
proof -
  let ?s = "update_kv_usage sample_sched ''d0'' (Some \<lparr>ku_ratio = 1 / 2, ku_instance_epoch = ''e1'', ku_sampled_at = 0\<rparr>)"
  have run: "ok_run sched_exec sched_admissible (scheduler_init pd_config_default) [Register ''d0'' ''decode'' 2 ''e1'' []]"
    by (simp add: sched_eval)
  have inv: "sched_inv ?s"
    using sched_ops.run_inv [OF run scheduler_init_inv] by (simp add: sample_sched_def kv_usage_inv del: sched_exec.simps)
  show ?thesis
    using pick_decode_best [OF inv prod.collapse [symmetric] refl, of None 1 None]
    by (auto simp: sample_sched_def sched_eval split: option.splits)
qed

text \<open>
  The recommended number of decode instances lies between the configured bounds and never falls
  when more KV bytes are active.
\<close>

theorem decode_count_bounds:
  assumes "0 < cf_kv_per_instance_bytes c" and "cf_min_decode_instances c \<le> cf_max_decode_instances c"
    and "b \<le> b'" and "cf_min_decode_instances c \<ge> 1"
  shows "\<exists>n n'. decide_decode_instance_count c b = Inr n \<and> decide_decode_instance_count c b' = Inr n' \<and>
    cf_min_decode_instances c \<le> n \<and> n \<le> n' \<and> n' \<le> cf_max_decode_instances c \<and>
    (n < cf_max_decode_instances c \<longrightarrow> b \<le> n * cf_kv_per_instance_bytes c)"
proof -
  let ?kv = "real_of_int (cf_kv_per_instance_bytes c)"
  have mono: "\<lceil>real_of_int b / ?kv\<rceil> \<le> \<lceil>real_of_int b' / ?kv\<rceil>"
    using assms(1,3) by (intro ceiling_mono divide_right_mono) auto
  have pos: "0 < b' \<Longrightarrow> 1 \<le> \<lceil>real_of_int b' / ?kv\<rceil>" using assms(1) by simp
  have cover: "b \<le> n * cf_kv_per_instance_bytes c" if "\<lceil>real_of_int b / ?kv\<rceil> \<le> n" for n
  proof -
    from that have "real_of_int b / ?kv \<le> real_of_int n" by (simp add: ceiling_le_iff)
    then have "real_of_int b \<le> real_of_int (n * cf_kv_per_instance_bytes c)"
      using assms(1) by (simp add: pos_divide_le_eq)
    then show ?thesis by (simp only: of_int_le_iff)
  qed
  have neg: "b \<le> 0 \<Longrightarrow> 1 \<le> n \<Longrightarrow> b \<le> n * cf_kv_per_instance_bytes c" for n
    using assms(1) by (smt (verit) mult_nonneg_nonneg)
  show ?thesis
    using assms mono pos cover neg
    by (auto simp: decide_decode_instance_count_def Let_def max_def min_def)
qed

theorem decode_count_bounds_witness:
  "\<exists>n n'. decide_decode_instance_count pd_config_default 5 = Inr n \<and>
    decide_decode_instance_count pd_config_default (200 * 1024 ^ 3) = Inr n' \<and>
    cf_min_decode_instances pd_config_default \<le> n \<and> n \<le> n' \<and> n' \<le> cf_max_decode_instances pd_config_default \<and>
    (n < cf_max_decode_instances pd_config_default \<longrightarrow> 5 \<le> n * cf_kv_per_instance_bytes pd_config_default)"
  by (rule decode_count_bounds) (simp_all add: pd_config_default_def)

end
