(* ===== verification/Transfer_Governor.thy ===== *)
theory Transfer_Governor
  imports Seq_State PD_Scheduler
begin

text \<open>
  \<^verbatim>\<open>prism_serve/scheduler/transfer_governor.py\<close>: flow control of KV transfers by watermarks and byte
  caps per pair, deferred queues, and retry bookkeeping.  The inference client is a parameter: it may
  take a task over, complete it before it returns, raise, or do both, and its answer may depend on
  how many tasks it has been given before.  A completion inside the client call re-enters the
  governor (\<open>_dispatch\<close>, \<open>_on_complete\<close>, \<open>_flush_deferred\<close>), so flushing is recursive; it takes fuel,
  and one more than the number of deferred tasks is always enough.  The governor records the tasks it
  handed to the client and the callbacks it fired, oldest first.
\<close>

datatype handoff = HandedOff | CompletedInline | Raised | CompletedThenRaised

datatype gov_error = TransferDispatchError string | CallbackError string

record gov_env =
  ge_can_govern :: "(string \<Rightarrow> bool) option"
  ge_now :: time
  ge_client :: "nat \<Rightarrow> transfer_task \<Rightarrow> handoff"
  ge_callback_ok :: "transfer_task \<Rightarrow> bool"

record governor =
  gv_HIGH_WATERMARK :: real
  gv_LOW_WATERMARK :: real
  gv_MAX_BYTES_INFLIGHT_PER_PAIR :: int
  gv_kv_usage :: "(string, kv_usage_sample) dict"
  gv_expected_epochs :: "(string, string) dict"
  gv_kv_usage_stale_after_s :: real
  gv_pair_bytes_inflight :: "(string, int) dict"
  gv_bytes_inflight :: "(string, int) dict"
  gv_deferred :: "(string, transfer_task list) dict"
  gv_inflight_tasks :: "(string, transfer_task) dict"
  gv_recompute_counts :: "(string, int) dict"
  gv_max_recompute :: int
  gv_transfer_timeout_s :: real
  gv_metrics :: "metric list"
  gv_sent :: "transfer_task list"
  gv_fired :: "transfer_task list"

text \<open>The configuration keys of the constructor; the cap has a current and an old name.\<close>

record gov_config =
  gc_HIGH_WATERMARK :: "real option"
  gc_LOW_WATERMARK :: "real option"
  gc_max_bytes_inflight_per_pair :: "int option"
  gc_MAX_BYTES_INFLIGHT :: "int option"
  gc_kv_usage_stale_after_s :: "real option"
  gc_max_recompute_attempts :: "int option"
  gc_kv_transfer_timeout_s :: "real option"

definition or_else :: "'a option \<Rightarrow> 'a \<Rightarrow> 'a" where
  "or_else x d = (case x of None \<Rightarrow> d | Some v \<Rightarrow> v)"

definition governor_init :: "gov_config \<Rightarrow> governor" where
  "governor_init c =
     \<lparr>gv_HIGH_WATERMARK = or_else (gc_HIGH_WATERMARK c) (85 / 100),
      gv_LOW_WATERMARK = or_else (gc_LOW_WATERMARK c) (70 / 100),
      gv_MAX_BYTES_INFLIGHT_PER_PAIR =
        or_else (gc_max_bytes_inflight_per_pair c) (or_else (gc_MAX_BYTES_INFLIGHT c) (1024 * 1024 * 1024)),
      gv_kv_usage = [], gv_expected_epochs = [],
      gv_kv_usage_stale_after_s = or_else (gc_kv_usage_stale_after_s c) 10,
      gv_pair_bytes_inflight = [], gv_bytes_inflight = [], gv_deferred = [], gv_inflight_tasks = [],
      gv_recompute_counts = [], gv_max_recompute = or_else (gc_max_recompute_attempts c) 2,
      gv_transfer_timeout_s = or_else (gc_kv_transfer_timeout_s c) 30,
      gv_metrics = [], gv_sent = [], gv_fired = []\<rparr>"

subsection \<open>Byte ledgers\<close>

text \<open>\<open>d[k] += n\<close> and \<open>d[k] = max(0, d[k] - n)\<close> on a dictionary that defaults to zero.\<close>

definition credit_bytes :: "(string, int) dict \<Rightarrow> string \<Rightarrow> int \<Rightarrow> (string, int) dict" where
  "credit_bytes d k n = dput d k (dget_or d k 0 + n)"

definition debit_bytes :: "(string, int) dict \<Rightarrow> string \<Rightarrow> int \<Rightarrow> (string, int) dict" where
  "debit_bytes d k n = dput d k (max 0 (dget_or d k 0 - n))"

interpretation byte_ledger: counter_ledger "\<lambda>d k. dget_or d k 0" credit_bytes debit_bytes
  by unfold_locales (simp_all add: credit_bytes_def debit_bytes_def dict_simps)

definition pair_id :: "string \<Rightarrow> string \<Rightarrow> string" where
  "pair_id src dst = src @ ''--'' @ dst"

abbreviation task_pair :: "transfer_task \<Rightarrow> string" where
  "task_pair task \<equiv> pair_id (tt_src task) (tt_dst task)"

definition credit_task :: "governor \<Rightarrow> transfer_task \<Rightarrow> governor" where
  "credit_task g task =
     g\<lparr>gv_pair_bytes_inflight := credit_bytes (gv_pair_bytes_inflight g) (task_pair task) (tt_kv_size task),
       gv_bytes_inflight := credit_bytes (gv_bytes_inflight g) (tt_dst task) (tt_kv_size task)\<rparr>"

definition debit_task :: "governor \<Rightarrow> transfer_task \<Rightarrow> governor" where
  "debit_task g task =
     g\<lparr>gv_pair_bytes_inflight := debit_bytes (gv_pair_bytes_inflight g) (task_pair task) (tt_kv_size task),
       gv_bytes_inflight := debit_bytes (gv_bytes_inflight g) (tt_dst task) (tt_kv_size task)\<rparr>"

subsection \<open>Admission of one transfer\<close>

definition gov_sample_is_fresh :: "governor \<Rightarrow> time \<Rightarrow> string \<Rightarrow> bool" where
  "gov_sample_is_fresh g now instance_id =
     (case dget (gv_kv_usage g) instance_id of
        None \<Rightarrow> False
      | Some sample \<Rightarrow>
          dget (gv_expected_epochs g) instance_id = Some (ku_instance_epoch sample) \<and>
          now - ku_sampled_at sample \<le> gv_kv_usage_stale_after_s g)"

definition cap_of :: "governor \<Rightarrow> int \<Rightarrow> real" where
  "cap_of g priority = real_of_int (gv_MAX_BYTES_INFLIGHT_PER_PAIR g) * (if priority \<ge> 1 then 1 else 3 / 10)"

text \<open>
  Reading a \<open>defaultdict\<close> creates the entry.  The usage sample is present when it is fresh, so the
  missing case of the lookup is never taken.
\<close>

definition can_send ::
  "gov_env \<Rightarrow> governor \<Rightarrow> string \<Rightarrow> int \<Rightarrow> int \<Rightarrow> string option \<Rightarrow> governor \<times> bool" where
  "can_send env g dst size_bytes priority src =
     (if (case ge_can_govern env of None \<Rightarrow> False
          | Some can_govern \<Rightarrow> \<not> can_govern dst \<or> (case src of None \<Rightarrow> False | Some s \<Rightarrow> \<not> can_govern s))
      then (g, False)
      else if \<not> gov_sample_is_fresh g (ge_now env) dst then (g, False)
      else case dget (gv_kv_usage g) dst of
        None \<Rightarrow> (g, False)
      | Some sample \<Rightarrow>
          if ku_ratio sample \<ge> gv_HIGH_WATERMARK g
          then (g\<lparr>gv_metrics := gv_metrics g @ [Increment ''kv_transfer_congestion_total'' 1 [(''dst'', dst)]]\<rparr>, False)
          else
            (let cap = cap_of g priority;
                 g' = (case src of
                   Some s \<Rightarrow> g\<lparr>gv_pair_bytes_inflight := dsetdefault (gv_pair_bytes_inflight g) (pair_id s dst) 0\<rparr>
                 | None \<Rightarrow> g\<lparr>gv_bytes_inflight := dsetdefault (gv_bytes_inflight g) dst 0\<rparr>);
                 current = (case src of
                   Some s \<Rightarrow> dget_or (gv_pair_bytes_inflight g) (pair_id s dst) 0
                 | None \<Rightarrow> dget_or (gv_bytes_inflight g) dst 0)
             in if real_of_int size_bytes > cap then (g', current = 0)
                else if real_of_int (current + size_bytes) > cap then (g', False)
                else (g', True)))"

subsection \<open>Dispatch, completion and flushing\<close>

type_synonym gov_result = "(governor, gov_error, unit) outcome"

text \<open>
  \<open>self._inflight_tasks.get(task.req_id) is task\<close>: a task carries the identity of its object, so two
  equal records are the same object.
\<close>

definition is_inflight :: "governor \<Rightarrow> transfer_task \<Rightarrow> bool" where
  "is_inflight g task \<longleftrightarrow> dget (gv_inflight_tasks g) (tt_req_id task) = Some task"

definition drop_inflight :: "governor \<Rightarrow> transfer_task \<Rightarrow> governor" where
  "drop_inflight g task =
     debit_task (g\<lparr>gv_inflight_tasks := dpop (gv_inflight_tasks g) (tt_req_id task)\<rparr>) task"

text \<open>\<open>_on_complete\<close>, for a given way of flushing the deferred queue of a destination.\<close>

definition on_complete_with ::
  "(governor \<Rightarrow> string \<Rightarrow> gov_result option) \<Rightarrow> gov_env \<Rightarrow> governor \<Rightarrow> transfer_task \<Rightarrow> gov_result option" where
  "on_complete_with flush env g task =
     (if \<not> is_inflight g task then Some (g, Inr ())
      else let g' = drop_inflight g task
        in if tt_on_complete task
           then let g'' = g'\<lparr>gv_fired := gv_fired g' @ [task]\<rparr>
             in if ge_callback_ok env task then flush g'' (tt_dst task)
                else Some (g'', Inl (CallbackError (tt_req_id task)))
           else flush g' (tt_dst task))"

text \<open>\<open>_dispatch\<close>: the client call and the handler around it.\<close>

definition dispatch_failed :: "governor \<Rightarrow> transfer_task \<Rightarrow> gov_result" where
  "dispatch_failed g task =
     (if is_inflight g task then drop_inflight g task else g, Inl (TransferDispatchError (tt_req_id task)))"

definition dispatch_with ::
  "(governor \<Rightarrow> string \<Rightarrow> gov_result option) \<Rightarrow> gov_env \<Rightarrow> governor \<Rightarrow> transfer_task \<Rightarrow> gov_result option" where
  "dispatch_with flush env g task =
     (let g1 = credit_task g task;
          g2 = g1\<lparr>gv_inflight_tasks := dput (gv_inflight_tasks g1) (tt_req_id task) task,
                  gv_sent := gv_sent g1 @ [task]\<rparr>
      in case ge_client env (length (gv_sent g)) task of
           HandedOff \<Rightarrow> Some (g2, Inr ())
         | Raised \<Rightarrow> Some (dispatch_failed g2 task)
         | CompletedInline \<Rightarrow>
             (case on_complete_with flush env g2 task of
                None \<Rightarrow> None
              | Some (g3, Inr _) \<Rightarrow> Some (g3, Inr ())
              | Some (g3, Inl _) \<Rightarrow> Some (dispatch_failed g3 task))
         | CompletedThenRaised \<Rightarrow>
             (case on_complete_with flush env g2 task of
                None \<Rightarrow> None
              | Some (g3, _) \<Rightarrow> Some (dispatch_failed g3 task)))"

fun flush_deferred :: "nat \<Rightarrow> gov_env \<Rightarrow> governor \<Rightarrow> string \<Rightarrow> gov_result option" where
  "flush_deferred 0 env g dst = None"
| "flush_deferred (Suc fuel) env g dst =
     (let g0 = g\<lparr>gv_deferred := dsetdefault (gv_deferred g) dst []\<rparr>
      in case dget_or (gv_deferred g) dst [] of
           [] \<Rightarrow> Some (g0, Inr ())
         | task # q \<Rightarrow>
             (case can_send env g0 (tt_dst task) (tt_kv_size task) (tt_priority task) (Some (tt_src task)) of
                (g1, False) \<Rightarrow> Some (g1, Inr ())
              | (g1, True) \<Rightarrow>
                  (case dispatch_with (flush_deferred fuel env) env
                          (g1\<lparr>gv_deferred := dput (gv_deferred g1) dst q\<rparr>) task of
                     None \<Rightarrow> None
                   | Some (g2, Inl e) \<Rightarrow> Some (g2, Inl e)
                   | Some (g2, Inr _) \<Rightarrow> flush_deferred fuel env g2 dst)))"

definition deferred_total :: "governor \<Rightarrow> nat" where
  "deferred_total g = sum_list (map length (dvals (gv_deferred g)))"

text \<open>The operations of the class, with fuel for every deferred task.\<close>

definition flush_now :: "gov_env \<Rightarrow> governor \<Rightarrow> string \<Rightarrow> gov_result option" where
  "flush_now env g dst = flush_deferred (Suc (deferred_total g)) env g dst"

definition on_complete :: "gov_env \<Rightarrow> governor \<Rightarrow> transfer_task \<Rightarrow> gov_result option" where
  "on_complete env g task = on_complete_with (flush_now env) env g task"

definition dispatch :: "gov_env \<Rightarrow> governor \<Rightarrow> transfer_task \<Rightarrow> gov_result option" where
  "dispatch env g task = dispatch_with (flush_now env) env g task"

definition submit :: "gov_env \<Rightarrow> governor \<Rightarrow> transfer_task \<Rightarrow> gov_result option" where
  "submit env g task =
     (case can_send env g (tt_dst task) (tt_kv_size task) (tt_priority task) (Some (tt_src task)) of
        (g1, True) \<Rightarrow> dispatch env g1 task
      | (g1, False) \<Rightarrow>
          (let q = dget_or (gv_deferred g1) (tt_dst task) [] @ [task]
           in Some (g1\<lparr>gv_deferred := dput (gv_deferred g1) (tt_dst task) q,
                       gv_metrics := gv_metrics g1 @
                         [Gauge ''deferred_queue_depth'' (real (length q)) [(''dst'', tt_dst task)]]\<rparr>, Inr ())))"

definition gov_update_kv_usage :: "gov_env \<Rightarrow> governor \<Rightarrow> string \<Rightarrow> kv_usage_sample option \<Rightarrow> gov_result option" where
  "gov_update_kv_usage env g instance_id sample =
     (case sample of
        None \<Rightarrow> Some (g\<lparr>gv_kv_usage := dpop (gv_kv_usage g) instance_id\<rparr>, Inr ())
      | Some u \<Rightarrow>
          (let normalized = u\<lparr>ku_ratio := max 0 (min 1 (ku_ratio u))\<rparr>;
               g1 = g\<lparr>gv_kv_usage := dput (gv_kv_usage g) instance_id normalized\<rparr>
           in if (case dget (gv_kv_usage g) instance_id of None \<Rightarrow> False
                  | Some prev \<Rightarrow> ku_ratio prev \<ge> gv_HIGH_WATERMARK g) \<and>
                 ku_ratio normalized < gv_LOW_WATERMARK g \<and>
                 gov_sample_is_fresh g1 (ge_now env) instance_id
              then flush_now env g1 instance_id
              else Some (g1, Inr ())))"

definition set_expected_epochs :: "governor \<Rightarrow> (string, string) dict \<Rightarrow> governor" where
  "set_expected_epochs g epochs =
     g\<lparr>gv_expected_epochs := epochs,
       gv_kv_usage := filter (\<lambda>(i, u). dget epochs i = Some (ku_instance_epoch u)) (gv_kv_usage g)\<rparr>"

fun tick_dsts :: "gov_env \<Rightarrow> governor \<Rightarrow> string list \<Rightarrow> gov_result option" where
  "tick_dsts env g [] = Some (g, Inr ())"
| "tick_dsts env g (dst # dsts) =
     (if dget_or (gv_deferred g) dst [] \<noteq> []
      then case flush_now env g dst of
             None \<Rightarrow> None
           | Some (g1, Inl e) \<Rightarrow> Some (g1, Inl e)
           | Some (g1, Inr _) \<Rightarrow> tick_dsts env g1 dsts
      else tick_dsts env g dsts)"

definition tick :: "gov_env \<Rightarrow> governor \<Rightarrow> gov_result option" where
  "tick env g = tick_dsts env g (dkeys (gv_deferred g))"

subsection \<open>Ownership, cancellation and retries\<close>

definition op_matches :: "string option \<Rightarrow> transfer_task \<Rightarrow> bool" where
  "op_matches operation_id task = (case operation_id of None \<Rightarrow> True | Some k \<Rightarrow> tt_operation_id task = k)"

definition deferred_tasks :: "governor \<Rightarrow> transfer_task list" where
  "deferred_tasks g = concat (dvals (gv_deferred g))"

definition owns :: "governor \<Rightarrow> string \<Rightarrow> string \<Rightarrow> bool" where
  "owns g req_id operation_id =
     (case dget (gv_inflight_tasks g) req_id of
        Some task \<Rightarrow> tt_operation_id task = operation_id
      | None \<Rightarrow> (\<exists>task \<in> set (deferred_tasks g). tt_req_id task = req_id \<and> tt_operation_id task = operation_id))"

definition cancel_deferred ::
  "string \<Rightarrow> string option \<Rightarrow> (string, transfer_task list) dict \<Rightarrow> (string, transfer_task list) dict" where
  "cancel_deferred req_id operation_id d =
     map (\<lambda>(dst, q). (dst, filter (\<lambda>t. \<not> (tt_req_id t = req_id \<and> op_matches operation_id t)) q)) d"

definition cancel_gauges ::
  "string \<Rightarrow> string option \<Rightarrow> (string, transfer_task list) dict \<Rightarrow> metric list" where
  "cancel_gauges req_id operation_id d =
     concat (map (\<lambda>(dst, q).
       let kept = filter (\<lambda>t. \<not> (tt_req_id t = req_id \<and> op_matches operation_id t)) q
       in if length kept \<noteq> length q then [Gauge ''deferred_queue_depth'' (real (length kept)) [(''dst'', dst)]] else []) d)"

definition cancel :: "governor \<Rightarrow> string \<Rightarrow> string option \<Rightarrow> governor \<times> bool" where
  "cancel g req_id operation_id =
     (let gauges = cancel_gauges req_id operation_id (gv_deferred g);
          g1 = g\<lparr>gv_deferred := cancel_deferred req_id operation_id (gv_deferred g),
                 gv_metrics := gv_metrics g @ gauges\<rparr>
      in case dget (gv_inflight_tasks g1) req_id of
           Some task \<Rightarrow>
             if op_matches operation_id task
             then (debit_task (g1\<lparr>gv_inflight_tasks := dpop (gv_inflight_tasks g1) req_id\<rparr>) task, True)
             else (g1, gauges \<noteq> [])
         | None \<Rightarrow> (g1, gauges \<noteq> []))"

datatype task_state_name = Inflight | Deferred | NoTask

definition task_state :: "governor \<Rightarrow> string \<Rightarrow> string option \<Rightarrow> task_state_name" where
  "task_state g req_id operation_id =
     (if (case dget (gv_inflight_tasks g) req_id of None \<Rightarrow> False | Some task \<Rightarrow> op_matches operation_id task)
      then Inflight
      else if \<exists>task \<in> set (deferred_tasks g). tt_req_id task = req_id \<and> op_matches operation_id task
      then Deferred else NoTask)"

definition quarantined_transfer_totals :: "governor \<Rightarrow> string set \<Rightarrow> nat \<times> (string, int) dict" where
  "quarantined_transfer_totals g operation_ids =
     (let tasks = dvals (gv_inflight_tasks g) @ deferred_tasks g;
          matching = foldl (\<lambda>d t. dput d (tt_operation_id t) t) []
                       (filter (\<lambda>t. tt_operation_id t \<in> operation_ids) tasks)
      in (length matching,
          foldl (\<lambda>d t. dput d (task_pair t) (dget_or d (task_pair t) 0 + tt_kv_size t)) [] (dvals matching)))"

datatype retry_decision = Recompute | AbortRequest

definition on_transfer_failure ::
  "(int \<Rightarrow> string) \<Rightarrow> governor \<Rightarrow> string \<Rightarrow> string \<Rightarrow> governor \<times> retry_decision" where
  "on_transfer_failure str_of_int g req_id failure_reason =
     (let count = dget_or (gv_recompute_counts g) req_id 0
      in if count \<ge> gv_max_recompute g
         then (g\<lparr>gv_recompute_counts := dpop (gv_recompute_counts g) req_id,
                 gv_metrics := gv_metrics g @ [Increment ''kv_transfer_abort_total'' 1 [(''reason'', failure_reason)]]\<rparr>,
               AbortRequest)
         else (g\<lparr>gv_recompute_counts := dput (gv_recompute_counts g) req_id (count + 1),
                 gv_metrics := gv_metrics g @ [Increment ''kv_transfer_recompute_total'' 1
                   [(''reason'', failure_reason), (''attempt'', str_of_int (count + 1))]]\<rparr>,
               Recompute))"

definition gov_finish_request :: "governor \<Rightarrow> string \<Rightarrow> governor" where
  "gov_finish_request g req_id =
     (let g1 = fst (cancel g req_id None)
      in g1\<lparr>gv_recompute_counts := dpop (gv_recompute_counts g1) req_id\<rparr>)"

subsection \<open>Queries\<close>

definition bytes_inflight :: "governor \<Rightarrow> string \<Rightarrow> int" where
  "bytes_inflight g dst = dget_or (gv_bytes_inflight g) dst 0"

definition bytes_inflight_for_pair :: "governor \<Rightarrow> string \<Rightarrow> string \<Rightarrow> int" where
  "bytes_inflight_for_pair g src dst = dget_or (gv_pair_bytes_inflight g) (pair_id src dst) 0"

definition pair_bytes_inflight_snapshot :: "governor \<Rightarrow> (string, int) dict" where
  "pair_bytes_inflight_snapshot g = filter (\<lambda>p. snd p > 0) (gv_pair_bytes_inflight g)"

definition deferred_depth :: "governor \<Rightarrow> string \<Rightarrow> nat" where
  "deferred_depth g dst = length (dget_or (gv_deferred g) dst [])"

definition all_inflight_zero :: "governor \<Rightarrow> bool" where
  "all_inflight_zero g = (\<forall>v \<in> set (dvals (gv_bytes_inflight g)). v = 0)"

definition is_drained :: "governor \<Rightarrow> bool" where
  "is_drained g \<longleftrightarrow> all_inflight_zero g \<and> (\<forall>q \<in> set (dvals (gv_deferred g)). q = [])"

subsection \<open>The invariant of the governor\<close>

definition on_pair :: "string \<Rightarrow> transfer_task \<Rightarrow> int" where
  "on_pair p t = (if task_pair t = p then tt_kv_size t else 0)"

definition on_dst :: "string \<Rightarrow> transfer_task \<Rightarrow> int" where
  "on_dst d t = (if tt_dst t = d then tt_kv_size t else 0)"

text \<open>How often the governor holds a task of a request, deferred or in flight.\<close>

definition queued :: "string \<Rightarrow> transfer_task list \<Rightarrow> int" where
  "queued r q = int (count_list (map tt_req_id q) r)"

definition held :: "governor \<Rightarrow> string \<Rightarrow> int" where
  "held g r = dsum (queued r) (gv_deferred g) + (if dhas (gv_inflight_tasks g) r then 1 else 0)"

definition pair_balance :: "governor \<Rightarrow> string \<Rightarrow> int" where
  "pair_balance g p = dget_or (gv_pair_bytes_inflight g) p 0"

definition dst_balance :: "governor \<Rightarrow> string \<Rightarrow> int" where
  "dst_balance g d = dget_or (gv_bytes_inflight g) d 0"

text \<open>
  The ledgers are the sums over the tasks in flight; a pair is within its cap, or its whole balance
  is one oversized task.
\<close>

definition ledgers_ok :: "governor \<Rightarrow> bool" where
  "ledgers_ok g \<longleftrightarrow>
     (\<forall>p. pair_balance g p = dsum (on_pair p) (gv_inflight_tasks g)) \<and>
     (\<forall>d. dst_balance g d = dsum (on_dst d) (gv_inflight_tasks g)) \<and>
     (\<forall>p. pair_balance g p \<le> gv_MAX_BYTES_INFLIGHT_PER_PAIR g \<or>
        (\<exists>k t. dget (gv_inflight_tasks g) k = Some t \<and> task_pair t = p \<and> tt_kv_size t = pair_balance g p))"

definition tasks_ok :: "governor \<Rightarrow> bool" where
  "tasks_ok g \<longleftrightarrow>
     wf_dict (gv_inflight_tasks g) \<and> wf_dict (gv_deferred g) \<and> 0 \<le> gv_MAX_BYTES_INFLIGHT_PER_PAIR g \<and>
     (\<forall>k t. dget (gv_inflight_tasks g) k = Some t \<longrightarrow> tt_req_id t = k \<and> 0 \<le> tt_kv_size t) \<and>
     (\<forall>d q t. dget (gv_deferred g) d = Some q \<longrightarrow> t \<in> set q \<longrightarrow> tt_dst t = d \<and> 0 \<le> tt_kv_size t) \<and>
     (\<forall>r. held g r \<le> 1)"

definition gov_inv :: "governor \<Rightarrow> bool" where
  "gov_inv g \<longleftrightarrow> tasks_ok g \<and> ledgers_ok g"

definition fits :: "governor \<Rightarrow> transfer_task \<Rightarrow> bool" where
  "fits g t \<longleftrightarrow> pair_balance g (task_pair t) = 0 \<or>
     pair_balance g (task_pair t) + tt_kv_size t \<le> gv_MAX_BYTES_INFLIGHT_PER_PAIR g"

lemma governor_init_inv:
  assumes "0 \<le> gv_MAX_BYTES_INFLIGHT_PER_PAIR (governor_init c)"
  shows "gov_inv (governor_init c)"
  using assms by (simp add: gov_inv_def tasks_ok_def ledgers_ok_def governor_init_def held_def
      pair_balance_def dst_balance_def dget_or_def)

subsection \<open>One task enters or leaves the ledgers\<close>

definition enter_inflight :: "governor \<Rightarrow> transfer_task \<Rightarrow> governor" where
  "enter_inflight g t =
     (credit_task g t)\<lparr>gv_inflight_tasks := dput (gv_inflight_tasks g) (tt_req_id t) t, gv_sent := gv_sent g @ [t]\<rparr>"

lemma enter_fields [simp]:
  "gv_inflight_tasks (enter_inflight g t) = dput (gv_inflight_tasks g) (tt_req_id t) t"
  "gv_deferred (enter_inflight g t) = gv_deferred g" "gv_sent (enter_inflight g t) = gv_sent g @ [t]"
  "gv_MAX_BYTES_INFLIGHT_PER_PAIR (enter_inflight g t) = gv_MAX_BYTES_INFLIGHT_PER_PAIR g"
  "pair_balance (enter_inflight g t) p = pair_balance g p + on_pair p t"
  "dst_balance (enter_inflight g t) d = dst_balance g d + on_dst d t"
  by (simp_all add: enter_inflight_def credit_task_def pair_balance_def dst_balance_def
      byte_ledger.balance_credit on_pair_def on_dst_def)

lemma drop_fields [simp]:
  "gv_inflight_tasks (drop_inflight g t) = dpop (gv_inflight_tasks g) (tt_req_id t)"
  "gv_deferred (drop_inflight g t) = gv_deferred g" "gv_sent (drop_inflight g t) = gv_sent g"
  "gv_fired (drop_inflight g t) = gv_fired g"
  "gv_MAX_BYTES_INFLIGHT_PER_PAIR (drop_inflight g t) = gv_MAX_BYTES_INFLIGHT_PER_PAIR g"
  by (simp_all add: drop_inflight_def debit_task_def)

lemma drop_balances:
  "pair_balance (drop_inflight g t) p =
     (if p = task_pair t then max 0 (pair_balance g p - tt_kv_size t) else pair_balance g p)"
  "dst_balance (drop_inflight g t) d = (if d = tt_dst t then max 0 (dst_balance g d - tt_kv_size t) else dst_balance g d)"
  by (auto simp: drop_inflight_def debit_task_def pair_balance_def dst_balance_def byte_ledger.balance_debit)

lemma gov_invD:
  assumes "gov_inv g"
  shows "wf_dict (gv_inflight_tasks g)" "wf_dict (gv_deferred g)" "0 \<le> gv_MAX_BYTES_INFLIGHT_PER_PAIR g"
    "dget (gv_inflight_tasks g) k = Some t \<Longrightarrow> tt_req_id t = k"
    "dget (gv_inflight_tasks g) k = Some t \<Longrightarrow> 0 \<le> tt_kv_size t"
    "pair_balance g p = dsum (on_pair p) (gv_inflight_tasks g)"
    "dst_balance g d = dsum (on_dst d) (gv_inflight_tasks g)"
    "held g r \<le> 1"
  using assms by (simp_all add: gov_inv_def tasks_ok_def ledgers_ok_def)

lemma pair_cap_cases:
  "gov_inv g \<Longrightarrow> pair_balance g p \<le> gv_MAX_BYTES_INFLIGHT_PER_PAIR g \<or>
     (\<exists>k t. dget (gv_inflight_tasks g) k = Some t \<and> task_pair t = p \<and> tt_kv_size t = pair_balance g p)"
  unfolding gov_inv_def ledgers_ok_def by blast

lemma inflight_nonneg:
  assumes "gov_inv g" "v \<in> set (dvals (gv_inflight_tasks g))"
  shows "0 \<le> on_pair p v" "0 \<le> on_dst d v"
  using assms gov_invD(1,5) [OF assms(1)] by (auto simp: on_pair_def on_dst_def dvals_iff simp del: set_map)

lemma balances_nonneg:
  assumes "gov_inv g"
  shows "0 \<le> pair_balance g p" "0 \<le> dst_balance g d"
  unfolding gov_invD(6,7) [OF assms] using inflight_nonneg [OF assms] by (auto intro!: dsum_nonneg)

lemma queued_nonneg: "0 \<le> dsum (queued r) d"
  by (rule dsum_nonneg) (simp add: queued_def)

lemma drop_exact:
  assumes "gov_inv g" "dget (gv_inflight_tasks g) (tt_req_id t) = Some u" "tt_src u = tt_src t" "tt_dst u = tt_dst t"
    "tt_kv_size u = tt_kv_size t"
  shows "pair_balance (drop_inflight g t) p = pair_balance g p - on_pair p t"
    "dst_balance (drop_inflight g t) d = dst_balance g d - on_dst d t"
proof -
  have "on_pair (task_pair t) u \<le> pair_balance g (task_pair t)" "on_dst (tt_dst t) u \<le> dst_balance g (tt_dst t)"
    unfolding gov_invD(6,7) [OF assms(1)]
    using gov_invD(1) [OF assms(1)] assms(2) inflight_nonneg [OF assms(1)] by (auto intro!: dsum_ge_member)
  with assms(3-5) show "pair_balance (drop_inflight g t) p = pair_balance g p - on_pair p t"
    "dst_balance (drop_inflight g t) d = dst_balance g d - on_dst d t"
    by (auto simp: drop_balances on_pair_def on_dst_def)
qed

lemma enter_inv:
  assumes "gov_inv g" "held g (tt_req_id t) = 0" "0 \<le> tt_kv_size t" "fits g t"
  shows "gov_inv (enter_inflight g t)"
proof -
  have fresh: "dget (gv_inflight_tasks g) (tt_req_id t) = None" "dsum (queued (tt_req_id t)) (gv_deferred g) = 0"
    using assms(2) queued_nonneg [of "tt_req_id t" "gv_deferred g"] by (auto simp: held_def split: if_splits)
  have "held (enter_inflight g t) r = held g r + (if r = tt_req_id t then 1 else 0)" for r
    using fresh by (auto simp: held_def dict_simps)
  then have held: "held (enter_inflight g t) r \<le> 1" for r using assms(2) gov_invD(8) [OF assms(1), of r] by auto
  have tasks: "tasks_ok (enter_inflight g t)"
    using assms(1,3) held by (auto simp: gov_inv_def tasks_ok_def dict_simps split: if_splits)
  have sums: "dsum f (gv_inflight_tasks (enter_inflight g t)) = dsum f (gv_inflight_tasks g) + f t" for f
    using fresh(1) by (simp add: dsum_dput)
  have cap: "pair_balance (enter_inflight g t) p \<le> gv_MAX_BYTES_INFLIGHT_PER_PAIR g \<or>
      (\<exists>k u. dget (gv_inflight_tasks (enter_inflight g t)) k = Some u \<and> task_pair u = p \<and>
        tt_kv_size u = pair_balance (enter_inflight g t) p)" for p
  proof (cases "p = task_pair t")
    case True
    with assms(4) show ?thesis by (auto simp: fits_def on_pair_def dict_simps)
  next
    case False
    then have b: "on_pair p t = 0" by (simp add: on_pair_def)
    consider "pair_balance g p \<le> gv_MAX_BYTES_INFLIGHT_PER_PAIR g"
      | k u where "dget (gv_inflight_tasks g) k = Some u" "task_pair u = p" "tt_kv_size u = pair_balance g p"
      using pair_cap_cases [OF assms(1), of p] by blast
    then show ?thesis
    proof cases
      case (2 k u)
      with fresh(1) have "k \<noteq> tt_req_id t" by auto
      with 2 b show ?thesis by (auto simp: dict_simps)
    qed (simp add: b)
  qed
  show ?thesis
    unfolding gov_inv_def ledgers_ok_def sums
    using tasks cap gov_invD(6,7) [OF assms(1)] by (simp only: enter_fields) blast
qed

lemma drop_inv:
  assumes "gov_inv g" "dget (gv_inflight_tasks g) (tt_req_id t) = Some u" "tt_src u = tt_src t" "tt_dst u = tt_dst t"
    "tt_kv_size u = tt_kv_size t"
  shows "gov_inv (drop_inflight g t)"
proof -
  note ex = drop_exact [OF assms]
  have same: "on_pair p u = on_pair p t" "on_dst d u = on_dst d t" for p d
    using assms(3-5) by (simp_all add: on_pair_def on_dst_def)
  have sums: "dsum f (gv_inflight_tasks (drop_inflight g t)) = dsum f (gv_inflight_tasks g) - f u" for f
    using assms(2) gov_invD(1) [OF assms(1)] by (simp add: dsum_dpop)
  have "held (drop_inflight g t) r \<le> held g r" for r by (simp add: held_def dict_simps)
  then have "held (drop_inflight g t) r \<le> 1" for r using gov_invD(8) [OF assms(1)] by (rule order_trans)
  then have tasks: "tasks_ok (drop_inflight g t)"
    using assms(1) by (auto simp: gov_inv_def tasks_ok_def dict_simps split: if_splits)
  have cap: "pair_balance (drop_inflight g t) p \<le> gv_MAX_BYTES_INFLIGHT_PER_PAIR g \<or>
      (\<exists>k v. dget (gv_inflight_tasks (drop_inflight g t)) k = Some v \<and> task_pair v = p \<and>
        tt_kv_size v = pair_balance (drop_inflight g t) p)" for p
  proof -
    have nn: "0 \<le> on_pair p t" using gov_invD(5) [OF assms(1,2)] assms(5) by (simp add: on_pair_def)
    consider "pair_balance g p \<le> gv_MAX_BYTES_INFLIGHT_PER_PAIR g"
      | k v where "dget (gv_inflight_tasks g) k = Some v" "task_pair v = p" "tt_kv_size v = pair_balance g p"
      using pair_cap_cases [OF assms(1), of p] by blast
    then show ?thesis
    proof cases
      case 1
      with nn ex(1) show ?thesis by simp
    next
      case (2 k v)
      show ?thesis
      proof (cases "k = tt_req_id t")
        case True
        with 2 assms(2) ex(1) [of p] same(1) [of p] gov_invD(3) [OF assms(1)] show ?thesis by (simp add: on_pair_def)
      next
        case False
        then have k: "dget (gv_inflight_tasks (drop_inflight g t)) k = Some v" using 2 by (simp add: dict_simps)
        have "on_pair p v \<le> dsum (on_pair p) (gv_inflight_tasks (drop_inflight g t))"
        proof (rule dsum_ge_member [OF _ k])
          show "wf_dict (gv_inflight_tasks (drop_inflight g t))" using gov_invD(1) [OF assms(1)] by simp
          fix w
          assume "w \<in> set (dvals (gv_inflight_tasks (drop_inflight g t)))"
          then have "w \<in> set (dvals (gv_inflight_tasks g))" by (auto simp: set_dpop)
          then show "0 \<le> on_pair p w" by (rule inflight_nonneg(1) [OF assms(1)])
        qed
        then have "on_pair p v \<le> pair_balance g p - on_pair p u"
          by (simp only: sums gov_invD(6) [OF assms(1)])
        moreover have "on_pair p v = pair_balance g p" using 2 by (simp add: on_pair_def)
        ultimately have "on_pair p t = 0" using nn same(1) [of p] by simp
        with k 2 ex(1) show ?thesis by auto
      qed
    qed
  qed
  have "pair_balance (drop_inflight g t) p = dsum (on_pair p) (gv_inflight_tasks (drop_inflight g t))"
    "dst_balance (drop_inflight g t) d = dsum (on_dst d) (gv_inflight_tasks (drop_inflight g t))" for p d
    by (simp_all only: sums ex same gov_invD(6,7) [OF assms(1)])
  then show ?thesis
    unfolding gov_inv_def ledgers_ok_def drop_fields(5) by (intro conjI allI tasks cap)
qed

lemma ledgers_cong:
  assumes "ledgers_ok g" "gv_inflight_tasks h = gv_inflight_tasks g"
    "gv_MAX_BYTES_INFLIGHT_PER_PAIR h = gv_MAX_BYTES_INFLIGHT_PER_PAIR g"
    "\<And>p. pair_balance h p = pair_balance g p" "\<And>d. dst_balance h d = dst_balance g d"
  shows "ledgers_ok h"
  using assms(1) unfolding ledgers_ok_def assms(2-) .

lemma gov_inv_cong:
  assumes "gov_inv g" "gv_inflight_tasks h = gv_inflight_tasks g" "gv_deferred h = gv_deferred g"
    "gv_MAX_BYTES_INFLIGHT_PER_PAIR h = gv_MAX_BYTES_INFLIGHT_PER_PAIR g"
    "\<And>p. pair_balance h p = pair_balance g p" "\<And>d. dst_balance h d = dst_balance g d"
  shows "gov_inv h"
  using assms(1) unfolding gov_inv_def tasks_ok_def ledgers_ok_def held_def assms(2-) .

lemma balances_update [simp]:
  "pair_balance (gv_deferred_update f g) p = pair_balance g p" "dst_balance (gv_deferred_update f g) d = dst_balance g d"
  "pair_balance (gv_metrics_update m g) p = pair_balance g p" "dst_balance (gv_metrics_update m g) d = dst_balance g d"
  "pair_balance (gv_fired_update ts g) p = pair_balance g p" "dst_balance (gv_fired_update ts g) d = dst_balance g d"
  "pair_balance (gv_kv_usage_update u g) p = pair_balance g p" "dst_balance (gv_kv_usage_update u g) d = dst_balance g d"
  "pair_balance (gv_recompute_counts_update n g) p = pair_balance g p"
  "dst_balance (gv_recompute_counts_update n g) d = dst_balance g d"
  "pair_balance (gv_expected_epochs_update e g) p = pair_balance g p"
  "dst_balance (gv_expected_epochs_update e g) d = dst_balance g d"
  "pair_balance (gv_inflight_tasks_update i g) p = pair_balance g p"
  "dst_balance (gv_inflight_tasks_update i g) d = dst_balance g d"
  by (simp_all add: pair_balance_def dst_balance_def)

lemma can_send_frame [simp]:
  "gv_inflight_tasks (fst (can_send env g dst n pr src)) = gv_inflight_tasks g"
  "gv_deferred (fst (can_send env g dst n pr src)) = gv_deferred g"
  "gv_MAX_BYTES_INFLIGHT_PER_PAIR (fst (can_send env g dst n pr src)) = gv_MAX_BYTES_INFLIGHT_PER_PAIR g"
  "gv_sent (fst (can_send env g dst n pr src)) = gv_sent g"
  "gv_fired (fst (can_send env g dst n pr src)) = gv_fired g"
  "pair_balance (fst (can_send env g dst n pr src)) p = pair_balance g p"
  "dst_balance (fst (can_send env g dst n pr src)) d = dst_balance g d"
  by (auto simp: can_send_def Let_def pair_balance_def dst_balance_def dict_simps dget_or_def split: option.splits)

lemma can_send_inv: "gov_inv g \<Longrightarrow> gov_inv (fst (can_send env g dst n pr src))"
  by (rule gov_inv_cong) simp_all

lemma cap_le:
  assumes "0 \<le> gv_MAX_BYTES_INFLIGHT_PER_PAIR g"
  shows "cap_of g pr \<le> real_of_int (gv_MAX_BYTES_INFLIGHT_PER_PAIR g)"
  using assms by (simp add: cap_of_def)

lemma can_send_fits:
  assumes "can_send env g (tt_dst t) (tt_kv_size t) pr (Some (tt_src t)) = (h, True)" "0 \<le> gv_MAX_BYTES_INFLIGHT_PER_PAIR g"
  shows "fits h t"
proof -
  have f: "pair_balance h p = pair_balance g p" "gv_MAX_BYTES_INFLIGHT_PER_PAIR h = gv_MAX_BYTES_INFLIGHT_PER_PAIR g" for p
    using can_send_frame(3,6) [of env g "tt_dst t" "tt_kv_size t" pr "Some (tt_src t)"] assms(1) by simp_all
  have "pair_balance g (task_pair t) = 0 \<or> real_of_int (pair_balance g (task_pair t) + tt_kv_size t) \<le> cap_of g pr"
    using assms(1) by (auto simp: can_send_def Let_def pair_balance_def split: option.splits if_splits)
  with cap_le [OF assms(2), of pr] show ?thesis unfolding fits_def f by linarith
qed

subsection \<open>Dispatching keeps the invariant\<close>

definition keeps :: "(governor \<Rightarrow> bool) \<Rightarrow> (governor \<Rightarrow> string \<Rightarrow> gov_result option) \<Rightarrow> bool" where
  "keeps P flush \<longleftrightarrow> (\<forall>g dst h r. P g \<longrightarrow> flush g dst = Some (h, r) \<longrightarrow> P h)"

lemma keepsD: "keeps P flush \<Longrightarrow> flush g dst = Some (h, r) \<Longrightarrow> P g \<Longrightarrow> P h"
  by (auto simp: keeps_def)

lemma credit_fields:
  "gv_inflight_tasks (credit_task g t) = gv_inflight_tasks g" "gv_sent (credit_task g t) = gv_sent g"
  by (simp_all add: credit_task_def)

lemma dispatch_with_enter:
  "dispatch_with flush env g t =
     (case ge_client env (length (gv_sent g)) t of
        HandedOff \<Rightarrow> Some (enter_inflight g t, Inr ())
      | Raised \<Rightarrow> Some (dispatch_failed (enter_inflight g t) t)
      | CompletedInline \<Rightarrow>
          (case on_complete_with flush env (enter_inflight g t) t of
             None \<Rightarrow> None
           | Some (g3, Inr _) \<Rightarrow> Some (g3, Inr ())
           | Some (g3, Inl _) \<Rightarrow> Some (dispatch_failed g3 t))
      | CompletedThenRaised \<Rightarrow>
          (case on_complete_with flush env (enter_inflight g t) t of
             None \<Rightarrow> None
           | Some (g3, _) \<Rightarrow> Some (dispatch_failed g3 t)))"
  unfolding dispatch_with_def enter_inflight_def Let_def credit_fields ..

lemma fired_inv: "gov_inv g \<Longrightarrow> gov_inv (g\<lparr>gv_fired := xs\<rparr>)"
  by (rule gov_inv_cong) simp_all

lemma drop_same_inv: "gov_inv g \<Longrightarrow> is_inflight g t \<Longrightarrow> gov_inv (drop_inflight g t)"
  by (rule drop_inv [of g t t]) (simp_all add: is_inflight_def)

lemma held_deferred:
  "held (gv_deferred_update (\<lambda>_. dput d k q) g) r =
   dsum (queued r) d - dval_at (queued r) (dget d k) + queued r q + (if dhas (gv_inflight_tasks g) r then 1 else 0)"
  by (simp add: held_def dsum_dput)

lemma gov_inv_deferred:
  assumes "gov_inv g" "\<And>t. t \<in> set q \<Longrightarrow> tt_dst t = k \<and> 0 \<le> tt_kv_size t"
    "\<And>r. held (g\<lparr>gv_deferred := dput (gv_deferred g) k q\<rparr>) r \<le> 1"
  shows "gov_inv (g\<lparr>gv_deferred := dput (gv_deferred g) k q\<rparr>)"
proof -
  have "tasks_ok (g\<lparr>gv_deferred := dput (gv_deferred g) k q\<rparr>)"
    using assms unfolding gov_inv_def tasks_ok_def by (auto simp: dict_simps split: if_splits)
  moreover have "ledgers_ok (g\<lparr>gv_deferred := dput (gv_deferred g) k q\<rparr>)"
    by (rule ledgers_cong [of g]) (use assms(1) in \<open>simp_all add: gov_inv_def\<close>)
  ultimately show ?thesis by (simp add: gov_inv_def)
qed

lemma touch_inv:
  assumes "gov_inv g"
  shows "gov_inv (g\<lparr>gv_deferred := dsetdefault (gv_deferred g) k []\<rparr>)"
proof (cases "dget (gv_deferred g) k")
  case None
  have "held (g\<lparr>gv_deferred := dput (gv_deferred g) k []\<rparr>) r \<le> 1" for r
    using gov_invD(8) [OF assms, of r] None unfolding held_deferred by (simp add: held_def queued_def split: if_splits)
  with None show ?thesis using gov_inv_deferred [OF assms, of "[]" k] by (simp add: dsetdefault_def)
qed (use assms in \<open>simp add: dsetdefault_def\<close>)

lemma pop_inv:
  assumes "gov_inv g" "dget (gv_deferred g) k = Some (t # q)"
  shows "gov_inv (g\<lparr>gv_deferred := dput (gv_deferred g) k q\<rparr>)"
    "held (g\<lparr>gv_deferred := dput (gv_deferred g) k q\<rparr>) (tt_req_id t) = 0" "tt_dst t = k" "0 \<le> tt_kv_size t"
proof -
  have q: "t' \<in> set (t # q) \<Longrightarrow> tt_dst t' = k \<and> 0 \<le> tt_kv_size t'" for t'
    using assms unfolding gov_inv_def tasks_ok_def by blast
  then show "tt_dst t = k" "0 \<le> tt_kv_size t" by simp_all
  have h: "held (g\<lparr>gv_deferred := dput (gv_deferred g) k q\<rparr>) r = held g r - (if tt_req_id t = r then 1 else 0)" for r
    using assms(2) by (simp add: held_deferred) (simp add: held_def queued_def)
  have "held (g\<lparr>gv_deferred := dput (gv_deferred g) k q\<rparr>) r \<le> 1" for r
    unfolding h using gov_invD(8) [OF assms(1), of r] by simp
  with q show "gov_inv (g\<lparr>gv_deferred := dput (gv_deferred g) k q\<rparr>)" by (intro gov_inv_deferred [OF assms(1)]) auto
  have "queued (tt_req_id t) (t # q) \<le> dsum (queued (tt_req_id t)) (gv_deferred g)"
    using assms(2) gov_invD(2) [OF assms(1)] by (intro dsum_ge_member) (auto simp: queued_def)
  then have "held g (tt_req_id t) = 1"
    using gov_invD(8) [OF assms(1), of "tt_req_id t"] by (auto simp: held_def queued_def split: if_splits)
  then show "held (g\<lparr>gv_deferred := dput (gv_deferred g) k q\<rparr>) (tt_req_id t) = 0" unfolding h by simp
qed

text \<open>One round of the flush loop, with its three outcomes.\<close>

declare flush_deferred.simps [simp del]

lemma flush_round:
  "dget_or (gv_deferred g) dst [] = [] \<Longrightarrow>
     flush_deferred (Suc n) env g dst = Some (g\<lparr>gv_deferred := dsetdefault (gv_deferred g) dst []\<rparr>, Inr ())"
  "dget (gv_deferred g) dst = Some (t # q) \<Longrightarrow>
     can_send env g (tt_dst t) (tt_kv_size t) (tt_priority t) (Some (tt_src t)) = (g1, False) \<Longrightarrow>
     flush_deferred (Suc n) env g dst = Some (g1, Inr ())"
  "dget (gv_deferred g) dst = Some (t # q) \<Longrightarrow>
     can_send env g (tt_dst t) (tt_kv_size t) (tt_priority t) (Some (tt_src t)) = (g1, True) \<Longrightarrow>
     dispatch_with (flush_deferred n env) env (g1\<lparr>gv_deferred := dput (gv_deferred g) dst q\<rparr>) t = res \<Longrightarrow>
     flush_deferred (Suc n) env g dst =
       (case res of None \<Rightarrow> None | Some (g2, Inl e) \<Rightarrow> Some (g2, Inl e) | Some (g2, Inr _) \<Rightarrow> flush_deferred n env g2 dst)"
proof -
  assume "dget_or (gv_deferred g) dst [] = []"
  then show "flush_deferred (Suc n) env g dst = Some (g\<lparr>gv_deferred := dsetdefault (gv_deferred g) dst []\<rparr>, Inr ())"
    by (simp add: flush_deferred.simps Let_def)
next
  assume d: "dget (gv_deferred g) dst = Some (t # q)"
    and c: "can_send env g (tt_dst t) (tt_kv_size t) (tt_priority t) (Some (tt_src t)) = (g1, False)"
  from d have "g\<lparr>gv_deferred := dsetdefault (gv_deferred g) dst []\<rparr> = g" by (simp add: dsetdefault_def)
  with d c show "flush_deferred (Suc n) env g dst = Some (g1, Inr ())"
    by (simp add: flush_deferred.simps Let_def dget_or_def)
next
  assume d: "dget (gv_deferred g) dst = Some (t # q)"
    and c: "can_send env g (tt_dst t) (tt_kv_size t) (tt_priority t) (Some (tt_src t)) = (g1, True)"
    and e: "dispatch_with (flush_deferred n env) env (g1\<lparr>gv_deferred := dput (gv_deferred g) dst q\<rparr>) t = res"
  from d have "g\<lparr>gv_deferred := dsetdefault (gv_deferred g) dst []\<rparr> = g" by (simp add: dsetdefault_def)
  moreover have "gv_deferred g1 = gv_deferred g"
    using can_send_frame(2) [of env g "tt_dst t" "tt_kv_size t" "tt_priority t" "Some (tt_src t)"] c by simp
  ultimately show "flush_deferred (Suc n) env g dst =
       (case res of None \<Rightarrow> None | Some (g2, Inl e) \<Rightarrow> Some (g2, Inl e) | Some (g2, Inr _) \<Rightarrow> flush_deferred n env g2 dst)"
    using d c e by (simp add: flush_deferred.simps Let_def dget_or_def)
qed

abbreviation can_send_task :: "gov_env \<Rightarrow> governor \<Rightarrow> transfer_task \<Rightarrow> governor \<times> bool" where
  "can_send_task env g t \<equiv> can_send env g (tt_dst t) (tt_kv_size t) (tt_priority t) (Some (tt_src t))"

lemma flush_cases:
  assumes "flush_deferred (Suc n) env g dst = Some (h, r)"
  obtains (idle) "dget_or (gv_deferred g) dst [] = []" "h = g\<lparr>gv_deferred := dsetdefault (gv_deferred g) dst []\<rparr>" "r = Inr ()"
  | (blocked) t q where "dget (gv_deferred g) dst = Some (t # q)" "can_send_task env g t = (h, False)" "r = Inr ()"
  | (sent) t q g1 g2 r2 where "dget (gv_deferred g) dst = Some (t # q)" "can_send_task env g t = (g1, True)"
      "dispatch_with (flush_deferred n env) env (g1\<lparr>gv_deferred := dput (gv_deferred g) dst q\<rparr>) t = Some (g2, r2)"
      "r2 = Inr () \<Longrightarrow> flush_deferred n env g2 dst = Some (h, r)" "r2 \<noteq> Inr () \<Longrightarrow> h = g2 \<and> r = r2"
proof (cases "dget_or (gv_deferred g) dst []")
  case Nil
  with assms idle show ?thesis by (simp add: flush_round(1))
next
  case (Cons t q)
  then have d: "dget (gv_deferred g) dst = Some (t # q)" by (simp add: dget_or_def split: option.splits)
  obtain g1 b where c: "can_send_task env g t = (g1, b)" by (cases "can_send_task env g t")
  show ?thesis
  proof (cases b)
    case False
    with c have c': "can_send_task env g t = (g1, False)" by simp
    with assms flush_round(2) [OF d c'] have "h = g1" "r = Inr ()" by simp_all
    with d c' blocked show ?thesis by simp
  next
    case True
    let ?d = "dispatch_with (flush_deferred n env) env (g1\<lparr>gv_deferred := dput (gv_deferred g) dst q\<rparr>) t"
    from True c have c': "can_send_task env g t = (g1, True)" by simp
    note eq = flush_round(3) [OF d c' refl, of n]
    then obtain g2 r2 where d2: "?d = Some (g2, r2)" using assms by (auto split: option.splits)
    have "r2 = Inr () \<Longrightarrow> flush_deferred n env g2 dst = Some (h, r)" "r2 \<noteq> Inr () \<Longrightarrow> h = g2 \<and> r = r2"
      using eq d2 assms by (cases r2; simp)+
    with d c' d2 show ?thesis by (intro sent)
  qed
qed

lemma can_send_task_frame:
  assumes "can_send_task env g t = (g1, b)"
  shows "gv_inflight_tasks g1 = gv_inflight_tasks g" "gv_deferred g1 = gv_deferred g" "gv_sent g1 = gv_sent g"
    "gv_fired g1 = gv_fired g" "gov_inv g \<Longrightarrow> gov_inv g1"
  using can_send_frame [of env g "tt_dst t" "tt_kv_size t" "tt_priority t" "Some (tt_src t)"] assms
    can_send_inv [of g env "tt_dst t" "tt_kv_size t" "tt_priority t" "Some (tt_src t)"] by simp_all

text \<open>
  What survives the primitive steps of the governor survives its loop: a task that leaves the ledgers,
  a callback that fires, an admission test, and the front of a queue that enters the ledgers.
\<close>

locale flush_invariant =
  fixes P :: "governor \<Rightarrow> bool"
  assumes drop_keeps: "P g \<Longrightarrow> is_inflight g t \<Longrightarrow> P (drop_inflight g t)"
    and fired_keeps: "P g \<Longrightarrow> P (g\<lparr>gv_fired := ts\<rparr>)"
    and touch_keeps: "P g \<Longrightarrow> P (g\<lparr>gv_deferred := dsetdefault (gv_deferred g) dst []\<rparr>)"
    and test_keeps: "P g \<Longrightarrow> P (fst (can_send_task env g t))"
    and front_keeps: "P g \<Longrightarrow> dget (gv_deferred g) dst = Some (t # q) \<Longrightarrow> can_send_task env g t = (h, True) \<Longrightarrow>
      P (enter_inflight (h\<lparr>gv_deferred := dput (gv_deferred g) dst q\<rparr>) t)"
begin

lemma dispatch_failed_keeps: "P g \<Longrightarrow> P (fst (dispatch_failed g t))"
  by (simp add: dispatch_failed_def drop_keeps)

lemma on_complete_keeps:
  assumes "keeps P flush" "P g" "on_complete_with flush env g t = Some (h, r)"
  shows "P h"
  using assms keepsD [OF assms(1)] drop_keeps [OF assms(2)] fired_keeps
  by (auto simp: on_complete_with_def Let_def split: if_splits)

lemma dispatch_keeps:
  assumes "keeps P flush" "P (enter_inflight g t)" "dispatch_with flush env g t = Some (h, r)"
  shows "P h"
proof -
  note f = dispatch_failed_keeps
  from assms(3) show ?thesis
    unfolding dispatch_with_enter
    by (auto split: handoff.splits option.splits sum.splits prod.splits
        dest!: on_complete_keeps [OF assms(1,2)] intro: assms(2) simp: prod_eq_iff dest: f)
      (metis assms(2) f fst_conv)+
qed

lemma flush_keeps: "keeps P (flush_deferred n env)"
proof (induction n)
  case 0
  then show ?case by (simp add: keeps_def flush_deferred.simps)
next
  case (Suc n)
  have "P h" if g: "P g" and f: "flush_deferred (Suc n) env g dst = Some (h, r)" for g dst h r
    using f
  proof (cases rule: flush_cases)
    case idle
    with touch_keeps [OF g] show ?thesis by simp
  next
    case (blocked t q)
    with test_keeps [OF g, of env t] show ?thesis by simp
  next
    case (sent t q g1 g2 r2)
    from dispatch_keeps [OF Suc.IH front_keeps [OF g sent(1,2)] sent(3)] have "P g2" .
    with sent(4,5) keepsD [OF Suc.IH] show ?thesis by (cases "r2 = Inr ()") auto
  qed
  then show ?case unfolding keeps_def by blast
qed

lemma flush_now_keeps: "keeps P (flush_now env)"
  unfolding keeps_def flush_now_def by (intro allI impI) (erule keepsD [OF flush_keeps, rotated])

lemma tick_dsts_keeps: "tick_dsts env g dsts = Some (h, r) \<Longrightarrow> P g \<Longrightarrow> P h"
  by (induction env g dsts rule: tick_dsts.induct)
    (auto split: if_splits option.splits sum.splits dest: keepsD [OF flush_now_keeps])

lemma tick_keeps: "tick env g = Some (h, r) \<Longrightarrow> P g \<Longrightarrow> P h"
  unfolding tick_def by (rule tick_dsts_keeps)

lemma complete_keeps: "on_complete env g t = Some (h, r) \<Longrightarrow> P g \<Longrightarrow> P h"
  unfolding on_complete_def using on_complete_keeps [OF flush_now_keeps] by blast

end

lemma front_enters:
  assumes "gov_inv g" "dget (gv_deferred g) dst = Some (t # q)" "can_send_task env g t = (g1, True)"
  shows "gov_inv (enter_inflight (g1\<lparr>gv_deferred := dput (gv_deferred g) dst q\<rparr>) t)"
proof -
  note g1 = can_send_task_frame [OF assms(3)]
  have d1: "dget (gv_deferred g1) dst = Some (t # q)" using assms(2) g1(2) by simp
  note p = pop_inv [OF g1(5) [OF assms(1)] d1, unfolded g1(2)]
  have "fits g1 t" using can_send_fits [OF assms(3)] gov_invD(3) [OF assms(1)] by simp
  then have "fits (g1\<lparr>gv_deferred := dput (gv_deferred g) dst q\<rparr>) t" by (simp add: fits_def)
  then show ?thesis by (rule enter_inv [OF p(1,2,4)])
qed

interpretation ledger_flush: flush_invariant gov_inv
  by unfold_locales (auto intro: drop_same_inv fired_inv touch_inv can_send_inv front_enters)

text \<open>A request without a task stays without one, whatever the flushes send.\<close>

definition free_of :: "string \<Rightarrow> governor \<Rightarrow> bool" where
  "free_of r g \<longleftrightarrow> gov_inv g \<and> held g r = 0"

lemma held_cong:
  "gv_inflight_tasks h = gv_inflight_tasks g \<Longrightarrow> gv_deferred h = gv_deferred g \<Longrightarrow> held h r = held g r"
  by (simp add: held_def)

lemma held_nonneg: "0 \<le> held g r"
  using queued_nonneg [of r "gv_deferred g"] by (simp add: held_def)

lemma held_drop: "held (drop_inflight g t) r = held g r - (if r = tt_req_id t \<and> dhas (gv_inflight_tasks g) r then 1 else 0)"
  by (simp add: held_def dict_simps)

lemma held_touch: "held (g\<lparr>gv_deferred := dsetdefault (gv_deferred g) dst []\<rparr>) r = held g r"
  by (auto simp: held_def dsetdefault_def dsum_dput queued_def)

lemma front_not_inflight:
  assumes "gov_inv g" "dget (gv_deferred g) dst = Some (t # q)"
  shows "dget (gv_inflight_tasks g) (tt_req_id t) = None"
proof -
  have "queued (tt_req_id t) (t # q) \<le> dsum (queued (tt_req_id t)) (gv_deferred g)"
    using assms(2) gov_invD(2) [OF assms(1)] by (intro dsum_ge_member) (auto simp: queued_def)
  then show ?thesis
    using gov_invD(8) [OF assms(1), of "tt_req_id t"] by (auto simp: held_def queued_def split: if_splits)
qed

lemma held_front:
  assumes "gov_inv g" "dget (gv_deferred g) dst = Some (t # q)" "gv_inflight_tasks h = gv_inflight_tasks g"
  shows "held (enter_inflight (h\<lparr>gv_deferred := dput (gv_deferred g) dst q\<rparr>) t) r = held g r"
  using assms(2,3) front_not_inflight [OF assms(1,2)]
  by (auto simp: held_def dsum_dput queued_def dict_simps)

lemma free_dropped: "free_of r g \<Longrightarrow> is_inflight g t \<Longrightarrow> free_of r (drop_inflight g t)"
  unfolding free_of_def using drop_same_inv [of g t] queued_nonneg [of r "gv_deferred g"]
  by (auto simp: held_def dict_simps split: if_splits)

lemma free_front:
  assumes "free_of r g" "dget (gv_deferred g) dst = Some (t # q)" "can_send_task env g t = (h, True)"
  shows "free_of r (enter_inflight (h\<lparr>gv_deferred := dput (gv_deferred g) dst q\<rparr>) t)"
  using assms front_enters [OF _ assms(2,3)] held_front [OF _ assms(2) can_send_task_frame(1) [OF assms(3)]]
  by (simp add: free_of_def)

interpretation free_flush: flush_invariant "free_of r" for r
proof unfold_locales
  show "free_of r (g\<lparr>gv_fired := ts\<rparr>)" if "free_of r g" for g ts
    using that held_cong [of "g\<lparr>gv_fired := ts\<rparr>" g r] by (simp add: free_of_def fired_inv)
  show "free_of r (g\<lparr>gv_deferred := dsetdefault (gv_deferred g) dst []\<rparr>)" if "free_of r g" for g dst
    using that by (simp add: free_of_def touch_inv held_touch)
  show "free_of r (fst (can_send_task env g t))" if "free_of r g" for env g t
    using that held_cong [of "fst (can_send_task env g t)" g r] by (simp add: free_of_def can_send_inv)
qed (auto intro: free_dropped free_front)

subsection \<open>Flushing ends\<close>

lemma int_deferred_total: "int (deferred_total g) = dsum (\<lambda>q. int (length q)) (gv_deferred g)"
proof -
  have "int (sum_list (map length xs)) = sum_list (map (\<lambda>q. int (length q)) xs)" for xs :: "transfer_task list list"
    by (induction xs) auto
  then show ?thesis unfolding deferred_total_def dsum_def .
qed

lemma deferred_total_cong: "gv_deferred h = gv_deferred g \<Longrightarrow> deferred_total h = deferred_total g"
  by (simp add: deferred_total_def)

lemma deferred_total_pop:
  assumes "dget (gv_deferred g) dst = Some (t # q)" "gv_deferred h = dput (gv_deferred g) dst q"
  shows "Suc (deferred_total h) = deferred_total g"
proof -
  have "int (Suc (deferred_total h)) = int (deferred_total g)"
    using assms by (simp add: int_deferred_total dsum_dput)
  then show ?thesis by (simp only: of_nat_eq_iff)
qed

lemma deferred_total_touch:
  "deferred_total (g\<lparr>gv_deferred := dsetdefault (gv_deferred g) dst []\<rparr>) = deferred_total g"
proof -
  have "int (deferred_total (g\<lparr>gv_deferred := dsetdefault (gv_deferred g) dst []\<rparr>)) = int (deferred_total g)"
    by (auto simp: int_deferred_total dsetdefault_def dsum_dput)
  then show ?thesis by (simp only: of_nat_eq_iff)
qed

text \<open>A flush returns when the fuel exceeds the number of deferred tasks, and defers no new ones.\<close>

definition returns_below :: "nat \<Rightarrow> (governor \<Rightarrow> string \<Rightarrow> gov_result option) \<Rightarrow> bool" where
  "returns_below n flush \<longleftrightarrow>
     (\<forall>g dst. deferred_total g < n \<longrightarrow> (\<exists>h r. flush g dst = Some (h, r) \<and> deferred_total h \<le> deferred_total g))"

lemma returns_belowD:
  assumes "returns_below n flush" "deferred_total g < n"
  shows "\<exists>h r. flush g dst = Some (h, r) \<and> deferred_total h \<le> deferred_total g"
  using assms unfolding returns_below_def by blast

lemma on_complete_returns:
  assumes "returns_below n flush" "deferred_total g < n"
  shows "\<exists>h r. on_complete_with flush env g t = Some (h, r) \<and> deferred_total h \<le> deferred_total g"
proof -
  let ?g = "drop_inflight g t" and ?f = "(drop_inflight g t)\<lparr>gv_fired := gv_fired (drop_inflight g t) @ [t]\<rparr>"
  have eq: "deferred_total ?g = deferred_total g" "deferred_total ?f = deferred_total g"
    by (rule deferred_total_cong, simp)+
  have lt: "deferred_total ?g < n" "deferred_total ?f < n" using eq assms(2) by simp_all
  from returns_belowD [OF assms(1) lt(1), of "tt_dst t"] obtain h1 r1 where
    1: "flush ?g (tt_dst t) = Some (h1, r1)" "deferred_total h1 \<le> deferred_total g" unfolding eq by blast
  from returns_belowD [OF assms(1) lt(2), of "tt_dst t"] obtain h2 r2 where
    2: "flush ?f (tt_dst t) = Some (h2, r2)" "deferred_total h2 \<le> deferred_total g" unfolding eq by blast
  show ?thesis unfolding on_complete_with_def Let_def using 1 2 eq
    by (cases "is_inflight g t"; cases "tt_on_complete t"; cases "ge_callback_ok env t") simp_all
qed

lemma dispatch_failed_total: "deferred_total (fst (dispatch_failed g t)) = deferred_total g"
  by (simp add: dispatch_failed_def deferred_total_def)

lemma dispatch_returns:
  assumes "returns_below n flush" "deferred_total g < n"
  shows "\<exists>h r. dispatch_with flush env g t = Some (h, r) \<and> deferred_total h \<le> deferred_total g"
proof -
  have e: "deferred_total (enter_inflight g t) = deferred_total g" by (rule deferred_total_cong) simp
  have lt: "deferred_total (enter_inflight g t) < n" using e assms(2) by simp
  from on_complete_returns [OF assms(1) lt, of env t] obtain g3 r3 where
    c: "on_complete_with flush env (enter_inflight g t) t = Some (g3, r3)" "deferred_total g3 \<le> deferred_total g"
    unfolding e by blast
  have f: "\<exists>h r. Some (dispatch_failed k t) = Some (h, r) \<and> deferred_total h \<le> deferred_total g"
    if "deferred_total k \<le> deferred_total g" for k
    using that dispatch_failed_total [of k t] by (cases "dispatch_failed k t") simp
  show ?thesis unfolding dispatch_with_enter
    using c e f [OF c(2)] f [of "enter_inflight g t"] by (cases "ge_client env (length (gv_sent g)) t"; cases r3) simp_all
qed

lemma flush_returns: "returns_below n (flush_deferred n env)"
proof (induction n)
  case 0
  then show ?case by (simp add: returns_below_def)
next
  case (Suc n)
  have step: "\<exists>h r. flush_deferred (Suc n) env g dst = Some (h, r) \<and> deferred_total h \<le> deferred_total g"
    if lt: "deferred_total g < Suc n" for g dst
  proof (cases "dget_or (gv_deferred g) dst []")
    case Nil
    then show ?thesis by (simp add: flush_round(1) deferred_total_touch)
  next
    case (Cons t q)
    then have d: "dget (gv_deferred g) dst = Some (t # q)" by (simp add: dget_or_def split: option.splits)
    obtain g1 b where c: "can_send_task env g t = (g1, b)" by (cases "can_send_task env g t")
    note g1 = can_send_task_frame [OF c]
    show ?thesis
    proof (cases b)
      case False
      then have "flush_deferred (Suc n) env g dst = Some (g1, Inr ())" using flush_round(2) [OF d] c by simp
      with deferred_total_cong [OF g1(2)] show ?thesis by simp
    next
      case True
      let ?p = "g1\<lparr>gv_deferred := dput (gv_deferred g) dst q\<rparr>"
      have p: "Suc (deferred_total ?p) = deferred_total g" by (rule deferred_total_pop [OF d]) simp
      then have pl: "deferred_total ?p < n" using lt by simp
      from dispatch_returns [OF Suc.IH pl, of env t] obtain g2 r2 where
        g2: "dispatch_with (flush_deferred n env) env ?p t = Some (g2, r2)" "deferred_total g2 \<le> deferred_total ?p"
        by blast
      then have gl: "deferred_total g2 < n" using pl by simp
      from returns_belowD [OF Suc.IH gl, of dst] obtain h r where
        h: "flush_deferred n env g2 dst = Some (h, r)" "deferred_total h \<le> deferred_total g2" by blast
      have "flush_deferred (Suc n) env g dst =
          (case r2 of Inl e \<Rightarrow> Some (g2, Inl e) | Inr _ \<Rightarrow> Some (h, r))"
        using flush_round(3) [OF d _ g2(1)] c True h(1) by (cases r2) simp_all
      with g2(2) h(2) p show ?thesis by (cases r2) simp_all
    qed
  qed
  show ?case unfolding returns_below_def by (intro allI impI) (rule step)
qed

lemma flush_now_returns: "\<exists>h r. flush_now env g dst = Some (h, r) \<and> deferred_total h \<le> deferred_total g"
  unfolding flush_now_def by (rule returns_belowD [OF flush_returns]) simp

lemma flush_now_below: "returns_below n (flush_now env)"
  unfolding returns_below_def by (intro allI impI flush_now_returns)

subsection \<open>Flushing sends the front of the queue\<close>

definition front_sent :: "governor \<Rightarrow> governor \<Rightarrow> string \<Rightarrow> transfer_task list \<Rightarrow> bool" where
  "front_sent g h dst ts \<longleftrightarrow>
     gv_sent h = gv_sent g @ ts \<and> dget_or (gv_deferred g) dst [] = ts @ dget_or (gv_deferred h) dst [] \<and>
     (\<forall>d. d \<noteq> dst \<longrightarrow> dget_or (gv_deferred h) d [] = dget_or (gv_deferred g) d [])"

definition one_dst :: "governor \<Rightarrow> string \<Rightarrow> bool" where
  "one_dst g dst \<longleftrightarrow> (\<forall>t \<in> set (dget_or (gv_deferred g) dst []). tt_dst t = dst)"

definition sends_front :: "(governor \<Rightarrow> string \<Rightarrow> gov_result option) \<Rightarrow> bool" where
  "sends_front flush \<longleftrightarrow>
     (\<forall>g dst h r. one_dst g dst \<longrightarrow> flush g dst = Some (h, r) \<longrightarrow> (\<exists>ts. front_sent g h dst ts))"

lemma sends_frontD: "sends_front flush \<Longrightarrow> one_dst g dst \<Longrightarrow> flush g dst = Some (h, r) \<Longrightarrow> \<exists>ts. front_sent g h dst ts"
  unfolding sends_front_def by blast

lemma front_refl: "front_sent g g dst []"
  by (simp add: front_sent_def)

lemma front_same:
  "gv_sent h = gv_sent g \<Longrightarrow> gv_deferred h = gv_deferred g \<Longrightarrow> front_sent h k dst ts = front_sent g k dst ts"
  "gv_sent h = gv_sent g \<Longrightarrow> gv_deferred h = gv_deferred g \<Longrightarrow> front_sent k h dst ts = front_sent k g dst ts"
  "gv_deferred h = gv_deferred g \<Longrightarrow> one_dst h dst = one_dst g dst"
  by (simp_all add: front_sent_def one_dst_def)

lemma front_trans: "front_sent g h dst ts \<Longrightarrow> front_sent h k dst us \<Longrightarrow> front_sent g k dst (ts @ us)"
  by (simp add: front_sent_def)

lemma front_one_dst: "front_sent g h dst ts \<Longrightarrow> one_dst g dst \<Longrightarrow> one_dst h dst"
  by (auto simp: front_sent_def one_dst_def)

lemma on_complete_front:
  assumes "sends_front flush" "one_dst g dst" "tt_dst t = dst" "on_complete_with flush env g t = Some (h, r)"
  shows "\<exists>ts. front_sent g h dst ts"
proof -
  have f: "flush k dst = Some (h, r) \<Longrightarrow> \<exists>ts. front_sent g h dst ts"
    if "gv_sent k = gv_sent g" "gv_deferred k = gv_deferred g" for k
    using sends_frontD [OF assms(1), of k dst h r] front_same(1) [OF that] front_same(3) [OF that(2)] assms(2) by blast
  have s: "\<exists>ts. front_sent g k dst ts" if "gv_sent k = gv_sent g" "gv_deferred k = gv_deferred g" for k
    using front_same(2) [OF that, of g dst "[]"] front_refl by blast
  let ?d = "drop_inflight g t"
  show ?thesis
    using assms(3,4) f [of ?d] f [of "?d\<lparr>gv_fired := gv_fired g @ [t]\<rparr>"] s [of g] s [of "?d\<lparr>gv_fired := gv_fired g @ [t]\<rparr>"]
    unfolding on_complete_with_def Let_def by (simp split: if_splits) blast+
qed

lemma dispatch_failed_front: "front_sent g (fst (dispatch_failed h t)) dst ts = front_sent g h dst ts"
  by (rule front_same(2)) (simp_all add: dispatch_failed_def)

lemma dispatch_front:
  assumes "sends_front flush" "one_dst g dst" "tt_dst t = dst" "dispatch_with flush env g t = Some (h, r)"
  shows "\<exists>ts. gv_sent h = gv_sent g @ t # ts \<and> dget_or (gv_deferred g) dst [] = ts @ dget_or (gv_deferred h) dst [] \<and>
    (\<forall>d. d \<noteq> dst \<longrightarrow> dget_or (gv_deferred h) d [] = dget_or (gv_deferred g) d [])"
proof -
  let ?e = "enter_inflight g t"
  have e: "one_dst ?e dst" using assms(2) by (simp add: one_dst_def)
  have "\<exists>ts. front_sent ?e h dst ts"
  proof (cases "ge_client env (length (gv_sent g)) t")
    case HandedOff
    with assms(4) show ?thesis using front_refl by (auto simp: dispatch_with_enter)
  next
    case Raised
    with assms(4) have "h = fst (dispatch_failed ?e t)" by (simp add: dispatch_with_enter)
    with dispatch_failed_front front_refl show ?thesis by blast
  next
    case CompletedInline
    with assms(4) obtain k s where k: "on_complete_with flush env ?e t = Some (k, s)"
      "h = k \<or> h = fst (dispatch_failed k t)"
      by (auto simp: dispatch_with_enter split: option.splits sum.splits)
    from on_complete_front [OF assms(1) e assms(3) k(1)] k(2) dispatch_failed_front show ?thesis by blast
  next
    case CompletedThenRaised
    with assms(4) obtain k s where k: "on_complete_with flush env ?e t = Some (k, s)" "h = fst (dispatch_failed k t)"
      by (auto simp: dispatch_with_enter split: option.splits)
    from on_complete_front [OF assms(1) e assms(3) k(1)] k(2) dispatch_failed_front show ?thesis by blast
  qed
  then show ?thesis by (simp add: front_sent_def)
qed

lemma flush_sends_front: "sends_front (flush_deferred n env)"
proof (induction n)
  case 0
  then show ?case by (simp add: sends_front_def flush_deferred.simps)
next
  case (Suc n)
  have step: "\<exists>ts. front_sent g h dst ts" if g: "one_dst g dst" and f: "flush_deferred (Suc n) env g dst = Some (h, r)" for g dst h r
    using f
  proof (cases rule: flush_cases)
    case idle
    then have "front_sent g h dst []" by (auto simp: front_sent_def dict_simps dget_or_def split: option.splits)
    then show ?thesis ..
  next
    case (blocked t q)
    from can_send_task_frame(2,3) [OF blocked(2)] have "front_sent g h dst []" by (simp add: front_sent_def)
    then show ?thesis ..
  next
    case (sent t q g1 g2 r2)
    let ?p = "g1\<lparr>gv_deferred := dput (gv_deferred g) dst q\<rparr>"
    have q: "dget_or (gv_deferred g) dst [] = t # q" using sent(1) by (simp add: dget_or_def)
    have p: "one_dst ?p dst" "tt_dst t = dst" using g q by (simp_all add: one_dst_def dict_simps)
    from dispatch_front [OF Suc.IH p sent(3)] obtain ts where ts: "gv_sent g2 = gv_sent ?p @ t # ts"
      "dget_or (gv_deferred ?p) dst [] = ts @ dget_or (gv_deferred g2) dst []"
      "\<forall>d. d \<noteq> dst \<longrightarrow> dget_or (gv_deferred g2) d [] = dget_or (gv_deferred ?p) d []" by blast
    have g2: "front_sent g g2 dst (t # ts)"
      using ts q can_send_task_frame(3) [OF sent(2)] by (simp add: front_sent_def dict_simps)
    show ?thesis
    proof (cases "r2 = Inr ()")
      case True
      from sends_frontD [OF Suc.IH front_one_dst [OF g2 g] sent(4) [OF True]] front_trans [OF g2] show ?thesis by blast
    next
      case False
      with sent(5) g2 show ?thesis by blast
    qed
  qed
  show ?case unfolding sends_front_def using step by blast
qed

text \<open>A flush that ends normally has emptied the queue or stopped at a task that may not be sent.\<close>

lemma can_send_answer:
  assumes "dget_or p (task_pair t) 0 = dget_or (gv_pair_bytes_inflight g) (task_pair t) 0"
  shows "snd (can_send_task env (g\<lparr>gv_metrics := m, gv_pair_bytes_inflight := p\<rparr>) t) = snd (can_send_task env g t)"
proof -
  let ?g = "g\<lparr>gv_metrics := m, gv_pair_bytes_inflight := p\<rparr>"
  have "gov_sample_is_fresh ?g = gov_sample_is_fresh g" "cap_of ?g = cap_of g"
    by (simp_all add: fun_eq_iff gov_sample_is_fresh_def cap_of_def cong: option.case_cong)
  then show ?thesis
    by (simp add: can_send_def Let_def if_distrib [of snd] option.case_distrib [of snd] assms cong: option.case_cong if_cong
        split del: if_split)
qed

lemma can_send_state:
  "\<exists>m p. fst (can_send_task env g t) = g\<lparr>gv_metrics := m, gv_pair_bytes_inflight := p\<rparr> \<and>
     dget_or p (task_pair t) 0 = dget_or (gv_pair_bytes_inflight g) (task_pair t) 0"
proof -
  let ?p = "dsetdefault (gv_pair_bytes_inflight g) (task_pair t) 0"
  let ?m = "gv_metrics g @ [Increment ''kv_transfer_congestion_total'' 1 [(''dst'', tt_dst t)]]"
  have c: "fst (can_send_task env g t) \<in>
      {g, g\<lparr>gv_metrics := ?m\<rparr>, g\<lparr>gv_pair_bytes_inflight := ?p\<rparr>}"
    by (simp add: can_send_def Let_def split: option.split)
  have "g = g\<lparr>gv_metrics := gv_metrics g, gv_pair_bytes_inflight := gv_pair_bytes_inflight g\<rparr>"
    "g\<lparr>gv_metrics := ?m\<rparr> = g\<lparr>gv_metrics := ?m, gv_pair_bytes_inflight := gv_pair_bytes_inflight g\<rparr>"
    "g\<lparr>gv_pair_bytes_inflight := ?p\<rparr> = g\<lparr>gv_metrics := gv_metrics g, gv_pair_bytes_inflight := ?p\<rparr>" by simp_all
  moreover have "dget_or ?p (task_pair t) 0 = dget_or (gv_pair_bytes_inflight g) (task_pair t) 0"
    by (simp add: dget_or_def dsetdefault_def dict_simps split: option.split)
  ultimately show ?thesis using c by (metis empty_iff insert_iff)
qed

lemma can_send_again:
  assumes "can_send_task env g t = (h, b)"
  shows "snd (can_send_task env h t) = b"
  using can_send_state [of env g t] can_send_answer [of _ t g env] assms by auto

definition head_blocked :: "gov_env \<Rightarrow> governor \<Rightarrow> string \<Rightarrow> bool" where
  "head_blocked env g dst =
     (case dget_or (gv_deferred g) dst [] of [] \<Rightarrow> True | t # q \<Rightarrow> \<not> snd (can_send_task env g t))"

lemma flush_head_blocked: "flush_deferred n env g dst = Some (h, Inr ()) \<Longrightarrow> head_blocked env h dst"
proof (induction n arbitrary: g)
  case 0
  then show ?case by (simp add: flush_deferred.simps)
next
  case (Suc n)
  from Suc.prems show ?case
  proof (cases rule: flush_cases)
    case idle
    then show ?thesis by (simp add: head_blocked_def dict_simps dget_or_def split: option.splits)
  next
    case (blocked t q)
    with can_send_again [OF blocked(2)] can_send_task_frame(2) [OF blocked(2)] show ?thesis
      by (simp add: head_blocked_def dget_or_def)
  next
    case (sent t q g1 g2 r2)
    with Suc.IH [of g2] show ?thesis by (cases "r2 = Inr ()") simp_all
  qed
qed

subsection \<open>Submission and cancellation\<close>

lemma on_complete_total: "\<exists>h r. on_complete env g t = Some (h, r) \<and> deferred_total h \<le> deferred_total g"
  unfolding on_complete_def by (rule on_complete_returns [OF flush_now_below, of g "Suc (deferred_total g)"]) simp

lemma dispatch_total: "\<exists>h r. dispatch env g t = Some (h, r) \<and> deferred_total h \<le> deferred_total g"
  unfolding dispatch_def by (rule dispatch_returns [OF flush_now_below, of g "Suc (deferred_total g)"]) simp

lemma submit_cases:
  assumes "submit env g t = Some (h, r)"
  shows "(\<exists>g1. can_send_task env g t = (g1, True) \<and> dispatch env g1 t = Some (h, r)) \<or>
    (\<exists>g1. can_send_task env g t = (g1, False) \<and> r = Inr () \<and>
      (\<exists>m. h = g1\<lparr>gv_deferred := dput (gv_deferred g) (tt_dst t) (dget_or (gv_deferred g) (tt_dst t) [] @ [t]), gv_metrics := m\<rparr>))"
proof -
  obtain g1 b where c: "can_send_task env g t = (g1, b)" by (cases "can_send_task env g t")
  with can_send_task_frame(2) [OF c] assms show ?thesis by (cases b) (auto simp: submit_def Let_def)
qed

lemma submit_total: "\<exists>h r. submit env g t = Some (h, r)"
proof -
  obtain g1 b where c: "can_send_task env g t = (g1, b)" by (cases "can_send_task env g t")
  with dispatch_total [of env g1 t] show ?thesis by (cases b) (auto simp: submit_def Let_def)
qed

lemma tick_dsts_total: "\<exists>h r. tick_dsts env g dsts = Some (h, r)"
proof (induction dsts arbitrary: g)
  case (Cons d dsts)
  obtain h r where "flush_now env g d = Some (h, r)" using flush_now_returns by blast
  with Cons show ?case by (cases r) auto
qed simp

lemma queued_append [simp]: "queued r (xs @ ys) = queued r xs + queued r ys"
  by (simp add: queued_def)

lemma deferred_inv:
  assumes "gov_inv g" "dget (gv_deferred g) d = Some q" "t \<in> set q"
  shows "tt_dst t = d" "0 \<le> tt_kv_size t"
  using assms unfolding gov_inv_def tasks_ok_def by blast+

lemma submit_inv:
  assumes "gov_inv g" "held g (tt_req_id t) = 0" "0 \<le> tt_kv_size t" "submit env g t = Some (h, r)"
  shows "gov_inv h"
  using submit_cases [OF assms(4)]
proof (elim disjE exE conjE)
  fix g1
  assume c: "can_send_task env g t = (g1, True)" and d: "dispatch env g1 t = Some (h, r)"
  note f = can_send_task_frame [OF c]
  have "fits g1 t" using can_send_fits [OF c] gov_invD(3) [OF assms(1)] by simp
  with assms f held_cong [OF f(1,2), of "tt_req_id t"] have "gov_inv (enter_inflight g1 t)" by (intro enter_inv) simp_all
  from ledger_flush.dispatch_keeps [OF ledger_flush.flush_now_keeps this d [unfolded dispatch_def]] show ?thesis .
next
  fix g1 m
  let ?q = "dget_or (gv_deferred g) (tt_dst t) []"
  assume c: "can_send_task env g t = (g1, False)"
    and h: "h = g1\<lparr>gv_deferred := dput (gv_deferred g) (tt_dst t) (?q @ [t]), gv_metrics := m\<rparr>"
  note f = can_send_task_frame [OF c]
  have q: "t' \<in> set ?q \<Longrightarrow> tt_dst t' = tt_dst t \<and> 0 \<le> tt_kv_size t'" for t'
    using deferred_inv [OF assms(1), of "tt_dst t"] by (cases "dget (gv_deferred g) (tt_dst t)") (auto simp: dget_or_def)
  have "held (g1\<lparr>gv_deferred := dput (gv_deferred g) (tt_dst t) (?q @ [t])\<rparr>) k =
      held g k + (if k = tt_req_id t then 1 else 0)" for k
    unfolding held_deferred f(1)
    by (simp add: held_def dget_or_def queued_def split: option.splits)
  then have "held (g1\<lparr>gv_deferred := dput (gv_deferred g1) (tt_dst t) (?q @ [t])\<rparr>) k \<le> 1" for k
    using assms(2) gov_invD(8) [OF assms(1), of k] by (simp add: f(2))
  with q assms(3) have "gov_inv (g1\<lparr>gv_deferred := dput (gv_deferred g1) (tt_dst t) (?q @ [t])\<rparr>)"
    by (intro gov_inv_deferred [OF f(5) [OF assms(1)]]) auto
  then show ?thesis by (rule gov_inv_cong) (simp_all add: h f(2))
qed

lemma dget_cancel_deferred:
  "dget (cancel_deferred r k d) dst =
     map_option (filter (\<lambda>t. \<not> (tt_req_id t = r \<and> op_matches k t))) (dget d dst)"
  by (induction d) (auto simp: cancel_deferred_def)

lemma wf_cancel_deferred [simp]: "wf_dict (cancel_deferred r k d) = wf_dict d"
  by (simp add: cancel_deferred_def case_prod_beta comp_def)

lemma queued_filter_le: "queued r (filter P q) \<le> queued r q"
  by (induction q) (auto simp: queued_def)

lemma queued_cancel_le: "dsum (queued r) (cancel_deferred r' k d) \<le> dsum (queued r) d"
  by (induction d) (auto simp: cancel_deferred_def dsum_def intro!: add_mono queued_filter_le)

lemma cancel_queues_inv:
  assumes "gov_inv g"
  shows "gov_inv (g\<lparr>gv_deferred := cancel_deferred r k (gv_deferred g), gv_metrics := m\<rparr>)" (is "gov_inv ?h")
proof -
  have "held ?h j \<le> held g j" for j using queued_cancel_le [of j r k] by (simp add: held_def)
  then have "held ?h j \<le> 1" for j using gov_invD(8) [OF assms, of j] by (rule order_trans)
  then have "tasks_ok ?h"
    using assms unfolding gov_inv_def tasks_ok_def by (auto simp: dget_cancel_deferred)
  moreover have "ledgers_ok ?h" by (rule ledgers_cong [of g]) (use assms in \<open>simp_all add: gov_inv_def\<close>)
  ultimately show ?thesis by (simp add: gov_inv_def)
qed

lemma cancel_state:
  assumes "gov_inv g"
  shows "\<exists>m. fst (cancel g r k) =
    (let g1 = g\<lparr>gv_deferred := cancel_deferred r k (gv_deferred g), gv_metrics := m\<rparr>
     in case dget (gv_inflight_tasks g) r of
          Some t \<Rightarrow> if op_matches k t then drop_inflight g1 t else g1
        | None \<Rightarrow> g1)"
proof -
  have "dget (gv_inflight_tasks g) r = Some t \<Longrightarrow> tt_req_id t = r" for t by (rule gov_invD(4) [OF assms])
  then show ?thesis by (auto simp: cancel_def Let_def drop_inflight_def split: option.split)
qed

lemma cancel_inv: "gov_inv g \<Longrightarrow> gov_inv (fst (cancel g r k))"
proof -
  assume g: "gov_inv g"
  from cancel_state [OF g, of r k] obtain m where
    m: "fst (cancel g r k) =
      (let g1 = g\<lparr>gv_deferred := cancel_deferred r k (gv_deferred g), gv_metrics := m\<rparr>
       in case dget (gv_inflight_tasks g) r of
            Some t \<Rightarrow> if op_matches k t then drop_inflight g1 t else g1
          | None \<Rightarrow> g1)" by blast
  note g1 = cancel_queues_inv [OF g, of m r k]
  show ?thesis
    unfolding m Let_def using g1 gov_invD(4) [OF g]
    by (auto split: option.splits intro!: drop_same_inv simp: is_inflight_def)
qed

lemma finish_request_inv: "gov_inv g \<Longrightarrow> gov_inv (gov_finish_request g r)"
  unfolding gov_finish_request_def Let_def by (rule gov_inv_cong [OF cancel_inv]) simp_all

lemma transfer_failure_inv: "gov_inv g \<Longrightarrow> gov_inv (fst (on_transfer_failure str_of_int g r why))"
  by (rule gov_inv_cong, assumption) (simp_all add: on_transfer_failure_def Let_def)

lemma usage_cases:
  "gov_update_kv_usage env g i u = Some (h, r) \<Longrightarrow>
     \<exists>d. h = g\<lparr>gv_kv_usage := d\<rparr> \<or> flush_now env (g\<lparr>gv_kv_usage := d\<rparr>) i = Some (h, r)"
  by (auto simp: gov_update_kv_usage_def Let_def split: option.splits if_splits)

lemma usage_total: "\<exists>h r. gov_update_kv_usage env g i u = Some (h, r)"
  using flush_now_returns by (simp add: gov_update_kv_usage_def Let_def split: option.split) blast

lemma usage_inv: "gov_inv g \<Longrightarrow> gov_update_kv_usage env g i u = Some (h, r) \<Longrightarrow> gov_inv h"
proof -
  assume g: "gov_inv g" and f: "gov_update_kv_usage env g i u = Some (h, r)"
  have "gov_inv (g\<lparr>gv_kv_usage := d\<rparr>)" for d by (rule gov_inv_cong [OF g]) simp_all
  with usage_cases [OF f] keepsD [OF ledger_flush.flush_now_keeps] show ?thesis by blast
qed

lemma epochs_inv: "gov_inv g \<Longrightarrow> gov_inv (set_expected_epochs g e)"
  by (rule gov_inv_cong, assumption) (simp_all add: set_expected_epochs_def)

text \<open>The result of a flush does not depend on the fuel.\<close>

definition flush_le :: "(governor \<Rightarrow> string \<Rightarrow> gov_result option) \<Rightarrow> (governor \<Rightarrow> string \<Rightarrow> gov_result option) \<Rightarrow> bool" where
  "flush_le f f' \<longleftrightarrow> (\<forall>g d x. f g d = Some x \<longrightarrow> f' g d = Some x)"

lemma flush_leD: "flush_le f f' \<Longrightarrow> f g d = Some x \<Longrightarrow> f' g d = Some x"
  unfolding flush_le_def by blast

lemma on_complete_mono:
  "flush_le f f' \<Longrightarrow> on_complete_with f env g t = Some x \<Longrightarrow> on_complete_with f' env g t = Some x"
  by (auto simp: on_complete_with_def Let_def split: if_splits dest: flush_leD)

lemma dispatch_mono:
  assumes "flush_le f f'" "dispatch_with f env g t = Some x"
  shows "dispatch_with f' env g t = Some x"
proof -
  let ?e = "enter_inflight g t"
  have "on_complete_with f env ?e t = None \<or> on_complete_with f' env ?e t = on_complete_with f env ?e t"
    using on_complete_mono [OF assms(1)] by (cases "on_complete_with f env ?e t") auto
  with assms(2) show ?thesis unfolding dispatch_with_enter by (auto split: handoff.splits)
qed

lemma flush_Suc: "flush_le (flush_deferred n env) (flush_deferred (Suc n) env)"
proof (induction n)
  case 0
  then show ?case by (simp add: flush_le_def flush_deferred.simps)
next
  case (Suc n)
  have "flush_deferred (Suc (Suc n)) env g dst = Some (h, r)" if f: "flush_deferred (Suc n) env g dst = Some (h, r)" for g dst h r
    using f
  proof (cases rule: flush_cases)
    case idle
    then show ?thesis by (simp add: flush_round(1))
  next
    case (blocked t q)
    then show ?thesis by (simp add: flush_round(2))
  next
    case (sent t q g1 g2 r2)
    note d = dispatch_mono [OF Suc.IH sent(3)]
    have "flush_deferred (Suc n) env g2 dst = Some (h, r)" if "r2 = Inr ()"
      using sent(4) [OF that] Suc.IH unfolding flush_le_def by blast
    with sent(5) flush_round(3) [OF sent(1,2) d] show ?thesis by (cases r2) auto
  qed
  then show ?case unfolding flush_le_def by auto
qed

lemma flush_more_fuel:
  assumes "deferred_total g < n"
  shows "flush_deferred n env g dst = flush_now env g dst"
proof -
  have "flush_deferred (m + k) env g dst = Some x" if "flush_deferred m env g dst = Some x" for m k x
    using that by (induction k) (auto intro: flush_leD [OF flush_Suc])
  moreover from flush_now_returns [of env g dst] obtain x where "flush_now env g dst = Some x" by auto
  moreover have "n = Suc (deferred_total g) + (n - Suc (deferred_total g))" using assms by simp
  ultimately show ?thesis unfolding flush_now_def by metis
qed

subsection \<open>The governor as a system of operations\<close>

datatype gov_op =
  GovSubmit gov_env transfer_task
| GovTick gov_env
| GovComplete gov_env transfer_task
| GovUsage gov_env string "kv_usage_sample option"
| GovEpochs "(string, string) dict"
| GovCancel string "string option"
| GovFinish string
| GovFailure string string

definition gov_state :: "governor \<Rightarrow> gov_result option \<Rightarrow> governor" where
  "gov_state g res = (case res of None \<Rightarrow> g | Some (h, _) \<Rightarrow> h)"

fun gov_exec :: "governor \<Rightarrow> gov_op \<Rightarrow> governor" where
  "gov_exec g (GovSubmit env t) = gov_state g (submit env g t)"
| "gov_exec g (GovTick env) = gov_state g (tick env g)"
| "gov_exec g (GovComplete env t) = gov_state g (on_complete env g t)"
| "gov_exec g (GovUsage env i u) = gov_state g (gov_update_kv_usage env g i u)"
| "gov_exec g (GovEpochs e) = set_expected_epochs g e"
| "gov_exec g (GovCancel r k) = fst (cancel g r k)"
| "gov_exec g (GovFinish r) = gov_finish_request g r"
| "gov_exec g (GovFailure r why) = fst (on_transfer_failure (\<lambda>_. []) g r why)"

text \<open>The main loop submits a transfer only for a request the governor holds no task of.\<close>

fun gov_admissible :: "governor \<Rightarrow> gov_op \<Rightarrow> bool" where
  "gov_admissible g (GovSubmit env t) \<longleftrightarrow> held g (tt_req_id t) = 0 \<and> 0 \<le> tt_kv_size t"
| "gov_admissible g _ \<longleftrightarrow> True"

lemma gov_state_keeps: "P g \<Longrightarrow> (\<And>h r. res = Some (h, r) \<Longrightarrow> P h) \<Longrightarrow> P (gov_state g res)"
  by (simp add: gov_state_def split: option.split prod.split)

interpretation gov_ops: op_system gov_exec gov_admissible gov_inv
proof unfold_locales
  fix g x
  assume "gov_inv g" "gov_admissible g x"
  then show "gov_inv (gov_exec g x)"
    by (cases x) (auto intro!: gov_state_keeps [of gov_inv] intro: submit_inv ledger_flush.tick_keeps ledger_flush.complete_keeps
        usage_inv epochs_inv cancel_inv finish_request_inv transfer_failure_inv)
qed

lemma balance_names: "bytes_inflight g d = dst_balance g d" "bytes_inflight_for_pair g s d = pair_balance g (pair_id s d)"
  by (simp_all add: bytes_inflight_def bytes_inflight_for_pair_def dst_balance_def pair_balance_def)

subsection \<open>Properties\<close>

text \<open>A two-instance example: transfers of request \<open>a\<close> and \<open>b\<close> over one pair with a cap of ten bytes.\<close>

definition example_task :: "nat \<Rightarrow> string \<Rightarrow> int \<Rightarrow> transfer_task" where
  "example_task n r len =
     \<lparr>tt_object = n, tt_req_id = r, tt_src = ''P0'', tt_dst = ''D0'', tt_kv_size = len, tt_operation_id = r,
      tt_src_epoch = ''e'', tt_dst_epoch = ''e'', tt_src_block_ids = [], tt_dst_block_ids = [],
      tt_target_request_ref = None, tt_target_request_commit_ref = None, tt_token_ids = [], tt_sampling_params = [],
      tt_first_token = None, tt_transfer_source_ref = None, tt_transfer_target_ref = None, tt_correctness_path = [],
      tt_priority = 1, tt_enqueued_at = 0, tt_on_complete = False\<rparr>"

definition example_config :: gov_config where
  "example_config =
     \<lparr>gc_HIGH_WATERMARK = None, gc_LOW_WATERMARK = None, gc_max_bytes_inflight_per_pair = Some 10,
      gc_MAX_BYTES_INFLIGHT = None, gc_kv_usage_stale_after_s = None, gc_max_recompute_attempts = Some 1,
      gc_kv_transfer_timeout_s = None\<rparr>"

definition example_env :: "handoff \<Rightarrow> gov_env" where
  "example_env x = \<lparr>ge_can_govern = None, ge_now = 0, ge_client = \<lambda>n t. x, ge_callback_ok = \<lambda>_. True\<rparr>"

definition example_ops :: "gov_op list" where
  "example_ops =
     [GovEpochs [(''D0'', ''e'')],
      GovUsage (example_env HandedOff) ''D0'' (Some \<lparr>ku_ratio = 0, ku_instance_epoch = ''e'', ku_sampled_at = 0\<rparr>),
      GovSubmit (example_env HandedOff) (example_task 0 ''a'' 6),
      GovSubmit (example_env HandedOff) (example_task 1 ''b'' 7)]"

definition example_state :: governor where
  "example_state = foldl gov_exec (governor_init example_config) example_ops"

lemmas example_defs = example_task_def example_config_def example_env_def example_ops_def

lemmas gov_eval = governor_init_def or_else_def set_expected_epochs_def gov_update_kv_usage_def submit_def dispatch_def
  dispatch_with_enter enter_inflight_def credit_task_def credit_bytes_def can_send_def gov_sample_is_fresh_def cap_of_def
  gov_state_def dget_or_def dsetdefault_def pair_id_def Let_def held_def queued_def dsum_def

lemma example_state_eq:
  "example_state = (governor_init example_config)
     \<lparr>gv_kv_usage := [(''D0'', \<lparr>ku_ratio = 0, ku_instance_epoch = ''e'', ku_sampled_at = 0\<rparr>)],
      gv_expected_epochs := [(''D0'', ''e'')],
      gv_pair_bytes_inflight := [(''P0--D0'', 6)], gv_bytes_inflight := [(''D0'', 6)],
      gv_deferred := [(''D0'', [example_task 1 ''b'' 7])],
      gv_inflight_tasks := [(''a'', example_task 0 ''a'' 6)],
      gv_metrics := [Gauge ''deferred_queue_depth'' 1 [(''dst'', ''D0'')]],
      gv_sent := [example_task 0 ''a'' 6]\<rparr>"
  unfolding example_state_def example_defs by (simp add: gov_eval)

lemma example_admissible: "ok_run gov_exec gov_admissible (governor_init example_config) example_ops"
  unfolding example_defs by (simp add: gov_eval)

lemma example_inv: "gov_inv example_state"
  unfolding example_state_def
  by (rule gov_ops.run_inv [OF example_admissible governor_init_inv]) (simp add: governor_init_def or_else_def example_config_def)



text \<open>
  C12.  Every call of the governor returns: submission, the periodic tick, completion and the usage report
  end whatever the client does, although completion callbacks flush queues recursively, and more fuel
  than one round per deferred transfer changes no result.
\<close>

theorem governor_calls_return:
  "(\<exists>h r. submit env g t = Some (h, r)) \<and> (\<exists>h r. tick env g = Some (h, r)) \<and>
   (\<exists>h r. on_complete env g t = Some (h, r)) \<and> (\<exists>h r. gov_update_kv_usage env g i u = Some (h, r)) \<and>
   flush_deferred (Suc (deferred_total g) + n) env g dst = flush_now env g dst"
  using submit_total [of env g t] tick_dsts_total [of env g] on_complete_total [of env g t] usage_total [of env g i u]
    flush_more_fuel [of g "Suc (deferred_total g) + n" env dst]
  unfolding tick_def by auto

text \<open>
  C13.  Flushing a destination hands its deferred transfers to the client in the order in which they were
  deferred and touches no other destination; when it ends normally, nothing is left or the transfer at
  the head may not be sent.
\<close>

theorem flush_in_order:
  assumes "gov_inv g" and "flush_now env g dst = Some (h, r)"
  shows "(\<exists>ts. gv_sent h = gv_sent g @ ts \<and> dget_or (gv_deferred g) dst [] = ts @ dget_or (gv_deferred h) dst []) \<and>
    (\<forall>d. d \<noteq> dst \<longrightarrow> dget_or (gv_deferred h) d [] = dget_or (gv_deferred g) d []) \<and>
    (r = Inr () \<longrightarrow> head_blocked env h dst)"
proof -
  have "one_dst g dst"
    using deferred_inv(1) [OF assms(1), of dst] by (cases "dget (gv_deferred g) dst") (simp_all add: one_dst_def dget_or_def)
  from sends_frontD [OF flush_sends_front this assms(2) [unfolded flush_now_def]]
    flush_head_blocked [of _ env g dst h] assms(2) [unfolded flush_now_def]
  show ?thesis by (auto simp: front_sent_def)
qed

text \<open>
  C14.  A transfer completes once: after its completion, or after it has been cancelled, a second
  completion report changes nothing, fires no callback and sends nothing, whatever else the flush in
  between sent.
\<close>

theorem completion_once:
  assumes "gov_inv g" and "is_inflight g t" and "on_complete env g t = Some (h, r)" and "op_matches k t"
  shows "on_complete env' h t = Some (h, Inr ()) \<and>
    on_complete env' (fst (cancel g (tt_req_id t) k)) t = Some (fst (cancel g (tt_req_id t) k), Inr ())"
proof -
  let ?r = "tt_req_id t" and ?d = "drop_inflight g t"
  have t: "dget (gv_inflight_tasks g) ?r = Some t" using assms(2) by (simp add: is_inflight_def)
  have "held ?d ?r = 0"
    using gov_invD(8) [OF assms(1), of ?r] held_nonneg [of ?d ?r] t unfolding held_drop by simp
  then have d: "free_of ?r ?d" "free_of ?r (?d\<lparr>gv_fired := gv_fired ?d @ [t]\<rparr>)"
    using drop_same_inv [OF assms(1,2)] free_flush.fired_keeps by (simp_all add: free_of_def)
  from assms(2,3) d keepsD [OF free_flush.flush_now_keeps] have "free_of ?r h"
    unfolding on_complete_def on_complete_with_def Let_def by (auto split: if_splits)
  then have "\<not> is_inflight h t"
    using queued_nonneg [of ?r "gv_deferred h"] by (auto simp: free_of_def held_def is_inflight_def)
  moreover from cancel_state [OF assms(1), of ?r k] t assms(4) have "\<not> is_inflight (fst (cancel g ?r k)) t"
    by (auto simp: Let_def is_inflight_def dict_simps)
  ultimately show ?thesis by (simp add: on_complete_def on_complete_with_def)
qed


theorem flush_in_order_witness:
  "\<exists>h r ts. flush_now (example_env HandedOff) (gov_exec example_state (GovCancel ''a'' None)) ''D0'' = Some (h, r) \<and>
     gv_sent h = [example_task 0 ''a'' 6] @ ts \<and> [example_task 1 ''b'' 7] = ts @ dget_or (gv_deferred h) ''D0'' []"
proof -
  let ?g = "gov_exec example_state (GovCancel ''a'' None)"
  have q: "dget_or (gv_deferred ?g) ''D0'' [] = [example_task 1 ''b'' 7]" "gv_sent ?g = [example_task 0 ''a'' 6]"
    by (simp_all add: example_state_eq cancel_def cancel_deferred_def Let_def op_matches_def debit_task_def dget_or_def
        example_task_def)
  obtain h r where f: "flush_now (example_env HandedOff) ?g ''D0'' = Some (h, r)" using flush_now_returns by blast
  have "gov_inv ?g" using cancel_inv [OF example_inv] by simp
  from flush_in_order [OF this f] f q show ?thesis by auto
qed

theorem completion_once_witness:
  "\<exists>h r. on_complete (example_env HandedOff) example_state (example_task 0 ''a'' 6) = Some (h, r) \<and>
     on_complete (example_env Raised) h (example_task 0 ''a'' 6) = Some (h, Inr ())"
proof -
  obtain h r where f: "on_complete (example_env HandedOff) example_state (example_task 0 ''a'' 6) = Some (h, r)"
    using on_complete_total by blast
  have "is_inflight example_state (example_task 0 ''a'' 6)"
    by (simp add: example_state_eq is_inflight_def example_task_def)
  from completion_once [OF example_inv this f, of None "example_env Raised"] f show ?thesis
    by (auto simp: op_matches_def)
qed




text \<open>
  A request gets its full retry budget and no more: after any interleaving of failures in which the
  request itself has failed \<open>n\<close> times, its next failure is answered by a recomputation while \<open>n\<close> is
  below the configured maximum and by an abort when the maximum is reached.
\<close>

theorem retry_budget:
  assumes "\<not> dhas (gv_recompute_counts g) r" and "int (count_list (map fst fs) r) \<le> gv_max_recompute g"
  shows "snd (on_transfer_failure str_of_int
      (foldl (\<lambda>g (r', why). fst (on_transfer_failure str_of_int g r' why)) g fs) r why) =
    (if int (count_list (map fst fs) r) < gv_max_recompute g then Recompute else AbortRequest)"
proof -
  let ?run = "foldl (\<lambda>g (r', why). fst (on_transfer_failure str_of_int g r' why)) g"
  have "int (count_list (map fst es) r) \<le> gv_max_recompute g \<Longrightarrow>
      dget_or (gv_recompute_counts (?run es)) r 0 = int (count_list (map fst es) r) \<and>
      gv_max_recompute (?run es) = gv_max_recompute g" for es
  proof (induction es rule: rev_induct)
    case Nil
    with assms(1) show ?case by (simp add: dget_or_def)
  next
    case (snoc e es)
    then show ?case by (cases e) (auto simp: on_transfer_failure_def Let_def dict_simps split: if_splits)
  qed
  from this [OF assms(2)] assms(2) show ?thesis by (simp add: on_transfer_failure_def Let_def)
qed

theorem retry_budget_witness:
  "snd (on_transfer_failure (\<lambda>_. ''1'')
      (foldl (\<lambda>g (r', why). fst (on_transfer_failure (\<lambda>_. ''1'') g r' why)) example_state
        [(''a'', ''timeout''), (''b'', ''timeout'')]) ''a'' ''timeout'') = AbortRequest"
  using retry_budget [of example_state "''a''" "[(''a'', ''timeout''), (''b'', ''timeout'')]" "\<lambda>_. ''1''" "''timeout''"]
  by (simp add: example_state_eq governor_init_def example_config_def or_else_def)

end
