(* ===== verification/Prefix_Index.thy ===== *)
theory Prefix_Index
  imports Fingerprint
begin

text \<open>
  \<^verbatim>\<open>prism_serve/router/prefix_index.py\<close>: which instance holds which prefix block.  The index maps a
  prefix key to the cache locations that hold it, the forward map an owner (an instance and its epoch)
  to the keys it holds, and a cursor per owner counts the events applied so far.  Both maps are
  \<open>defaultdict\<close>s: reading \<open>d[k]\<close> creates the entry, \<open>d.get(k)\<close> does not.  The theorems show that the
  two maps describe the same set of locations after every operation, failed ones included, that the
  index implements a plain set of locations with cursors, and that a batch of events can be replayed.
\<close>

record cache_location =
  cl_instance_id :: string
  cl_instance_epoch :: string
  cl_namespace :: string
  cl_kv_compatibility_id :: string
  cl_request_context_digest :: string
  cl_chain_hash :: int
  cl_block_index :: int
  cl_block_id :: int
  cl_prefix_tokens :: int
  cl_last_updated :: time

record prefix_event =
  pe_kind :: string
  pe_location :: cache_location
  pe_seq_no :: int

type_synonym prefix_key = "string \<times> string \<times> string \<times> int"
type_synonym owner = "string \<times> string"

datatype prefix_error =
  FullReportRequired int int
| OwnerMismatch
| UnsupportedEvent string
| DuplicateOwner owner
| NegativeSnapshot
| WorldMismatch
| InvalidMaxAge

record prefix_index =
  px_max_age_s :: real
  px_index :: "(prefix_key, cache_location set) dict"
  px_forward :: "(owner, prefix_key set) dict"
  px_last_seq :: "(owner, int) dict"

definition prefix_index_init :: "real \<Rightarrow> prefix_error + prefix_index" where
  "prefix_index_init max_age_s =
     (if max_age_s > 0 then Inr \<lparr>px_max_age_s = max_age_s, px_index = [], px_forward = [], px_last_seq = []\<rparr>
      else Inl InvalidMaxAge)"

definition location_key :: "cache_location \<Rightarrow> prefix_key" where
  "location_key location =
     (cl_namespace location, cl_kv_compatibility_id location, cl_request_context_digest location,
      cl_chain_hash location)"

definition owner_of :: "cache_location \<Rightarrow> owner" where
  "owner_of location = (cl_instance_id location, cl_instance_epoch location)"

subsection \<open>Single locations\<close>

definition add_location :: "prefix_index \<Rightarrow> cache_location \<Rightarrow> prefix_index" where
  "add_location ix location =
     (let key = location_key location; owner = owner_of location
      in ix\<lparr>px_index := dput (px_index ix) key (insert location (dget_or (px_index ix) key {})),
            px_forward := dput (px_forward ix) owner (insert key (dget_or (px_forward ix) owner {}))\<rparr>)"

text \<open>\<open>self._index[key] = locations\<close>, dropped at once when the set is empty.\<close>

definition put_or_drop ::
  "(prefix_key, cache_location set) dict \<Rightarrow> prefix_key \<Rightarrow> cache_location set \<Rightarrow> (prefix_key, cache_location set) dict" where
  "put_or_drop d key locations = (if locations = {} then dpop (dput d key locations) key else dput d key locations)"

definition remove_block :: "prefix_index \<Rightarrow> prefix_key \<Rightarrow> owner \<Rightarrow> int \<Rightarrow> prefix_index" where
  "remove_block ix key owner block_id =
     (let kept = {item \<in> dget_or (px_index ix) key {}. owner_of item \<noteq> owner \<or> cl_block_id item \<noteq> block_id};
          ix1 = ix\<lparr>px_index := put_or_drop (px_index ix) key kept\<rparr>
      in if \<exists>item \<in> dget_or (px_index ix1) key {}. owner_of item = owner then ix1
         else ix1\<lparr>px_forward := dput (px_forward ix1) owner (dget_or (px_forward ix1) owner {} - {key})\<rparr>)"

definition remove_owner_key ::
  "owner \<Rightarrow> (prefix_key, cache_location set) dict \<Rightarrow> prefix_key \<Rightarrow> (prefix_key, cache_location set) dict" where
  "remove_owner_key owner d key = put_or_drop d key {item \<in> dget_or d key {}. owner_of item \<noteq> owner}"

text \<open>
  \<open>for key in list(self._forward.get(owner, set()))\<close>: the keys are visited in the order of the set,
  which the language leaves open; \<open>keys\<close> is that order.
\<close>

definition remove_owner :: "(prefix_key set \<Rightarrow> prefix_key list) \<Rightarrow> prefix_index \<Rightarrow> owner \<Rightarrow> prefix_index" where
  "remove_owner keys ix owner =
     ix\<lparr>px_index := foldl (remove_owner_key owner) (px_index ix) (keys (dget_or (px_forward ix) owner {})),
        px_forward := dpop (px_forward ix) owner,
        px_last_seq := dpop (px_last_seq ix) owner\<rparr>"

definition remove_instance :: "(prefix_key set \<Rightarrow> prefix_key list) \<Rightarrow> prefix_index \<Rightarrow> string \<Rightarrow> prefix_index" where
  "remove_instance keys ix instance_id =
     foldl (remove_owner keys) ix (filter (\<lambda>owner. fst owner = instance_id) (dkeys (px_forward ix)))"

definition clear :: "prefix_index \<Rightarrow> prefix_index" where
  "clear ix = ix\<lparr>px_index := [], px_forward := [], px_last_seq := []\<rparr>"

subsection \<open>Events and reports\<close>

fun apply_event_loop :: "prefix_index \<Rightarrow> owner \<Rightarrow> int \<Rightarrow> prefix_event list \<Rightarrow> (prefix_index, prefix_error, int) outcome" where
  "apply_event_loop ix owner cursor [] = (ix, Inr cursor)"
| "apply_event_loop ix owner cursor (event # events) =
     (let location = pe_location event
      in if owner_of location \<noteq> owner then (ix, Inl OwnerMismatch)
         else if pe_seq_no event \<le> cursor then apply_event_loop ix owner cursor events
         else if pe_seq_no event \<noteq> cursor + 1 then (ix, Inl (FullReportRequired (cursor + 1) (pe_seq_no event)))
         else if pe_kind event = ''hash_added''
           then apply_event_loop (add_location ix location) owner (pe_seq_no event) events
         else if pe_kind event = ''evicted''
           then apply_event_loop (remove_block ix (location_key location) owner (cl_block_id location)) owner
                  (pe_seq_no event) events
         else (ix, Inl (UnsupportedEvent (pe_kind event))))"

definition apply_events :: "prefix_index \<Rightarrow> owner \<Rightarrow> prefix_event list \<Rightarrow> (prefix_index, prefix_error, int) outcome" where
  "apply_events ix owner events =
     (case apply_event_loop ix owner (dget_or (px_last_seq ix) owner 0) events of
        (ix1, Inl e) \<Rightarrow> (ix1, Inl e)
      | (ix1, Inr cursor) \<Rightarrow> (ix1\<lparr>px_last_seq := dput (px_last_seq ix1) owner cursor\<rparr>, Inr cursor))"

fun add_locations :: "prefix_index \<Rightarrow> owner \<Rightarrow> cache_location list \<Rightarrow> (prefix_index, prefix_error, unit) outcome" where
  "add_locations ix owner [] = (ix, Inr ())"
| "add_locations ix owner (location # locations) =
     (if owner_of location \<noteq> owner then (ix, Inl OwnerMismatch)
      else add_locations (add_location ix location) owner locations)"

definition install_full_report ::
  "(prefix_key set \<Rightarrow> prefix_key list) \<Rightarrow> prefix_index \<Rightarrow> owner \<Rightarrow> int \<Rightarrow> cache_location list
     \<Rightarrow> (prefix_index, prefix_error, unit) outcome" where
  "install_full_report keys ix owner snapshot_seq_no locations =
     (case add_locations (remove_owner keys ix owner) owner locations of
        (ix1, Inl e) \<Rightarrow> (ix1, Inl e)
      | (ix1, Inr _) \<Rightarrow> (ix1\<lparr>px_last_seq := dput (px_last_seq ix1) owner snapshot_seq_no\<rparr>, Inr ()))"

text \<open>The staged maps of \<open>install_world_full_reports\<close> are the three maps of an index under construction.\<close>

fun stage_reports ::
  "prefix_index \<Rightarrow> (owner \<times> int \<times> cache_location list) list \<Rightarrow> prefix_error + prefix_index" where
  "stage_reports staged [] = Inr staged"
| "stage_reports staged ((owner, snapshot_seq_no, locations) # reports) =
     (if dhas (px_last_seq staged) owner then Inl (DuplicateOwner owner)
      else if snapshot_seq_no < 0 then Inl NegativeSnapshot
      else case add_locations (staged\<lparr>px_forward := dsetdefault (px_forward staged) owner {}\<rparr>) owner locations of
             (_, Inl e) \<Rightarrow> Inl e
           | (staged1, Inr _) \<Rightarrow>
               stage_reports (staged1\<lparr>px_last_seq := dput (px_last_seq staged1) owner snapshot_seq_no\<rparr>) reports)"

definition install_world_full_reports ::
  "prefix_index \<Rightarrow> (owner \<times> int \<times> cache_location list) list \<Rightarrow> owner set \<Rightarrow> (prefix_index, prefix_error, unit) outcome" where
  "install_world_full_reports ix reports expected_owners =
     (case stage_reports (clear ix) reports of
        Inl e \<Rightarrow> (ix, Inl e)
      | Inr staged \<Rightarrow>
          if set (dkeys (px_last_seq staged)) \<noteq> expected_owners then (ix, Inl WorldMismatch)
          else (staged, Inr ()))"

subsection \<open>Lookup\<close>

definition fingerprint_key :: "prompt_fingerprint \<Rightarrow> nat \<Rightarrow> prefix_key" where
  "fingerprint_key fp blocks =
     (fp_namespace fp, fp_kv_compatibility_id fp, fp_request_context_digest fp, uint (fp_chain_hashes fp ! (blocks - 1)))"

definition fresh_locations :: "prefix_index \<Rightarrow> time \<Rightarrow> prefix_key \<Rightarrow> cache_location set" where
  "fresh_locations ix now key =
     {location \<in> dget_or (px_index ix) key {}. now - cl_last_updated location \<le> px_max_age_s ix}"

definition iter_matches :: "prefix_index \<Rightarrow> prompt_fingerprint \<Rightarrow> time \<Rightarrow> (nat \<times> cache_location set) list" where
  "iter_matches ix fp now =
     filter (\<lambda>(blocks, fresh). fresh \<noteq> {})
       (map (\<lambda>blocks. (blocks, fresh_locations ix now (fingerprint_key fp blocks)))
         (rev [1..<Suc (nat (max_reusable_blocks fp))]))"

definition assert_consistent :: "prefix_index \<Rightarrow> bool" where
  "assert_consistent ix \<longleftrightarrow>
     (\<forall>(key, locations) \<in> set (px_index ix). locations \<noteq> {} \<and>
        (\<forall>location \<in> locations. key \<in> dget_or (px_forward ix) (owner_of location) {}))"

subsection \<open>The set of locations behind the index\<close>

definition locs_at :: "prefix_index \<Rightarrow> prefix_key \<Rightarrow> cache_location set" where
  "locs_at ix key = dget_or (px_index ix) key {}"

definition keys_of :: "prefix_index \<Rightarrow> owner \<Rightarrow> prefix_key set" where
  "keys_of ix owner = dget_or (px_forward ix) owner {}"

definition locs :: "prefix_index \<Rightarrow> cache_location set" where
  "locs ix = (\<Union>key. locs_at ix key)"

text \<open>
  An index represents a finite set of locations when both maps are the ones the set determines: the
  locations under a key are those with that key, and an owner's keys are the keys of its locations.
\<close>

definition represents :: "prefix_index \<Rightarrow> cache_location set \<Rightarrow> bool" where
  "represents ix L \<longleftrightarrow>
     wf_dict (px_index ix) \<and> wf_dict (px_forward ix) \<and> wf_dict (px_last_seq ix) \<and> finite L \<and>
     (\<forall>key. dget (px_index ix) key \<noteq> Some {}) \<and>
     (\<forall>key. locs_at ix key = {l \<in> L. location_key l = key}) \<and>
     (\<forall>owner. keys_of ix owner = location_key ` {l \<in> L. owner_of l = owner})"

definition px_inv :: "prefix_index \<Rightarrow> bool" where
  "px_inv ix \<longleftrightarrow> represents ix (locs ix)"

declare split_paired_All [simp del] split_paired_Ex [simp del]

lemma representsD:
  assumes "represents ix L"
  shows "wf_dict (px_index ix)" "wf_dict (px_forward ix)" "wf_dict (px_last_seq ix)" "finite L"
    "dget (px_index ix) key \<noteq> Some {}" "locs_at ix key = {l \<in> L. location_key l = key}"
    "keys_of ix owner = location_key ` {l \<in> L. owner_of l = owner}"
  using assms unfolding represents_def by blast+

lemma representsI:
  assumes "wf_dict (px_index ix)" "wf_dict (px_forward ix)" "wf_dict (px_last_seq ix)" "finite L"
    "\<And>key. dget (px_index ix) key \<noteq> Some {}" "\<And>key. locs_at ix key = {l \<in> L. location_key l = key}"
    "\<And>owner. keys_of ix owner = location_key ` {l \<in> L. owner_of l = owner}"
  shows "represents ix L"
  using assms unfolding represents_def by blast

lemma represents_locs: "represents ix L \<Longrightarrow> locs ix = L"
  by (auto simp: locs_def representsD)

lemma represents_inv: "represents ix L \<Longrightarrow> px_inv ix"
  using represents_locs by (auto simp: px_inv_def)

lemma put_or_drop_laws [dict_simps]:
  "dget_or (put_or_drop d k S) j {} = (if j = k then S else dget_or d j {})"
  "dget (put_or_drop d k S) j = (if j = k then if S = {} then None else Some S else dget d j)"
  by (auto simp: put_or_drop_def dict_simps)

lemma wf_put_or_drop [simp]: "wf_dict d \<Longrightarrow> wf_dict (put_or_drop d k S)"
  by (simp add: put_or_drop_def)

lemma represents_empty: "represents (clear ix) {}"
  by (simp add: represents_def clear_def locs_at_def keys_of_def dget_or_def)

lemma represents_put_seq:
  assumes "represents ix L"
  shows "represents (ix\<lparr>px_last_seq := dput (px_last_seq ix) owner n\<rparr>) L"
  by (rule representsI) (use representsD [OF assms] in \<open>simp_all add: locs_at_def keys_of_def\<close>)

lemma represents_touch:
  assumes "represents ix L"
  shows "represents (ix\<lparr>px_forward := dsetdefault (px_forward ix) owner {}\<rparr>) L"
proof (rule representsI)
  fix w
  have "keys_of (ix\<lparr>px_forward := dsetdefault (px_forward ix) owner {}\<rparr>) w = keys_of ix w"
    by (simp add: keys_of_def dict_simps) (simp add: dget_or_def)
  then show "keys_of (ix\<lparr>px_forward := dsetdefault (px_forward ix) owner {}\<rparr>) w = location_key ` {l \<in> L. owner_of l = w}"
    by (simp only: representsD(7) [OF assms])
qed (use representsD [OF assms] in \<open>simp_all add: locs_at_def\<close>)

lemma represents_add:
  assumes "represents ix L"
  shows "represents (add_location ix l) (insert l L)"
proof -
  note r = representsD [OF assms]
  have "locs_at (add_location ix l) key = {l' \<in> insert l L. location_key l' = key}" for key
    using r(6) [of key] by (auto simp: locs_at_def add_location_def Let_def dict_simps)
  moreover have "keys_of (add_location ix l) owner = location_key ` {l' \<in> insert l L. owner_of l' = owner}" for owner
    using r(7) [of owner] by (auto simp: keys_of_def add_location_def Let_def dict_simps)
  ultimately show ?thesis
    using r(1-5) by (intro representsI) (simp_all add: add_location_def Let_def dict_simps)
qed

definition blocks_at :: "prefix_key \<Rightarrow> owner \<Rightarrow> int \<Rightarrow> cache_location set" where
  "blocks_at key owner block_id = {l. location_key l = key \<and> owner_of l = owner \<and> cl_block_id l = block_id}"

lemma remove_block_fields:
  "px_index (remove_block ix key owner b) =
     put_or_drop (px_index ix) key {item \<in> dget_or (px_index ix) key {}. owner_of item \<noteq> owner \<or> cl_block_id item \<noteq> b}"
  "px_last_seq (remove_block ix key owner b) = px_last_seq ix"
  "px_forward (remove_block ix key owner b) =
     (if \<exists>item \<in> locs_at (remove_block ix key owner b) key. owner_of item = owner then px_forward ix
      else dput (px_forward ix) owner (keys_of ix owner - {key}))"
proof -
  let ?kept = "{item \<in> dget_or (px_index ix) key {}. owner_of item \<noteq> owner \<or> cl_block_id item \<noteq> b}"
  show i: "px_index (remove_block ix key owner b) = put_or_drop (px_index ix) key ?kept"
    and "px_last_seq (remove_block ix key owner b) = px_last_seq ix"
    by (simp_all add: remove_block_def Let_def)
  have l: "locs_at (remove_block ix key owner b) key = ?kept" unfolding locs_at_def i by (simp add: dict_simps)
  show "px_forward (remove_block ix key owner b) =
     (if \<exists>item \<in> locs_at (remove_block ix key owner b) key. owner_of item = owner then px_forward ix
      else dput (px_forward ix) owner (keys_of ix owner - {key}))"
    unfolding l unfolding remove_block_def Let_def keys_of_def
    by (simp add: put_or_drop_laws(1) del: bex_simps)
qed

lemma represents_remove_block:
  assumes "represents ix L"
  shows "represents (remove_block ix key owner b) (L - blocks_at key owner b)"
proof -
  note r = representsD [OF assms]
  let ?h = "remove_block ix key owner b" and ?L = "L - blocks_at key owner b"
  let ?kept = "{item \<in> dget_or (px_index ix) key {}. owner_of item \<noteq> owner \<or> cl_block_id item \<noteq> b}"
  have i: "px_index ?h = put_or_drop (px_index ix) key ?kept" by (simp add: remove_block_def Let_def)
  have l: "locs_at ?h k = {l \<in> ?L. location_key l = k}" for k
    using r(6) [of k] by (auto simp: locs_at_def i dict_simps blocks_at_def)
  have "keys_of ?h w = location_key ` {l \<in> ?L. owner_of l = w}" for w
  proof (cases "w = owner \<and> \<not> (\<exists>item \<in> ?kept. owner_of item = owner)")
    case True
    then have "keys_of ?h w = keys_of ix w - {key}" by (auto simp: keys_of_def remove_block_def Let_def dict_simps)
    moreover have "\<not> (\<exists>l \<in> ?L. location_key l = key \<and> owner_of l = w)"
      using True l [of key] by (auto simp: locs_at_def i dict_simps)
    ultimately show ?thesis unfolding r(7) by (auto simp: blocks_at_def)
  next
    case False
    then have k: "keys_of ?h w = keys_of ix w" by (auto simp: keys_of_def remove_block_def Let_def dict_simps)
    show ?thesis
    proof (cases "w = owner")
      case True
      with False l [of key] have "key \<in> location_key ` {l \<in> ?L. owner_of l = w}"
        by (auto simp: locs_at_def i dict_simps)
      moreover have "location_key l \<in> location_key ` {l \<in> ?L. owner_of l = w}"
        if "l \<in> L" "owner_of l = w" "location_key l \<noteq> key" for l
        using that by (auto simp: blocks_at_def)
      ultimately have "location_key l \<in> location_key ` {l \<in> ?L. owner_of l = w}" if "l \<in> L" "owner_of l = w" for l
        using that by (cases "location_key l = key") simp_all
      then show ?thesis unfolding k r(7) by blast
    qed (auto simp: k r(7) blocks_at_def)
  qed
  moreover have "wf_dict (px_forward ?h)" "px_last_seq ?h = px_last_seq ix"
    using r(2) by (simp_all add: remove_block_def Let_def)
  ultimately show ?thesis
    using r(1,3,4,5) l by (intro representsI) (simp_all add: i dict_simps)
qed

text \<open>The order in which the keys of a set are visited.\<close>

definition enumerates :: "('a set \<Rightarrow> 'a list) \<Rightarrow> bool" where
  "enumerates keys \<longleftrightarrow> (\<forall>S. finite S \<longrightarrow> set (keys S) = S)"

lemma foldl_remove_owner_key:
  "dget_or (foldl (remove_owner_key owner) d ks) k {} =
     (if k \<in> set ks then {l \<in> dget_or d k {}. owner_of l \<noteq> owner} else dget_or d k {})"
proof (induction ks arbitrary: d)
  case (Cons j ks)
  have "dget_or (remove_owner_key owner d j) k {} =
      (if k = j then {l \<in> dget_or d j {}. owner_of l \<noteq> owner} else dget_or d k {})"
    by (simp add: remove_owner_key_def dict_simps)
  with Cons show ?case by auto
qed simp

lemma wf_remove_owner_key: "wf_dict d \<Longrightarrow> wf_dict (foldl (remove_owner_key owner) d ks)"
  by (induction ks arbitrary: d) (simp_all add: remove_owner_key_def)

lemma filled_remove_owner_key:
  "(\<And>k. dget d k \<noteq> Some {}) \<Longrightarrow> dget (foldl (remove_owner_key owner) d ks) k \<noteq> Some {}"
proof (induction ks arbitrary: d)
  case (Cons j ks)
  have "dget (remove_owner_key owner d j) k \<noteq> Some {}" for k
    using Cons.prems by (simp add: remove_owner_key_def dict_simps)
  from Cons.IH [OF this] show ?case by simp
qed simp

lemma represents_remove_owner:
  assumes "represents ix L" "enumerates keys"
  shows "represents (remove_owner keys ix owner) {l \<in> L. owner_of l \<noteq> owner}"
proof -
  note r = representsD [OF assms(1)]
  let ?h = "remove_owner keys ix owner"
  have ks: "set (keys (keys_of ix owner)) = keys_of ix owner"
    using assms(2) r(4) unfolding enumerates_def r(7) by auto
  have "locs_at ?h k = {l \<in> locs_at ix k. owner_of l \<noteq> owner}" for k
  proof (cases "k \<in> keys_of ix owner")
    case True
    with ks show ?thesis by (simp add: locs_at_def remove_owner_def foldl_remove_owner_key keys_of_def)
  next
    case False
    then have "\<not> (\<exists>l \<in> locs_at ix k. owner_of l = owner)" by (auto simp: r)
    with False ks show ?thesis by (auto simp: locs_at_def remove_owner_def foldl_remove_owner_key keys_of_def)
  qed
  moreover have "keys_of ?h w = (if w = owner then {} else keys_of ix w)" for w
    by (simp add: keys_of_def remove_owner_def dict_simps)
  ultimately show ?thesis
    using r(1-4) wf_remove_owner_key filled_remove_owner_key [OF r(5)]
    by (intro representsI) (auto simp: remove_owner_def r(6,7))
qed

subsection \<open>The abstract index and the simulation\<close>

text \<open>
  What the index promises: a set of locations, the owners it knows, and a cursor per owner.  Reports
  replace, events add and remove, and a failed operation keeps what it did before it failed.
\<close>

record prefix_spec =
  ps_locs :: "cache_location set"
  ps_known :: "owner set"
  ps_cursor :: "owner \<Rightarrow> int option"

datatype prefix_op =
  ApplyEvents owner "prefix_event list"
| FullReport owner int "cache_location list"
| WorldReports "(owner \<times> int \<times> cache_location list) list" "owner set"
| RemoveOwner owner
| RemoveInstance string
| ClearIndex

fun px_exec :: "(prefix_key set \<Rightarrow> prefix_key list) \<Rightarrow> prefix_index \<Rightarrow> prefix_op \<Rightarrow> prefix_index" where
  "px_exec keys ix (ApplyEvents owner events) = fst (apply_events ix owner events)"
| "px_exec keys ix (FullReport owner n locations) = fst (install_full_report keys ix owner n locations)"
| "px_exec keys ix (WorldReports reports owners) = fst (install_world_full_reports ix reports owners)"
| "px_exec keys ix (RemoveOwner owner) = remove_owner keys ix owner"
| "px_exec keys ix (RemoveInstance i) = remove_instance keys ix i"
| "px_exec keys ix ClearIndex = clear ix"

fun spec_events :: "prefix_spec \<Rightarrow> owner \<Rightarrow> int \<Rightarrow> prefix_event list \<Rightarrow> prefix_spec \<times> (prefix_error + int)" where
  "spec_events sp owner cursor [] = (sp, Inr cursor)"
| "spec_events sp owner cursor (e # es) =
     (if owner_of (pe_location e) \<noteq> owner then (sp, Inl OwnerMismatch)
      else if pe_seq_no e \<le> cursor then spec_events sp owner cursor es
      else if pe_seq_no e \<noteq> cursor + 1 then (sp, Inl (FullReportRequired (cursor + 1) (pe_seq_no e)))
      else if pe_kind e = ''hash_added'' then
        spec_events (sp\<lparr>ps_locs := insert (pe_location e) (ps_locs sp), ps_known := insert owner (ps_known sp)\<rparr>)
          owner (pe_seq_no e) es
      else if pe_kind e = ''evicted'' then
        spec_events (sp\<lparr>ps_locs := ps_locs sp - blocks_at (location_key (pe_location e)) owner (cl_block_id (pe_location e)),
            ps_known := insert owner (ps_known sp)\<rparr>) owner (pe_seq_no e) es
      else (sp, Inl (UnsupportedEvent (pe_kind e))))"

definition spec_apply :: "prefix_spec \<Rightarrow> owner \<Rightarrow> prefix_event list \<Rightarrow> prefix_spec \<times> (prefix_error + int)" where
  "spec_apply sp owner es =
     (case spec_events sp owner (case ps_cursor sp owner of None \<Rightarrow> 0 | Some n \<Rightarrow> n) es of
        (sp1, Inl e) \<Rightarrow> (sp1, Inl e)
      | (sp1, Inr n) \<Rightarrow> (sp1\<lparr>ps_cursor := (ps_cursor sp1)(owner \<mapsto> n)\<rparr>, Inr n))"

definition owned :: "owner \<Rightarrow> cache_location list \<Rightarrow> cache_location list" where
  "owned owner ls = takeWhile (\<lambda>l. owner_of l = owner) ls"

definition spec_report :: "prefix_spec \<Rightarrow> owner \<Rightarrow> int \<Rightarrow> cache_location list \<Rightarrow> prefix_spec" where
  "spec_report sp owner n ls =
     \<lparr>ps_locs = {l \<in> ps_locs sp. owner_of l \<noteq> owner} \<union> set (owned owner ls),
      ps_known = ps_known sp - {owner} \<union> (if owned owner ls = [] then {} else {owner}),
      ps_cursor = (ps_cursor sp)(owner := if owned owner ls = ls then Some n else None)\<rparr>"

definition reports_ok :: "(owner \<times> int \<times> cache_location list) list \<Rightarrow> bool" where
  "reports_ok rs \<longleftrightarrow> distinct (map fst rs) \<and> (\<forall>(owner, n, ls) \<in> set rs. 0 \<le> n \<and> owned owner ls = ls)"

definition report_locs :: "(owner \<times> int \<times> cache_location list) list \<Rightarrow> cache_location set" where
  "report_locs rs = (\<Union>(owner, n, ls) \<in> set rs. set ls)"

definition report_cursors :: "(owner \<times> int \<times> cache_location list) list \<Rightarrow> owner \<Rightarrow> int option" where
  "report_cursors rs = map_of (map (\<lambda>(owner, n, ls). (owner, n)) rs)"

fun spec_exec :: "prefix_spec \<Rightarrow> prefix_op \<Rightarrow> prefix_spec" where
  "spec_exec sp (ApplyEvents owner es) = fst (spec_apply sp owner es)"
| "spec_exec sp (FullReport owner n ls) = spec_report sp owner n ls"
| "spec_exec sp (WorldReports rs owners) =
     (if reports_ok rs \<and> set (map fst rs) = owners
      then \<lparr>ps_locs = report_locs rs, ps_known = owners, ps_cursor = report_cursors rs\<rparr> else sp)"
| "spec_exec sp (RemoveOwner owner) =
     \<lparr>ps_locs = {l \<in> ps_locs sp. owner_of l \<noteq> owner}, ps_known = ps_known sp - {owner},
      ps_cursor = (ps_cursor sp)(owner := None)\<rparr>"
| "spec_exec sp (RemoveInstance i) =
     \<lparr>ps_locs = {l \<in> ps_locs sp. cl_instance_id l \<noteq> i}, ps_known = {w \<in> ps_known sp. fst w \<noteq> i},
      ps_cursor = (\<lambda>w. if fst w = i \<and> w \<in> ps_known sp then None else ps_cursor sp w)\<rparr>"
| "spec_exec sp ClearIndex = \<lparr>ps_locs = {}, ps_known = {}, ps_cursor = Map.empty\<rparr>"

definition prefix_abs :: "prefix_index \<Rightarrow> prefix_spec" where
  "prefix_abs ix = \<lparr>ps_locs = locs ix, ps_known = set (dkeys (px_forward ix)), ps_cursor = dget (px_last_seq ix)\<rparr>"

definition simulates :: "prefix_index \<Rightarrow> prefix_spec \<Rightarrow> bool" where
  "simulates ix sp \<longleftrightarrow> represents ix (ps_locs sp) \<and> set (dkeys (px_forward ix)) = ps_known sp \<and>
     dget (px_last_seq ix) = ps_cursor sp"

lemma simulates_iff: "simulates ix sp \<longleftrightarrow> px_inv ix \<and> prefix_abs ix = sp"
  using represents_locs [of ix] by (cases sp) (auto simp: simulates_def px_inv_def prefix_abs_def)

lemma keys_dput [simp]: "fst ` set (dput d k v) = insert k (fst ` set d)"
  by (induction d) auto

lemma keys_dpop [simp]: "fst ` set (dpop d k) = fst ` set d - {k}"
  by (induction d) auto

lemma keys_dsetdefault [simp]: "fst ` set (dsetdefault d k v) = insert k (fst ` set d)"
  by (auto simp: dsetdefault_def map_of_eq_None_iff)

lemma simulates_add:
  assumes "simulates ix sp" "owner_of l = owner"
  shows "simulates (add_location ix l) (sp\<lparr>ps_locs := insert l (ps_locs sp), ps_known := insert owner (ps_known sp)\<rparr>)"
  using assms represents_add [of ix "ps_locs sp" l] unfolding simulates_def
  by (simp add: add_location_def Let_def)

lemma simulates_remove_block:
  assumes "simulates ix sp" "owner = owner_of l"
  shows "simulates (remove_block ix (location_key l) owner b)
    (sp\<lparr>ps_locs := ps_locs sp - blocks_at (location_key l) owner b, ps_known := insert owner (ps_known sp)\<rparr>)"
proof -
  let ?h = "remove_block ix (location_key l) owner b"
  have r: "represents ix (ps_locs sp)" using assms(1) by (simp add: simulates_def)
  note h = represents_remove_block [OF r, of "location_key l" owner b]
  note f = remove_block_fields(3) [of ix "location_key l" owner b]
  have "fst ` set (px_forward ?h) = insert owner (fst ` set (px_forward ix))"
  proof (cases "\<exists>item \<in> locs_at ?h (location_key l). owner_of item = owner")
    case True
    then obtain item where "item \<in> ps_locs sp" "owner_of item = owner" unfolding representsD(6) [OF h] by blast
    then have "keys_of ix owner \<noteq> {}" unfolding representsD(7) [OF r] by blast
    then have "dhas (px_forward ix) owner" by (simp add: keys_of_def dget_or_def split: option.splits)
    then have "owner \<in> fst ` set (px_forward ix)" by (simp add: map_of_eq_None_iff)
    with f True show ?thesis by (simp add: insert_absorb)
  next
    case False
    with f show ?thesis by simp
  qed
  with assms(1) h show ?thesis by (simp add: simulates_def remove_block_fields(2))
qed

lemma simulates_seq: "simulates ix sp \<Longrightarrow> px_last_seq h = px_last_seq ix \<Longrightarrow> dget (px_last_seq h) = ps_cursor sp"
  by (simp add: simulates_def)

lemma simulates_put_seq:
  "simulates ix sp \<Longrightarrow>
     simulates (ix\<lparr>px_last_seq := dput (px_last_seq ix) owner n\<rparr>) (sp\<lparr>ps_cursor := (ps_cursor sp)(owner \<mapsto> n)\<rparr>)"
  by (simp add: simulates_def represents_put_seq dict_simps fun_upd_def)

lemma simulates_events:
  "simulates ix sp \<Longrightarrow>
     \<exists>h sp' r. apply_event_loop ix owner n es = (h, r) \<and> spec_events sp owner n es = (sp', r) \<and> simulates h sp'"
proof (induction es arbitrary: ix sp n)
  case (Cons e es)
  let ?l = "pe_location e"
  show ?case
  proof (cases "owner_of ?l = owner \<and> n < pe_seq_no e \<and> pe_seq_no e = n + 1")
    case True
    note a = simulates_add [OF Cons.prems, of ?l owner]
    note b = simulates_remove_block [OF Cons.prems, of owner ?l "cl_block_id ?l"]
    from True Cons.prems Cons.IH [OF a, of "n + 1"] Cons.IH [OF b, of "n + 1"] show ?thesis by (auto simp: Let_def)
  next
    case False
    with Cons.prems Cons.IH [OF Cons.prems, of n] show ?thesis by (auto simp: Let_def)
  qed
qed simp

lemma simulates_apply:
  assumes "simulates ix sp"
  shows "\<exists>h sp' r. apply_events ix owner es = (h, r) \<and> spec_apply sp owner es = (sp', r) \<and> simulates h sp'"
proof -
  have c: "dget_or (px_last_seq ix) owner 0 = (case ps_cursor sp owner of None \<Rightarrow> 0 | Some n \<Rightarrow> n)"
    using assms by (simp add: simulates_def dget_or_def)
  from simulates_events [OF assms, of owner "dget_or (px_last_seq ix) owner 0" es] obtain h sp' r where
    e: "apply_event_loop ix owner (dget_or (px_last_seq ix) owner 0) es = (h, r)"
      "spec_events sp owner (dget_or (px_last_seq ix) owner 0) es = (sp', r)" "simulates h sp'" by blast
  then show ?thesis
    unfolding apply_events_def spec_apply_def c [symmetric] using simulates_put_seq by (cases r) auto
qed

lemma add_locations_owned:
  assumes "simulates ix sp"
  shows "\<exists>h. add_locations ix owner ls = (h, if owned owner ls = ls then Inr () else Inl OwnerMismatch) \<and>
    px_last_seq h = px_last_seq ix \<and> px_max_age_s h = px_max_age_s ix \<and>
    simulates h (sp\<lparr>ps_locs := ps_locs sp \<union> set (owned owner ls),
      ps_known := ps_known sp \<union> (if owned owner ls = [] then {} else {owner})\<rparr>)"
  using assms
proof (induction ls arbitrary: ix sp)
  case (Cons l ls)
  show ?case
  proof (cases "owner_of l = owner")
    case True
    have k: "insert owner (K \<union> (if c then {} else {owner})) = insert owner K" for K c by auto
    have "px_last_seq (add_location ix l) = px_last_seq ix" "px_max_age_s (add_location ix l) = px_max_age_s ix"
      by (simp_all add: add_location_def Let_def)
    with Cons.IH [OF simulates_add [OF Cons.prems True]] True show ?thesis by (simp add: owned_def k split del: if_split)
  qed (use Cons.prems in \<open>simp add: owned_def\<close>)
qed (simp add: owned_def)

lemma simulates_remove_owner:
  "simulates ix sp \<Longrightarrow> enumerates keys \<Longrightarrow> simulates (remove_owner keys ix owner) (spec_exec sp (RemoveOwner owner))"
  using represents_remove_owner [of ix "ps_locs sp" keys owner]
  by (simp add: simulates_def remove_owner_def dict_simps fun_upd_def)

lemma simulates_report:
  assumes "simulates ix sp" "enumerates keys"
  shows "simulates (fst (install_full_report keys ix owner n ls)) (spec_report sp owner n ls)"
proof -
  from add_locations_owned [OF simulates_remove_owner [OF assms, of owner], of owner ls] obtain h where
    h: "add_locations (remove_owner keys ix owner) owner ls = (h, if owned owner ls = ls then Inr () else Inl OwnerMismatch)"
      "simulates h ((spec_exec sp (RemoveOwner owner))\<lparr>ps_locs := ps_locs (spec_exec sp (RemoveOwner owner)) \<union> set (owned owner ls),
        ps_known := ps_known (spec_exec sp (RemoveOwner owner)) \<union> (if owned owner ls = [] then {} else {owner})\<rparr>)" by blast
  show ?thesis
    using h simulates_put_seq [OF h(2), of owner n]
    by (auto simp: install_full_report_def spec_report_def)
qed

text \<open>The checks of the staging loop, and the cursors it leaves.\<close>

fun stageable :: "(owner \<Rightarrow> int option) \<Rightarrow> (owner \<times> int \<times> cache_location list) list \<Rightarrow> bool" where
  "stageable c [] = True"
| "stageable c ((owner, n, ls) # rs) \<longleftrightarrow>
     c owner = None \<and> 0 \<le> n \<and> owned owner ls = ls \<and> stageable (c(owner \<mapsto> n)) rs"

fun staged_cursors :: "(owner \<Rightarrow> int option) \<Rightarrow> (owner \<times> int \<times> cache_location list) list \<Rightarrow> owner \<Rightarrow> int option" where
  "staged_cursors c [] = c"
| "staged_cursors c ((owner, n, ls) # rs) = staged_cursors (c(owner \<mapsto> n)) rs"

lemma stageable_iff:
  "stageable c rs \<longleftrightarrow> distinct (map fst rs) \<and> (\<forall>r \<in> set rs. c (fst r) = None) \<and>
     (\<forall>(owner, n, ls) \<in> set rs. 0 \<le> n \<and> owned owner ls = ls)"
proof (induction rs arbitrary: c)
  case (Cons r rs)
  obtain owner n ls where r: "r = (owner, n, ls)" by (cases r)
  have "(\<forall>r \<in> set rs. (c(owner \<mapsto> n)) (fst r) = None) \<longleftrightarrow>
      owner \<notin> fst ` set rs \<and> (\<forall>r \<in> set rs. c (fst r) = None)" by (auto simp: image_iff)
  then show ?case unfolding r stageable.simps Cons.IH [of "c(owner \<mapsto> n)"] by (simp del: fun_upd_apply) blast
qed simp

lemma staged_cursors_at:
  "distinct (map fst rs) \<Longrightarrow> staged_cursors c rs w = (case report_cursors rs w of None \<Rightarrow> c w | Some n \<Rightarrow> Some n)"
proof (induction rs arbitrary: c)
  case (Cons r rs)
  obtain owner n ls where r: "r = (owner, n, ls)" by (cases r)
  have "report_cursors rs owner = None"
    using Cons.prems by (auto simp: r report_cursors_def map_of_eq_None_iff image_image case_prod_beta)
  with Cons show ?case by (auto simp: r report_cursors_def split: option.split)
qed (simp add: report_cursors_def)

lemma report_locs_simps [simp]:
  "report_locs [] = {}" "report_locs ((owner, n, ls) # rs) = set ls \<union> report_locs rs"
  by (auto simp: report_locs_def)

lemma stage_simulates:
  assumes "simulates ix sp"
  shows "(stageable (ps_cursor sp) rs \<and> (\<exists>h. stage_reports ix rs = Inr h \<and> px_max_age_s h = px_max_age_s ix \<and>
      simulates h \<lparr>ps_locs = ps_locs sp \<union> report_locs rs, ps_known = ps_known sp \<union> fst ` set rs,
        ps_cursor = staged_cursors (ps_cursor sp) rs\<rparr>)) \<or>
    (\<not> stageable (ps_cursor sp) rs \<and> (\<exists>e. stage_reports ix rs = Inl e))"
  using assms
proof (induction rs arbitrary: ix sp)
  case Nil
  then show ?case by (cases sp) simp
next
  case (Cons rep rs)
  obtain owner n ls where rep: "rep = (owner, n, ls)" by (cases rep)
  let ?t = "ix\<lparr>px_forward := dsetdefault (px_forward ix) owner {}\<rparr>"
  have t: "simulates ?t (sp\<lparr>ps_known := insert owner (ps_known sp)\<rparr>)"
    using Cons.prems represents_touch by (simp add: simulates_def)
  from add_locations_owned [OF t, of owner ls] obtain h where h:
    "add_locations ?t owner ls = (h, if owned owner ls = ls then Inr () else Inl OwnerMismatch)"
    "px_last_seq h = px_last_seq ix" "px_max_age_s h = px_max_age_s ix"
    "simulates h (sp\<lparr>ps_known := insert owner (ps_known sp), ps_locs := ps_locs sp \<union> set (owned owner ls),
      ps_known := insert owner (ps_known sp) \<union> (if owned owner ls = [] then {} else {owner})\<rparr>)" by auto
  let ?h = "h\<lparr>px_last_seq := dput (px_last_seq h) owner n\<rparr>"
  let ?sp = "sp\<lparr>ps_locs := ps_locs sp \<union> set ls, ps_known := insert owner (ps_known sp), ps_cursor := (ps_cursor sp)(owner \<mapsto> n)\<rparr>"
  have has: "dhas (px_last_seq ix) owner \<longleftrightarrow> ps_cursor sp owner \<noteq> None" using Cons.prems by (simp add: simulates_def)
  show ?case
  proof (cases "ps_cursor sp owner = None \<and> 0 \<le> n \<and> owned owner ls = ls")
    case False
    with has h(1) have "\<exists>e. stage_reports ix (rep # rs) = Inl e" by (auto simp: rep)
    moreover from False have "\<not> stageable (ps_cursor sp) (rep # rs)" by (auto simp: rep)
    ultimately show ?thesis by blast
  next
    case True
    then have st: "stage_reports ix (rep # rs) = stage_reports ?h rs" using has h(1) by (simp add: rep)
    have k: "insert owner (K \<union> (if c then {} else {owner})) = insert owner K" for K c by auto
    have "simulates ?h ?sp"
      using simulates_put_seq [OF h(4), of owner n] True by (simp add: k split del: if_split)
    from Cons.IH [OF this] True h(3) show ?thesis unfolding st by (simp add: rep Un_assoc fun_upd_def)
  qed
qed

lemma simulates_clear: "simulates (clear ix) (spec_exec sp ClearIndex)"
  using represents_empty [of ix] by (simp add: simulates_def clear_def)

lemma simulates_world:
  assumes "simulates ix sp"
  shows "simulates (fst (install_world_full_reports ix rs owners)) (spec_exec sp (WorldReports rs owners))"
proof -
  let ?c = "spec_exec sp ClearIndex"
  have ok: "stageable (ps_cursor ?c) rs \<longleftrightarrow> reports_ok rs" by (simp add: stageable_iff reports_ok_def)
  from stage_simulates [OF simulates_clear [of ix sp], of rs] show ?thesis
  proof (elim disjE conjE exE)
    fix h
    assume st: "stageable (ps_cursor ?c) rs" and e: "stage_reports (clear ix) rs = Inr h" and
      h: "simulates h \<lparr>ps_locs = ps_locs ?c \<union> report_locs rs, ps_known = ps_known ?c \<union> fst ` set rs,
        ps_cursor = staged_cursors (ps_cursor ?c) rs\<rparr>"
    from st have d: "distinct (map fst rs)" and r: "reports_ok rs" unfolding ok by (simp_all add: reports_ok_def)
    have c: "staged_cursors (ps_cursor ?c) rs = report_cursors rs"
      by (rule ext) (simp add: staged_cursors_at [OF d] split: option.split)
    note h = h [unfolded c]
    from h have "dget (px_last_seq h) = report_cursors rs" by (simp add: simulates_def)
    moreover have "dom (report_cursors rs) = fst ` set rs"
      by (force simp: report_cursors_def dom_map_of_conv_image_fst)
    ultimately have "fst ` set (px_last_seq h) = fst ` set rs" by (metis dom_map_of_conv_image_fst)
    with r e h assms show ?thesis by (auto simp: install_world_full_reports_def)
  qed (use assms ok in \<open>auto simp: install_world_full_reports_def\<close>)
qed

lemma simulates_remove_owners:
  assumes "simulates ix sp" "enumerates keys"
  shows "simulates (foldl (remove_owner keys) ix ws)
    \<lparr>ps_locs = {l \<in> ps_locs sp. owner_of l \<notin> set ws}, ps_known = ps_known sp - set ws,
     ps_cursor = (\<lambda>w. if w \<in> set ws then None else ps_cursor sp w)\<rparr>"
  using assms(1)
proof (induction ws arbitrary: ix sp)
  case Nil
  then show ?case by (cases sp) simp
next
  case (Cons w ws)
  have eq: "{l \<in> {l \<in> L. owner_of l \<noteq> w}. owner_of l \<notin> set ws} = {l \<in> L. owner_of l \<notin> set (w # ws)}"
    "K - {w} - set ws = K - set (w # ws)" for L K by auto
  have c: "(\<lambda>v. if v \<in> set ws then None else (c(w := None)) v) = (\<lambda>v. if v \<in> set (w # ws) then None else c v)"
    for c :: "owner \<Rightarrow> int option" by (auto simp: fun_eq_iff)
  from Cons.IH [OF simulates_remove_owner [OF Cons.prems assms(2), of w]] show ?case
    by (simp only: spec_exec.simps prefix_spec.simps eq c foldl_Cons)
qed

lemma simulates_known: "simulates ix sp \<Longrightarrow> l \<in> ps_locs sp \<Longrightarrow> owner_of l \<in> ps_known sp"
proof -
  assume s: "simulates ix sp" and l: "l \<in> ps_locs sp"
  then have r: "represents ix (ps_locs sp)" by (simp add: simulates_def)
  from l have "keys_of ix (owner_of l) \<noteq> {}" unfolding representsD(7) [OF r] by blast
  then have "dhas (px_forward ix) (owner_of l)" by (simp add: keys_of_def dget_or_def split: option.splits)
  with s show ?thesis by (simp add: simulates_def map_of_eq_None_iff)
qed

lemma simulates_instance:
  assumes "simulates ix sp" "enumerates keys"
  shows "simulates (remove_instance keys ix i) (spec_exec sp (RemoveInstance i))"
proof -
  let ?ws = "filter (\<lambda>w. fst w = i) (dkeys (px_forward ix))"
  have k: "set (dkeys (px_forward ix)) = ps_known sp" using assms(1) by (simp add: simulates_def)
  have w: "w \<in> set ?ws \<longleftrightarrow> w \<in> ps_known sp \<and> fst w = i" for w by (simp only: set_filter k mem_Collect_eq)
  have "{l \<in> ps_locs sp. owner_of l \<notin> set ?ws} = {l \<in> ps_locs sp. cl_instance_id l \<noteq> i}"
    unfolding w using simulates_known [OF assms(1)] by (auto simp: owner_of_def)
  moreover have "ps_known sp - set ?ws = {w \<in> ps_known sp. fst w \<noteq> i}" unfolding set_filter k by blast
  moreover have "(\<lambda>v. if v \<in> set ?ws then None else ps_cursor sp v) =
      (\<lambda>v. if fst v = i \<and> v \<in> ps_known sp then None else ps_cursor sp v)"
    unfolding w by (simp add: conj_commute)
  ultimately show ?thesis
    using simulates_remove_owners [OF assms, of ?ws] by (simp only: remove_instance_def spec_exec.simps)
qed

lemma simulates_step:
  assumes "simulates ix sp" "enumerates keys"
  shows "simulates (px_exec keys ix op) (spec_exec sp op)"
proof (cases op)
  case (ApplyEvents owner es)
  with simulates_apply [OF assms(1), of owner es] show ?thesis by auto
qed (use assms simulates_report simulates_world simulates_remove_owner simulates_instance simulates_clear in \<open>auto simp del: spec_exec.simps(3-6)\<close>)

lemma simulates_matches:
  assumes "simulates ix sp"
  shows "fresh_locations ix now key =
    {l \<in> ps_locs sp. location_key l = key \<and> now - cl_last_updated l \<le> px_max_age_s ix}"
  using representsD(6) [of ix "ps_locs sp" key] assms
  by (auto simp: simulates_def fresh_locations_def locs_at_def)

subsection \<open>Replaying events\<close>

lemma loop_append:
  "apply_event_loop ix owner n (es1 @ es2) =
     (case apply_event_loop ix owner n es1 of (h, Inl e) \<Rightarrow> (h, Inl e) | (h, Inr m) \<Rightarrow> apply_event_loop h owner m es2)"
  by (induction ix owner n es1 rule: apply_event_loop.induct) (auto simp: Let_def)

lemma spec_append:
  "spec_events sp owner n (es1 @ es2) =
     (case spec_events sp owner n es1 of (h, Inl e) \<Rightarrow> (h, Inl e) | (h, Inr m) \<Rightarrow> spec_events h owner m es2)"
  by (induction sp owner n es1 rule: spec_events.induct) auto

lemma loop_cursor:
  "apply_event_loop ix owner n es = (h, Inr m) \<Longrightarrow>
     n \<le> m \<and> (\<forall>e \<in> set es. owner_of (pe_location e) = owner \<and> pe_seq_no e \<le> m) \<and> px_last_seq h = px_last_seq ix"
proof (induction es arbitrary: ix n)
  case (Cons e es)
  let ?l = "pe_location e"
  have keep: "px_last_seq (add_location ix ?l) = px_last_seq ix"
    "px_last_seq (remove_block ix (location_key ?l) owner (cl_block_id ?l)) = px_last_seq ix"
    by (simp_all add: add_location_def Let_def remove_block_fields(2))
  show ?case
  proof (cases "pe_seq_no e \<le> n")
    case True
    with Cons.prems have "apply_event_loop ix owner n es = (h, Inr m)" "owner_of ?l = owner"
      by (simp_all add: Let_def split: if_splits)
    with Cons.IH [of ix n] True show ?thesis by simp
  next
    case False
    with Cons.prems have "owner_of ?l = owner \<and> pe_seq_no e = n + 1 \<and>
        (apply_event_loop (add_location ix ?l) owner (n + 1) es = (h, Inr m) \<or>
         apply_event_loop (remove_block ix (location_key ?l) owner (cl_block_id ?l)) owner (n + 1) es = (h, Inr m))"
      by (simp add: Let_def split: if_splits)
    with Cons.IH keep show ?thesis by fastforce
  qed
qed simp

lemma loop_skips:
  "\<forall>e \<in> set es. owner_of (pe_location e) = owner \<and> pe_seq_no e \<le> m \<Longrightarrow> apply_event_loop ix owner m es = (ix, Inr m)"
  by (induction es) (auto simp: Let_def)

text \<open>
  The effect of events on the set of locations: what a batch removes and what it adds do not depend on
  the set, so doing a batch twice is doing it once.
\<close>

definition batch_effect ::
  "owner \<Rightarrow> int \<Rightarrow> prefix_event list \<Rightarrow> cache_location set \<Rightarrow> cache_location set \<Rightarrow> owner set \<Rightarrow> prefix_error + int \<Rightarrow> bool" where
  "batch_effect owner n es K A N r \<longleftrightarrow>
     (\<forall>sp. spec_events sp owner n es = (sp\<lparr>ps_locs := ps_locs sp - K \<union> A, ps_known := ps_known sp \<union> N\<rparr>, r))"

lemma batch_effectD:
  "batch_effect owner n es K A N r \<Longrightarrow>
     spec_events sp owner n es = (sp\<lparr>ps_locs := ps_locs sp - K \<union> A, ps_known := ps_known sp \<union> N\<rparr>, r)"
  unfolding batch_effect_def by (rule spec)

lemma spec_effect: "\<exists>K A N r. batch_effect owner n es K A N r"
proof (induction es arbitrary: n)
  case Nil
  have "batch_effect owner n [] {} {} {} (Inr n)" by (simp add: batch_effect_def)
  then show ?case by blast
next
  case (Cons e es)
  let ?l = "pe_location e" and ?B = "blocks_at (location_key (pe_location e)) owner (cl_block_id (pe_location e))"
  show ?case
  proof (cases "owner_of ?l = owner \<and> n < pe_seq_no e \<and> pe_seq_no e = n + 1 \<and> pe_kind e \<in> {''hash_added'', ''evicted''}")
    case True
    from Cons.IH [of "n + 1"] obtain K A N r where "batch_effect owner (n + 1) es K A N r" by blast
    note ih = batch_effectD [OF this]
    obtain K1 A1 where step: "\<And>sp. spec_events sp owner n (e # es) =
      spec_events (sp\<lparr>ps_locs := ps_locs sp - K1 \<union> A1, ps_known := insert owner (ps_known sp)\<rparr>) owner (n + 1) es"
    proof (cases "pe_kind e = ''hash_added''")
      case add: True
      with True that [of "{}" "{?l}"] show ?thesis by simp
    next
      case evict: False
      with True that [of ?B "{}"] show ?thesis by simp
    qed
    have eq: "(L - K1 \<union> A1) - K \<union> A = L - (K1 \<union> K) \<union> ((A1 - K) \<union> A)" "insert owner M \<union> N = M \<union> insert owner N"
      for L M by blast+
    have "batch_effect owner n (e # es) (K1 \<union> K) ((A1 - K) \<union> A) (insert owner N) r"
      unfolding batch_effect_def
    proof
      fix sp
      show "spec_events sp owner n (e # es) =
          (sp\<lparr>ps_locs := ps_locs sp - (K1 \<union> K) \<union> ((A1 - K) \<union> A), ps_known := ps_known sp \<union> insert owner N\<rparr>, r)"
        unfolding step ih by (cases sp) (simp only: prefix_spec.simps eq)
    qed
    then show ?thesis by blast
  next
    case False
    show ?thesis
    proof (cases "owner_of ?l = owner \<and> pe_seq_no e \<le> n")
      case True
      with Cons.IH [of n] show ?thesis by (simp add: batch_effect_def)
    next
      case stop: False
      let ?r = "if owner_of ?l \<noteq> owner then Inl OwnerMismatch
        else if pe_seq_no e \<noteq> n + 1 then Inl (FullReportRequired (n + 1) (pe_seq_no e))
        else Inl (UnsupportedEvent (pe_kind e))"
      have "batch_effect owner n (e # es) {} {} {} ?r" using False stop by (simp add: batch_effect_def)
      then show ?thesis by blast
    qed
  qed
qed

lemma spec_twice:
  assumes "spec_events sp owner n es = (sp1, r)"
  shows "spec_events sp1 owner n es = (sp1, r)"
proof -
  obtain K A N r' where "batch_effect owner n es K A N r'" using spec_effect by blast
  note e = batch_effectD [OF this]
  have "ps_locs sp - K \<union> A - K \<union> A = ps_locs sp - K \<union> A" "ps_known sp \<union> N \<union> N = ps_known sp \<union> N" by auto
  with assms show ?thesis by (auto simp: e)
qed

lemma simulates_run:
  "simulates ix sp \<Longrightarrow> enumerates keys \<Longrightarrow> simulates (foldl (px_exec keys) ix ops) (foldl spec_exec sp ops)"
  by (induction ops arbitrary: ix sp) (simp_all add: simulates_step)

lemma init_simulates: "prefix_index_init a = Inr ix \<Longrightarrow> simulates ix \<lparr>ps_locs = {}, ps_known = {}, ps_cursor = Map.empty\<rparr>"
  using represents_empty [of ix] by (auto simp: prefix_index_init_def simulates_def clear_def split: if_splits)

lemma bad_event_stops:
  "apply_event_loop ix owner n [bad] = (h, Inl e) \<Longrightarrow> apply_event_loop ix owner n (bad # es) = (ix, Inl e)"
  by (simp add: Let_def split: if_splits)

subsection \<open>Properties\<close>

text \<open>
  C25.  After any sequence of operations, including operations that failed half-way, the inverted index and
  the forward map describe the same locations: no empty entries, every location is filed under its own
  key and listed for its owner, and an owner lists a key exactly when it holds a location under it.
\<close>

theorem prefix_index_consistent:
  assumes "enumerates keys" and "prefix_index_init max_age_s = Inr ix0" and "ix = foldl (px_exec keys) ix0 ops"
  shows "assert_consistent ix \<and>
    (key \<in> dget_or (px_forward ix) owner {} \<longleftrightarrow> (\<exists>l \<in> dget_or (px_index ix) key {}. owner_of l = owner)) \<and>
    (\<forall>l \<in> dget_or (px_index ix) key {}. location_key l = key)"
proof -
  have "represents ix (ps_locs (foldl spec_exec \<lparr>ps_locs = {}, ps_known = {}, ps_cursor = Map.empty\<rparr> ops))"
    using simulates_run [OF init_simulates [OF assms(2)] assms(1), of ops] by (simp add: simulates_def assms(3))
  then obtain L where r: "represents ix L" by blast
  have "locations \<noteq> {} \<and> (\<forall>l \<in> locations. k \<in> keys_of ix (owner_of l))" if "(k, locations) \<in> set (px_index ix)" for k locations
  proof -
    have g: "dget (px_index ix) k = Some locations" using that representsD(1) [OF r] by simp
    then have "locations = locs_at ix k" by (simp add: locs_at_def dget_or_def)
    moreover have "k \<in> keys_of ix (owner_of l)" if "l \<in> locs_at ix k" for l
      using that unfolding representsD(6) [OF r] representsD(7) [OF r] by blast
    ultimately show ?thesis using g representsD(5) [OF r, of k] by blast
  qed
  then have "assert_consistent ix" unfolding assert_consistent_def keys_of_def by blast
  then show ?thesis
    using representsD(6) [OF r, of key] representsD(7) [OF r, of owner] by (auto simp: locs_at_def keys_of_def)
qed

text \<open>
  C24.  The index implements a set of locations with a cursor per owner: every sequence of operations has
  on the pair of maps the effect that the abstract operations have on the set, a batch of events ends
  with the same cursor or error, and a lookup returns exactly the fresh locations of the set under the
  key of the longest, then shorter and shorter reusable prefixes.
\<close>

theorem prefix_index_refines:
  assumes "enumerates keys" and "px_inv ix" and "h = foldl (px_exec keys) ix ops"
  shows "prefix_abs h = foldl spec_exec (prefix_abs ix) ops \<and>
    snd (apply_events h owner es) = snd (spec_apply (prefix_abs h) owner es) \<and>
    iter_matches h fp now =
      filter (\<lambda>(b, S). S \<noteq> {})
        (map (\<lambda>b. (b, {l \<in> ps_locs (prefix_abs h). location_key l = fingerprint_key fp b \<and>
            now - cl_last_updated l \<le> px_max_age_s h}))
          (rev [1..<Suc (nat (max_reusable_blocks fp))]))"
proof -
  have "simulates ix (prefix_abs ix)" using assms(2) by (simp add: simulates_iff)
  from simulates_run [OF this assms(1), of ops] have h: "px_inv h" "prefix_abs h = foldl spec_exec (prefix_abs ix) ops"
    by (simp_all add: simulates_iff assms(3))
  then have s: "simulates h (prefix_abs h)" by (simp add: simulates_iff)
  from simulates_apply [OF s, of owner es] h(2) show ?thesis
    by (auto simp: iter_matches_def simulates_matches [OF s])
qed

text \<open>
  C26.  Delivering events again is harmless.  A batch that was applied can be applied again without any
  change; and a batch that failed at a bad event, leaving the cursor behind the events it had already
  applied, can be corrected and sent again from its first event with the outcome it would have had.
\<close>

theorem event_redelivery:
  assumes "px_inv ix" and "apply_events ix owner es = (h, Inr n)"
    and "apply_events ix owner (es @ bad # rest) = (ix1, Inl e)" and "snd (apply_events ix owner (es @ [bad])) = Inl e"
  shows "apply_events h owner es = (h, Inr n) \<and>
    prefix_abs (fst (apply_events ix1 owner (es @ es2))) = prefix_abs (fst (apply_events ix owner (es @ es2))) \<and>
    snd (apply_events ix1 owner (es @ es2)) = snd (apply_events ix owner (es @ es2))"
proof -
  let ?c = "dget_or (px_last_seq ix) owner 0" and ?sp = "prefix_abs ix"
  obtain k where k: "apply_event_loop ix owner ?c es = (k, Inr n)" "h = k\<lparr>px_last_seq := dput (px_last_seq k) owner n\<rparr>"
    using assms(2) by (auto simp: apply_events_def split: prod.splits sum.splits)
  note c = loop_cursor [OF k(1)]
  have again: "apply_events h owner es = (h, Inr n)"
    using loop_skips [of es owner n h] c by (simp add: apply_events_def k(2) dict_simps dput_same)
  have "snd (apply_event_loop k owner n [bad]) = Inl e"
    using assms(4) k(1) by (auto simp: apply_events_def loop_append split: prod.splits sum.splits)
  then obtain k' where "apply_event_loop k owner n [bad] = (k', Inl e)" by (metis prod.collapse)
  from bad_event_stops [OF this] have ix1: "ix1 = k"
    using assms(3) k(1) by (simp add: apply_events_def loop_append)
  have s: "simulates ix ?sp" using assms(1) by (simp add: simulates_iff)
  from simulates_events [OF s, of owner ?c es] k(1) obtain sp where
    sp: "spec_events ?sp owner ?c es = (sp, Inr n)" "simulates k sp" by auto
  have cur: "ps_cursor sp = ps_cursor ?sp" using sp(2) c by (simp add: simulates_def prefix_abs_def)
  have co: "(case ps_cursor ?sp owner of None \<Rightarrow> 0 | Some n \<Rightarrow> n) = ?c" by (simp add: prefix_abs_def dget_or_def)
  have "spec_apply sp owner (es @ es2) = spec_apply ?sp owner (es @ es2)"
    using sp(1) spec_twice [OF sp(1)] by (simp add: spec_apply_def spec_append cur co)
  with simulates_apply [OF s, of owner "es @ es2"] simulates_apply [OF sp(2), of owner "es @ es2"] again show ?thesis
    unfolding ix1 by (auto simp: simulates_iff)
qed

text \<open>One prefill instance, a first block, a gap, and the missing second event.\<close>

definition example_location :: "int \<Rightarrow> int \<Rightarrow> cache_location" where
  "example_location hash block =
     \<lparr>cl_instance_id = ''P0'', cl_instance_epoch = ''e'', cl_namespace = ''n'', cl_kv_compatibility_id = ''k'',
      cl_request_context_digest = ''c'', cl_chain_hash = hash, cl_block_index = 0, cl_block_id = block,
      cl_prefix_tokens = 16, cl_last_updated = 0\<rparr>"

definition example_event :: "string \<Rightarrow> int \<Rightarrow> int \<Rightarrow> prefix_event" where
  "example_event kind n hash = \<lparr>pe_kind = kind, pe_location = example_location hash 7, pe_seq_no = n\<rparr>"

definition empty_index :: prefix_index where
  "empty_index = \<lparr>px_max_age_s = 600, px_index = [], px_forward = [], px_last_seq = []\<rparr>"

lemma empty_index_init: "prefix_index_init 600 = Inr empty_index"
  by (simp add: prefix_index_init_def empty_index_def)

lemma empty_index_inv: "px_inv empty_index"
  using init_simulates [OF empty_index_init] by (simp add: simulates_iff)

lemma sorted_enumerates: "enumerates (sorted_list_of_set :: ('a::linorder) set \<Rightarrow> 'a list)"
  by (simp add: enumerates_def)

lemma example_event_fields [simp]:
  "pe_seq_no (example_event kind n hash) = n" "pe_kind (example_event kind n hash) = kind"
  "pe_location (example_event kind n hash) = example_location hash 7"
  by (simp_all add: example_event_def)

lemma example_owner [simp]: "owner_of (example_location hash block) = (''P0'', ''e'')"
  by (simp add: example_location_def owner_of_def)

theorem prefix_index_consistent_witness:
  "assert_consistent (foldl (px_exec sorted_list_of_set) empty_index
     [ApplyEvents (''P0'', ''e'') [example_event ''hash_added'' 1 5, example_event ''hash_added'' 3 6], RemoveInstance ''P0''])"
  by (rule prefix_index_consistent [OF sorted_enumerates empty_index_init refl, THEN conjunct1])

theorem prefix_index_refines_witness:
  "ps_locs (prefix_abs (foldl (px_exec sorted_list_of_set) empty_index
     [ApplyEvents (''P0'', ''e'') [example_event ''hash_added'' 1 5, example_event ''hash_added'' 3 6]])) =
   {example_location 5 7}"
proof -
  let ?ops = "[ApplyEvents (''P0'', ''e'') [example_event ''hash_added'' 1 5, example_event ''hash_added'' 3 6]]"
  have a: "prefix_abs empty_index = \<lparr>ps_locs = {}, ps_known = {}, ps_cursor = Map.empty\<rparr>"
    by (simp add: prefix_abs_def locs_def locs_at_def empty_index_def dget_or_def)
  have r: "foldl spec_exec (prefix_abs empty_index) ?ops = \<lparr>ps_locs = {example_location 5 7}, ps_known = {(''P0'', ''e'')}, ps_cursor = Map.empty\<rparr>"
    unfolding a by (simp add: spec_apply_def)
  show ?thesis
    unfolding prefix_index_refines [OF sorted_enumerates empty_index_inv refl, THEN conjunct1, of ?ops] r by simp
qed

theorem event_redelivery_witness:
  "\<exists>h ix1 e. apply_events empty_index (''P0'', ''e'') [example_event ''hash_added'' 1 5] = (h, Inr 1) \<and>
     apply_events h (''P0'', ''e'') [example_event ''hash_added'' 1 5] = (h, Inr 1) \<and>
     apply_events empty_index (''P0'', ''e'') [example_event ''hash_added'' 1 5, example_event ''hash_added'' 3 6] = (ix1, Inl e) \<and>
     snd (apply_events ix1 (''P0'', ''e'') ([example_event ''hash_added'' 1 5] @ [example_event ''evicted'' 2 5])) = Inr 2"
proof -
  let ?o = "(''P0'', ''e'')" and ?es = "[example_event ''hash_added'' 1 5]" and ?bad = "example_event ''hash_added'' 3 6"
  have c: "dget_or (px_last_seq empty_index) ?o 0 = 0" by (simp add: empty_index_def dget_or_def)
  have "snd (apply_events empty_index ?o ?es) = Inr 1" by (simp add: apply_events_def c Let_def)
  then obtain h where h: "apply_events empty_index ?o ?es = (h, Inr 1)" by (metis prod.collapse)
  have f: "snd (apply_events empty_index ?o (?es @ [?bad])) = Inl (FullReportRequired 2 3)"
    by (simp add: apply_events_def c Let_def)
  then obtain ix1 where bad: "apply_events empty_index ?o (?es @ ?bad # []) = (ix1, Inl (FullReportRequired 2 3))"
    by (metis prod.collapse)
  have "snd (apply_events empty_index ?o (?es @ [example_event ''evicted'' 2 5])) = Inr 2"
    by (simp add: apply_events_def c Let_def)
  with event_redelivery [OF empty_index_inv h bad f, of "[example_event ''evicted'' 2 5]"] h bad show ?thesis by auto
qed

end
