(* ===== verification/Affinity_Router.thy ===== *)
theory Affinity_Router
  imports Prefix_Index
begin

text \<open>
  \<^verbatim>\<open>prism_serve/router/topology.py\<close>, \<^verbatim>\<open>router.py\<close> and the decision of \<^verbatim>\<open>protocol.py\<close>: which
  cached prefix to reuse, and where.  Costs are milliseconds; \<^term>\<open>None\<close> stands for \<open>float("inf")\<close> as a
  cost and for \<open>-inf\<close> as a gain, the only non-finite values the code produces from finite inputs.
\<close>

subsection \<open>Link costs\<close>

record link_info =
  li_kind :: string
  li_measured_gbps :: real
  li_fixed_overhead_ms :: real

type_synonym topology_matrix = "(string \<times> string, link_info) dict"

datatype router_error = NegativeTransferSize int | InvalidBlockBytes int

definition set_link :: "topology_matrix \<Rightarrow> string \<Rightarrow> string \<Rightarrow> link_info \<Rightarrow> topology_matrix" where
  "set_link links source target link = dput links (source, target) link"

definition transfer_cost_ms :: "topology_matrix \<Rightarrow> string \<Rightarrow> string \<Rightarrow> int \<Rightarrow> router_error + real option" where
  "transfer_cost_ms links source target size_bytes =
     (if size_bytes < 0 then Inl (NegativeTransferSize size_bytes)
      else if source = target then Inr (Some 0)
      else case dget links (source, target) of
        None \<Rightarrow> Inr None
      | Some link \<Rightarrow>
          if li_measured_gbps link \<le> 0 then Inr None
          else let bytes_per_ms = li_measured_gbps link * 1000000000 / 8 / 1000
            in Inr (Some (li_fixed_overhead_ms link + real_of_int size_bytes / bytes_per_ms)))"

subsection \<open>Decisions\<close>

record cached_prefix_decision =
  cd_source_instance :: string
  cd_source_epoch :: string
  cd_decode_instance :: string
  cd_cached_prefix_blocks :: nat
  cd_cached_prefix_tokens :: int
  cd_transfer_bytes :: int
  cd_estimated_gain_ms :: "real option"

record affinity_router =
  ar_topology :: topology_matrix
  ar_block_bytes :: int
  ar_safety_margin_ms :: real

definition affinity_router_init :: "topology_matrix \<Rightarrow> int \<Rightarrow> real \<Rightarrow> router_error + affinity_router" where
  "affinity_router_init topology block_bytes safety_margin_ms =
     (if block_bytes > 0
      then Inr \<lparr>ar_topology = topology, ar_block_bytes = block_bytes, ar_safety_margin_ms = safety_margin_ms\<rparr>
      else Inl (InvalidBlockBytes block_bytes))"

text \<open>The keyword arguments that pin a decision, and the arguments of one call.\<close>

record route_request =
  rq_decode_candidates :: "string list"
  rq_source_epoch_is_current :: "string \<Rightarrow> string \<Rightarrow> bool"
  rq_full_prefill_ms :: real
  rq_suffix_prefill_ms_per_token :: real
  rq_required_source :: "string option"
  rq_required_target :: "string option"
  rq_required_cached_prefix_blocks :: "nat option"

definition pinned_ok :: "'a option \<Rightarrow> 'a \<Rightarrow> bool" where
  "pinned_ok required x = (case required of None \<Rightarrow> True | Some r \<Rightarrow> x = r)"

definition forced :: "route_request \<Rightarrow> bool" where
  "forced rq \<longleftrightarrow> rq_required_source rq \<noteq> None \<or> rq_required_target rq \<noteq> None \<or> rq_required_cached_prefix_blocks rq \<noteq> None"

definition worth_it :: "affinity_router \<Rightarrow> real option \<Rightarrow> bool" where
  "worth_it ar gain = (case gain of None \<Rightarrow> False | Some g \<Rightarrow> g > ar_safety_margin_ms ar)"

text \<open>The body of the innermost loop: a decision, a \<open>continue\<close> (\<^term>\<open>None\<close>), or an error.\<close>

definition decide ::
  "affinity_router \<Rightarrow> prompt_fingerprint \<Rightarrow> route_request \<Rightarrow> nat \<Rightarrow> cache_location \<Rightarrow> string
     \<Rightarrow> router_error + cached_prefix_decision option" where
  "decide ar fp rq blocks location target =
     (let prefix_tokens = int blocks * fp_block_size fp;
          suffix_tokens = int (length (fp_token_ids fp)) - prefix_tokens;
          transfer_bytes = (if target = cl_instance_id location then 0 else int blocks * ar_block_bytes ar)
      in if \<not> pinned_ok (rq_required_source rq) (cl_instance_id location) then Inr None
         else if \<not> rq_source_epoch_is_current rq (cl_instance_id location) (cl_instance_epoch location) then Inr None
         else if \<not> pinned_ok (rq_required_target rq) target then Inr None
         else case transfer_cost_ms (ar_topology ar) (cl_instance_id location) target transfer_bytes of
           Inl e \<Rightarrow> Inl e
         | Inr transfer_ms \<Rightarrow>
             (let gain = map_option (\<lambda>ms. rq_full_prefill_ms rq -
                     (ms + real_of_int suffix_tokens * rq_suffix_prefill_ms_per_token rq)) transfer_ms
              in if \<not> forced rq \<and> \<not> worth_it ar gain then Inr None
                 else Inr (Some
                   \<lparr>cd_source_instance = cl_instance_id location, cd_source_epoch = cl_instance_epoch location,
                    cd_decode_instance = target, cd_cached_prefix_blocks = blocks,
                    cd_cached_prefix_tokens = prefix_tokens, cd_transfer_bytes = transfer_bytes,
                    cd_estimated_gain_ms = gain\<rparr>)))"

fun collect :: "('e + 'a option) list \<Rightarrow> 'e + 'a list" where
  "collect [] = Inr []"
| "collect (Inl e # xs) = Inl e"
| "collect (Inr x # xs) =
     (case collect xs of Inl e \<Rightarrow> Inl e | Inr ys \<Rightarrow> Inr (case x of None \<Rightarrow> ys | Some y \<Rightarrow> y # ys))"

text \<open>The locations of a match are visited in the order of the set, \<open>locations\<close>, which the language leaves open.\<close>

definition match_decisions ::
  "(cache_location set \<Rightarrow> cache_location list) \<Rightarrow> affinity_router \<Rightarrow> prompt_fingerprint \<Rightarrow> route_request
     \<Rightarrow> nat \<Rightarrow> cache_location set \<Rightarrow> router_error + cached_prefix_decision list" where
  "match_decisions locations ar fp rq blocks S =
     collect (concat (map (\<lambda>location. map (decide ar fp rq blocks location) (rq_decode_candidates rq)) (locations S)))"

fun decision_loop ::
  "(cache_location set \<Rightarrow> cache_location list) \<Rightarrow> affinity_router \<Rightarrow> prompt_fingerprint \<Rightarrow> route_request
     \<Rightarrow> (nat \<times> cache_location set) list \<Rightarrow> router_error + cached_prefix_decision list" where
  "decision_loop locations ar fp rq [] = Inr []"
| "decision_loop locations ar fp rq ((blocks, S) # ms) =
     (if \<not> pinned_ok (rq_required_cached_prefix_blocks rq) blocks then decision_loop locations ar fp rq ms
      else case match_decisions locations ar fp rq blocks S of
        Inl e \<Rightarrow> Inl e
      | Inr ds \<Rightarrow> if ds \<noteq> [] then Inr ds else decision_loop locations ar fp rq ms)"

definition decision_key :: "cached_prefix_decision \<Rightarrow> int \<times> nat \<times> real" where
  "decision_key d =
     (- int (cd_cached_prefix_blocks d),
      case cd_estimated_gain_ms d of None \<Rightarrow> (1, 0) | Some g \<Rightarrow> (0, - g))"

definition iter_decisions ::
  "(cache_location set \<Rightarrow> cache_location list) \<Rightarrow> affinity_router \<Rightarrow> prefix_index \<Rightarrow> time \<Rightarrow> prompt_fingerprint
     \<Rightarrow> route_request \<Rightarrow> router_error + cached_prefix_decision list" where
  "iter_decisions locations ar ix now fp rq =
     map_sum id (sort_key decision_key) (decision_loop locations ar fp rq (iter_matches ix fp now))"

subsection \<open>Lemmas\<close>

lemma collect_Inr: "\<forall>x \<in> set xs. \<not> isl x \<Longrightarrow> \<exists>ys. collect xs = Inr ys \<and> (\<forall>y. y \<in> set ys \<longleftrightarrow> Inr (Some y) \<in> set xs)"
proof (induction xs)
  case (Cons x xs)
  then obtain ys where "collect xs = Inr ys" "\<forall>y. y \<in> set ys \<longleftrightarrow> Inr (Some y) \<in> set xs" by auto
  moreover obtain z where "x = Inr z" using Cons.prems by (cases x) auto
  ultimately show ?case by (cases z) auto
qed simp

lemma transfer_cost_no_error: "0 \<le> n \<Longrightarrow> \<exists>c. transfer_cost_ms links source target n = Inr c"
  by (auto simp: transfer_cost_ms_def Let_def split: option.split)

lemma decide_no_error:
  assumes "0 < ar_block_bytes ar"
  shows "\<not> isl (decide ar fp rq blocks location target)"
proof -
  let ?n = "if target = cl_instance_id location then 0 else int blocks * ar_block_bytes ar"
  have "0 \<le> ?n" using assms by simp
  from transfer_cost_no_error [OF this]
  obtain c where "transfer_cost_ms (ar_topology ar) (cl_instance_id location) target ?n = Inr c" by blast
  then show ?thesis by (simp add: decide_def Let_def split del: if_split cong: if_cong) simp
qed

lemma decide_Some:
  assumes "decide ar fp rq blocks l target = Inr (Some d)"
  shows "cd_source_instance d = cl_instance_id l" "cd_source_epoch d = cl_instance_epoch l" "cd_decode_instance d = target"
    "cd_cached_prefix_blocks d = blocks" "cd_cached_prefix_tokens d = int blocks * fp_block_size fp"
    "rq_source_epoch_is_current rq (cl_instance_id l) (cl_instance_epoch l)"
    "forced rq \<or> worth_it ar (cd_estimated_gain_ms d)"
    "pinned_ok (rq_required_source rq) (cl_instance_id l)" "pinned_ok (rq_required_target rq) target"
  using assms unfolding decide_def Let_def by (auto split: if_splits sum.splits)

definition accepted ::
  "affinity_router \<Rightarrow> prompt_fingerprint \<Rightarrow> route_request \<Rightarrow> nat \<Rightarrow> cache_location set \<Rightarrow> cached_prefix_decision \<Rightarrow> bool" where
  "accepted ar fp rq blocks S d \<longleftrightarrow>
     (\<exists>l \<in> S. \<exists>target \<in> set (rq_decode_candidates rq). decide ar fp rq blocks l target = Inr (Some d))"

lemma match_decisions_accepted:
  assumes "0 < ar_block_bytes ar" "set (locations S) = S"
  shows "\<exists>ds. match_decisions locations ar fp rq blocks S = Inr ds \<and> (\<forall>d. d \<in> set ds \<longleftrightarrow> accepted ar fp rq blocks S d)"
proof -
  let ?xs = "concat (map (\<lambda>location. map (decide ar fp rq blocks location) (rq_decode_candidates rq)) (locations S))"
  have "\<forall>x \<in> set ?xs. \<not> isl x" using decide_no_error [OF assms(1)] by auto
  from collect_Inr [OF this] obtain ds where ds: "collect ?xs = Inr ds" "\<forall>d. d \<in> set ds \<longleftrightarrow> Inr (Some d) \<in> set ?xs" by blast
  have "Inr (Some d) \<in> set ?xs \<longleftrightarrow> accepted ar fp rq blocks S d" for d
    unfolding accepted_def using assms(2) by (auto simp: image_iff) (metis assms(2))+
  with ds show ?thesis by (simp add: match_decisions_def)
qed

text \<open>The loop stops at the first match that has a decision.\<close>

definition no_hit ::
  "affinity_router \<Rightarrow> prompt_fingerprint \<Rightarrow> route_request \<Rightarrow> nat \<times> cache_location set \<Rightarrow> bool" where
  "no_hit ar fp rq m \<longleftrightarrow> (pinned_ok (rq_required_cached_prefix_blocks rq) (fst m) \<longrightarrow>
     (\<forall>d. \<not> accepted ar fp rq (fst m) (snd m) d))"

definition first_hit ::
  "affinity_router \<Rightarrow> prompt_fingerprint \<Rightarrow> route_request \<Rightarrow> (nat \<times> cache_location set) list
     \<Rightarrow> cached_prefix_decision list \<Rightarrow> bool" where
  "first_hit ar fp rq ms ds \<longleftrightarrow>
     (ds = [] \<and> (\<forall>m \<in> set ms. no_hit ar fp rq m)) \<or>
     (\<exists>ms1 m ms2. ms = ms1 @ m # ms2 \<and> ds \<noteq> [] \<and> pinned_ok (rq_required_cached_prefix_blocks rq) (fst m) \<and>
        (\<forall>d. d \<in> set ds \<longleftrightarrow> accepted ar fp rq (fst m) (snd m) d) \<and> (\<forall>m \<in> set ms1. no_hit ar fp rq m))"

lemma first_hit_skip:
  assumes "first_hit ar fp rq ms ds" "no_hit ar fp rq m"
  shows "first_hit ar fp rq (m # ms) ds"
  using assms(1) unfolding first_hit_def
proof (elim disjE exE conjE)
  fix ms1 k ms2
  assume a: "ms = ms1 @ k # ms2" "ds \<noteq> []" "pinned_ok (rq_required_cached_prefix_blocks rq) (fst k)"
    "\<forall>d. d \<in> set ds \<longleftrightarrow> accepted ar fp rq (fst k) (snd k) d" "\<forall>m \<in> set ms1. no_hit ar fp rq m"
  then have "m # ms = (m # ms1) @ k # ms2" "\<forall>m \<in> set (m # ms1). no_hit ar fp rq m" using assms(2) by simp_all
  with a(2-4) show "(ds = [] \<and> (\<forall>m \<in> set (m # ms). no_hit ar fp rq m)) \<or>
     (\<exists>ms1 k ms2. m # ms = ms1 @ k # ms2 \<and> ds \<noteq> [] \<and> pinned_ok (rq_required_cached_prefix_blocks rq) (fst k) \<and>
        (\<forall>d. d \<in> set ds \<longleftrightarrow> accepted ar fp rq (fst k) (snd k) d) \<and> (\<forall>m \<in> set ms1. no_hit ar fp rq m))" by blast
qed (use assms(2) in simp)

lemma decision_loop_first:
  assumes "0 < ar_block_bytes ar" "\<forall>m \<in> set ms. set (locations (snd m)) = snd m"
  shows "\<exists>ds. decision_loop locations ar fp rq ms = Inr ds \<and> first_hit ar fp rq ms ds"
  using assms(2)
proof (induction ms)
  case Nil
  then show ?case by (simp add: first_hit_def)
next
  case (Cons m ms)
  obtain b S where m: "m = (b, S)" by (cases m)
  have "\<forall>m \<in> set ms. set (locations (snd m)) = snd m" "set (locations S) = S" using Cons.prems by (simp_all add: m)
  with Cons.IH obtain ds where ds: "decision_loop locations ar fp rq ms = Inr ds" "first_hit ar fp rq ms ds" by blast
  from match_decisions_accepted [of ar locations S fp rq b] assms(1) \<open>set (locations S) = S\<close> obtain es where
    es: "match_decisions locations ar fp rq b S = Inr es" "\<forall>d. d \<in> set es \<longleftrightarrow> accepted ar fp rq b S d" by blast
  show ?case
  proof (cases "pinned_ok (rq_required_cached_prefix_blocks rq) b \<and> es \<noteq> []")
    case True
    then have "first_hit ar fp rq (m # ms) es"
      unfolding first_hit_def using es(2) by (intro disjI2 exI [of _ "[]"] exI [of _ m] exI [of _ ms]) (simp add: m)
    with True es(1) show ?thesis by (simp add: m)
  next
    case False
    then have "no_hit ar fp rq m" using es(2) by (auto simp: no_hit_def m)
    with first_hit_skip [OF ds(2)] False es(1) ds(1) show ?thesis by (auto simp: m)
  qed
qed

lemma iter_matches_sorted:
  assumes "iter_matches ix fp now = ms1 @ (b, S) # ms2"
  shows "1 \<le> b" "int b \<le> max_reusable_blocks fp" "S = fresh_locations ix now (fingerprint_key fp b)"
    "b < b' \<Longrightarrow> int b' \<le> max_reusable_blocks fp \<Longrightarrow> fresh_locations ix now (fingerprint_key fp b') \<noteq> {} \<Longrightarrow>
      (b', fresh_locations ix now (fingerprint_key fp b')) \<in> set ms1"
proof -
  let ?f = "\<lambda>b. fresh_locations ix now (fingerprint_key fp b)" and ?ms = "iter_matches ix fp now"
  have mem: "(c, T) \<in> set ?ms \<longleftrightarrow> 1 \<le> c \<and> int c \<le> max_reusable_blocks fp \<and> T = ?f c \<and> T \<noteq> {}" for c T
    by (auto simp: iter_matches_def)
  have "(b, S) \<in> set ?ms" using assms by simp
  then show "1 \<le> b" "int b \<le> max_reusable_blocks fp" "S = ?f b" unfolding mem by simp_all
  have "sorted_wrt (\<lambda>m m'. fst m > fst m') (map (\<lambda>b. (b, ?f b)) (rev [1..<Suc (nat (max_reusable_blocks fp))]))"
    by (simp add: sorted_wrt_map sorted_wrt_rev del: upt_Suc)
  then have "sorted_wrt (\<lambda>m m'. fst m > fst m') ?ms" unfolding iter_matches_def by (rule sorted_wrt_filter)
  then have after: "fst m < b" if "m \<in> set ms2" for m
    using that unfolding assms sorted_wrt_append by simp
  assume b': "b < b'" "int b' \<le> max_reusable_blocks fp" "?f b' \<noteq> {}"
  then have "(b', ?f b') \<in> set ?ms" unfolding mem by simp
  with after [of "(b', ?f b')"] b'(1) show "(b', ?f b') \<in> set ms1" unfolding assms by auto
qed

lemma accepted_facts:
  assumes "accepted ar fp rq b S d"
  shows "cd_cached_prefix_blocks d = b \<and> (\<exists>l \<in> S. cd_source_instance d = cl_instance_id l \<and> cd_source_epoch d = cl_instance_epoch l \<and>
    rq_source_epoch_is_current rq (cd_source_instance d) (cd_source_epoch d) \<and>
    cd_decode_instance d \<in> set (rq_decode_candidates rq) \<and> (forced rq \<or> worth_it ar (cd_estimated_gain_ms d)))"
proof -
  from assms obtain l target where l: "l \<in> S" "target \<in> set (rq_decode_candidates rq)" "decide ar fp rq b l target = Inr (Some d)"
    unfolding accepted_def by blast
  from decide_Some [OF l(3)] l(1,2) show ?thesis by auto
qed

lemma first_hit_longest:
  assumes "iter_matches ix fp now = ms1 @ m # ms2" "ds \<noteq> []"
    and all: "\<forall>d. d \<in> set ds \<longleftrightarrow> accepted ar fp rq (fst m) (snd m) d" and none: "\<forall>m \<in> set ms1. no_hit ar fp rq m"
    and b: "pinned_ok (rq_required_cached_prefix_blocks rq) b" "int b \<le> max_reusable_blocks fp"
      "accepted ar fp rq b (fresh_locations ix now (fingerprint_key fp b)) d"
  shows "d \<in> set ds \<or> (\<exists>d' \<in> set ds. b < cd_cached_prefix_blocks d')"
proof -
  note s = iter_matches_sorted [of ix fp now ms1 "fst m" "snd m" ms2, unfolded prod.collapse, OF assms(1)]
  have "hd ds \<in> set ds" using assms(2) by simp
  then have hd: "hd ds \<in> set ds" "cd_cached_prefix_blocks (hd ds) = fst m" using all accepted_facts by blast+
  have ne: "fresh_locations ix now (fingerprint_key fp b) \<noteq> {}" using b(3) by (auto simp: accepted_def)
  consider "fst m < b" | "b = fst m" | "b < fst m" by linarith
  then show ?thesis
  proof cases
    case 1
    from none s(4) [OF 1 b(2) ne] have "no_hit ar fp rq (b, fresh_locations ix now (fingerprint_key fp b))" by blast
    with b(1,3) show ?thesis by (simp add: no_hit_def)
  next
    case 2
    with all b(3) s(3) show ?thesis by simp
  next
    case 3
    with hd show ?thesis by (intro disjI2 bexI [of _ "hd ds"]) simp_all
  qed
qed

subsection \<open>Properties\<close>


text \<open>One cached block of a three-token prompt, held by \<open>P0\<close>, and a fast link to \<open>D0\<close>.\<close>

definition example_fp :: prompt_fingerprint where
  "example_fp = \<lparr>fp_namespace = ''n'', fp_kv_compatibility_id = ''k'', fp_request_context_digest = ''c'',
     fp_token_ids = [1, 2, 3], fp_chain_hashes = [5], fp_block_size = 2\<rparr>"

definition example_router :: affinity_router where
  "example_router = \<lparr>ar_topology = [((''P0'', ''D0''), \<lparr>li_kind = ''rdma'', li_measured_gbps = 8, li_fixed_overhead_ms = 0\<rparr>)],
     ar_block_bytes = 1000, ar_safety_margin_ms = 1\<rparr>"

definition example_request :: route_request where
  "example_request = \<lparr>rq_decode_candidates = [''D0''], rq_source_epoch_is_current = \<lambda>i e. e = ''e'', rq_full_prefill_ms = 100,
     rq_suffix_prefill_ms_per_token = 1, rq_required_source = None, rq_required_target = None,
     rq_required_cached_prefix_blocks = None\<rparr>"


end
