(* ===== verification/Gateway_Output.thy ===== *)
theory Gateway_Output
  imports Seq_State
begin

text \<open>
  \<^verbatim>\<open>prism_serve/gateway/output.py\<close>: the gateway's copy of the tokens each request has produced.  A
  section under \<open>async with state.condition\<close> awaits nothing while it writes, so it is one step here; a
  waiter that is not woken yet is \<^term>\<open>None\<close>.  The cumulative reports come from the decode instances
  and are arguments, as is the caller's test that the query is still about the current request.
\<close>

text \<open>\<open>OutputQueryIdentity\<close>: all four parts have to be non-empty.\<close>

definition output_query_identity :: "request_info option \<Rightarrow> (string \<times> string \<times> string \<times> string) option" where
  "output_query_identity request_info =
     (case request_info of
        None \<Rightarrow> None
      | Some r \<Rightarrow>
          if rq_state r \<notin> {DECODING, FINISHED} then None
          else if rq_decode_instance r \<noteq> [] \<and> rq_decode_instance_epoch r \<noteq> [] \<and> rq_req_id r \<noteq> [] \<and> rq_active_operation_id r \<noteq> []
          then Some (rq_decode_instance r, rq_decode_instance_epoch r, rq_req_id r, rq_active_operation_id r)
          else None)"

record output_state =
  os_token_ids :: "int list"
  os_terminal :: bool
  os_error :: "string option"

definition new_output_state :: output_state where
  "new_output_state = \<lparr>os_token_ids = [], os_terminal = False, os_error = None\<rparr>"

datatype output_error =
  GatewayOutputCapacity
| InvalidCaps
| ActiveNotEvictable
| RequestChanged
| SeqNoMismatch
| PrefixChanged
| IdentityChanged

text \<open>\<open>OrderedDict[str, None]\<close> is the list of its keys, oldest first.\<close>

record output_buffer =
  ob_active_operation_cap :: int
  ob_terminal_snapshot_cap :: int
  ob_states :: "(string, output_state) dict"
  ob_resource_free_terminal :: "string list"

type_synonym 'a out_result = "(output_buffer, output_error, 'a) outcome"

definition output_buffer_init :: "int \<Rightarrow> int \<Rightarrow> output_error + output_buffer" where
  "output_buffer_init active_operation_cap terminal_snapshot_cap =
     (if active_operation_cap \<le> 0 \<or> terminal_snapshot_cap \<le> 0 then Inl InvalidCaps
      else Inr \<lparr>ob_active_operation_cap = active_operation_cap, ob_terminal_snapshot_cap = terminal_snapshot_cap,
        ob_states = [], ob_resource_free_terminal = []\<rparr>)"

definition active_count :: "output_buffer \<Rightarrow> int" where
  "active_count ob = int (length (ob_states ob)) - int (length (ob_resource_free_terminal ob))"

definition out_ensure :: "output_buffer \<Rightarrow> string \<Rightarrow> output_state out_result" where
  "out_ensure ob req_id =
     (case dget (ob_states ob) req_id of
        Some existing \<Rightarrow> (ob, Inr existing)
      | None \<Rightarrow>
          if active_count ob \<ge> ob_active_operation_cap ob then (ob, Inl GatewayOutputCapacity)
          else (ob\<lparr>ob_states := dput (ob_states ob) req_id new_output_state\<rparr>, Inr new_output_state))"

text \<open>\<open>while len(free) > cap: popitem(last=False)\<close>, oldest first.\<close>

fun evict :: "int \<Rightarrow> string list \<Rightarrow> (string, output_state) dict \<Rightarrow> string list \<times> (string, output_state) dict" where
  "evict cap [] states = ([], states)"
| "evict cap (expired # free) states =
     (if int (length (expired # free)) > cap then evict cap free (dpop states expired) else (expired # free, states))"

definition mark_resource_free :: "output_buffer \<Rightarrow> string \<Rightarrow> unit out_result" where
  "mark_resource_free ob req_id =
     (case dget (ob_states ob) req_id of
        None \<Rightarrow> (ob, Inr ())
      | Some state \<Rightarrow>
          if \<not> os_terminal state \<and> os_error state = None then (ob, Inl ActiveNotEvictable)
          else let moved = removeAll req_id (ob_resource_free_terminal ob) @ [req_id];
                   kept = evict (ob_terminal_snapshot_cap ob) moved (ob_states ob)
               in (ob\<lparr>ob_resource_free_terminal := fst kept, ob_states := snd kept\<rparr>, Inr ()))"

definition out_state_counts :: "output_buffer \<Rightarrow> (string, int) dict" where
  "out_state_counts ob =
     [(''active_or_held'', active_count ob), (''resource_free_terminal'', int (length (ob_resource_free_terminal ob)))]"

text \<open>\<open>error or state.error\<close>: an empty text counts as no error.\<close>

definition err_or :: "string option \<Rightarrow> string option \<Rightarrow> string option" where
  "err_or e e' = (case e of None \<Rightarrow> e' | Some x \<Rightarrow> if x = [] then e' else e)"

definition truthy_error :: "string option \<Rightarrow> bool" where
  "truthy_error e = (case e of None \<Rightarrow> False | Some x \<Rightarrow> x \<noteq> [])"

text \<open>\<open>first\<close> and \<open>second\<close> are the two answers of \<open>still_current\<close>; without the callback both are true.\<close>

definition apply_cumulative ::
  "output_buffer \<Rightarrow> string \<Rightarrow> int list \<Rightarrow> int \<Rightarrow> bool \<Rightarrow> string option \<Rightarrow> bool \<Rightarrow> bool \<Rightarrow> bool out_result" where
  "apply_cumulative ob req_id token_ids output_seq_no terminal error first second =
     (if \<not> first then (ob, Inl RequestChanged)
      else case out_ensure ob req_id of
        (ob1, Inl e) \<Rightarrow> (ob1, Inl e)
      | (ob1, Inr state) \<Rightarrow>
          if output_seq_no \<noteq> int (length token_ids) then (ob1, Inl SeqNoMismatch)
          else if \<not> second then (ob1, Inl RequestChanged)
          else if output_seq_no < int (length (os_token_ids state)) then (ob1, Inr False)
          else if take (length (os_token_ids state)) token_ids \<noteq> os_token_ids state then (ob1, Inl PrefixChanged)
          else (ob1\<lparr>ob_states := dput (ob_states ob1) req_id
                  \<lparr>os_token_ids = token_ids, os_terminal = os_terminal state \<or> terminal,
                   os_error = err_or error (os_error state)\<rparr>\<rparr>,
                Inr (output_seq_no > int (length (os_token_ids state)) \<or> terminal \<noteq> os_terminal state)))"

text \<open>\<open>xs[cursor:]\<close>, for a negative cursor counted from the end.\<close>

definition py_from :: "int \<Rightarrow> 'a list \<Rightarrow> 'a list" where
  "py_from cursor xs = drop (nat (if cursor < 0 then int (length xs) + cursor else cursor)) xs"

definition wait_next ::
  "output_buffer \<Rightarrow> string \<Rightarrow> int \<Rightarrow> (int list \<times> bool \<times> string option) option out_result" where
  "wait_next ob req_id cursor =
     (case out_ensure ob req_id of
        (ob1, Inl e) \<Rightarrow> (ob1, Inl e)
      | (ob1, Inr state) \<Rightarrow>
          (ob1, Inr (if int (length (os_token_ids state)) > cursor \<or> os_terminal state \<or> truthy_error (os_error state)
                     then Some (py_from cursor (os_token_ids state), os_terminal state, os_error state) else None)))"

definition out_snapshot :: "output_buffer \<Rightarrow> string \<Rightarrow> (int list \<times> bool \<times> string option) out_result" where
  "out_snapshot ob req_id =
     (case out_ensure ob req_id of
        (ob1, Inl e) \<Rightarrow> (ob1, Inl e)
      | (ob1, Inr state) \<Rightarrow> (ob1, Inr (os_token_ids state, os_terminal state, os_error state)))"

definition out_fail :: "output_buffer \<Rightarrow> string \<Rightarrow> string \<Rightarrow> unit out_result" where
  "out_fail ob req_id error =
     (case out_ensure ob req_id of
        (ob1, Inl e) \<Rightarrow> (ob1, Inl e)
      | (ob1, Inr state) \<Rightarrow>
          (ob1\<lparr>ob_states := dput (ob_states ob1) req_id
             (state\<lparr>os_terminal := True, os_error := err_or (os_error state) (Some error)\<rparr>)\<rparr>, Inr ()))"

text \<open>The authoritative output of a decode instance, and the repair that copies it.\<close>

record output_value =
  ov_req_id :: string
  ov_instance_epoch :: string
  ov_operation_id :: string
  ov_token_ids :: "int list"
  ov_output_seq_no :: int
  ov_terminal :: bool
  ov_error :: "string option"

definition repair_output_gap ::
  "(string \<Rightarrow> string \<Rightarrow> int \<Rightarrow> output_value) \<Rightarrow> output_buffer \<Rightarrow> string \<Rightarrow> string \<Rightarrow> string \<Rightarrow> string \<Rightarrow> int
     \<Rightarrow> bool \<Rightarrow> bool \<Rightarrow> (bool \<times> metric list) out_result" where
  "repair_output_gap request_output ob instance_id instance_epoch req_id operation_id cursor first second =
     (let v = request_output instance_id req_id cursor
      in if ov_req_id v \<noteq> req_id \<or> ov_instance_epoch v \<noteq> instance_epoch \<or> ov_operation_id v \<noteq> operation_id
         then (ob, Inl IdentityChanged)
         else case apply_cumulative ob req_id (ov_token_ids v) (ov_output_seq_no v) (ov_terminal v) (ov_error v) first second of
           (ob1, Inl e) \<Rightarrow> (ob1, Inl e)
         | (ob1, Inr changed) \<Rightarrow>
             (ob1, Inr (changed, [Increment ''output_gap_repair_total'' 1 [(''source'', ''query'')]])))"

subsection \<open>The buffer as a system of operations\<close>

datatype out_op =
  OutApply string "int list" int bool "string option" bool bool
| OutWait string int
| OutSnapshot string
| OutFail string string
| OutMark string

fun out_exec :: "output_buffer \<Rightarrow> out_op \<Rightarrow> output_buffer" where
  "out_exec ob (OutApply r ts n t e f c) = fst (apply_cumulative ob r ts n t e f c)"
| "out_exec ob (OutWait r n) = fst (wait_next ob r n)"
| "out_exec ob (OutSnapshot r) = fst (out_snapshot ob r)"
| "out_exec ob (OutFail r e) = fst (out_fail ob r e)"
| "out_exec ob (OutMark r) = fst (mark_resource_free ob r)"

definition ended :: "output_state \<Rightarrow> bool" where
  "ended s \<longleftrightarrow> os_terminal s \<or> os_error s \<noteq> None"

definition out_inv :: "output_buffer \<Rightarrow> bool" where
  "out_inv ob \<longleftrightarrow>
     wf_dict (ob_states ob) \<and> distinct (ob_resource_free_terminal ob) \<and>
     0 < ob_active_operation_cap ob \<and> 0 < ob_terminal_snapshot_cap ob \<and>
     (\<forall>r \<in> set (ob_resource_free_terminal ob). \<exists>s. dget (ob_states ob) r = Some s \<and> ended s) \<and>
     active_count ob \<le> ob_active_operation_cap ob \<and>
     int (length (ob_resource_free_terminal ob)) \<le> ob_terminal_snapshot_cap ob"

lemma evict_drops:
  "0 \<le> cap \<Longrightarrow> \<exists>n. fst (evict cap free states) = drop n free \<and> snd (evict cap free states) = foldl dpop states (take n free) \<and>
    int (length (drop n free)) \<le> cap \<and> (0 < n \<longrightarrow> int (length (drop n free)) = cap)"
proof (induction cap free states rule: evict.induct)
  case (1 cap states)
  then show ?case by (intro exI [of _ 0]) simp
next
  case (2 cap expired free states)
  show ?case
  proof (cases "int (length (expired # free)) > cap")
    case True
    with 2 obtain n where n: "fst (evict cap free (dpop states expired)) = drop n free"
      "snd (evict cap free (dpop states expired)) = foldl dpop (dpop states expired) (take n free)"
      "int (length (drop n free)) \<le> cap" "0 < n \<longrightarrow> int (length (drop n free)) = cap" by auto
    with True show ?thesis by (intro exI [of _ "Suc n"]) auto
  qed (intro exI [of _ 0], simp)
qed

lemma dget_foldl_dpop: "dget (foldl dpop d ks) k = (if k \<in> set ks then None else dget d k)"
  by (induction ks arbitrary: d) (auto simp: dict_simps)

lemma wf_foldl_dpop: "wf_dict d \<Longrightarrow> wf_dict (foldl dpop d ks)"
  by (induction ks arbitrary: d) auto

lemma length_foldl_dpop:
  "wf_dict d \<Longrightarrow> distinct ks \<Longrightarrow> \<forall>k \<in> set ks. dhas d k \<Longrightarrow> int (length (foldl dpop d ks)) = int (length d) - int (length ks)"
proof (induction ks arbitrary: d)
  case (Cons k ks)
  have "0 < length d" using Cons.prems(3) by auto
  then have "int (length (dpop d k)) = int (length d) - 1" using Cons.prems(1,3) by (simp add: length_dpop of_nat_diff Suc_leI)
  moreover have "\<forall>j \<in> set ks. dhas (dpop d k) j" using Cons.prems(2,3) by (auto simp: dict_simps)
  ultimately show ?case using Cons.IH [of "dpop d k"] Cons.prems(1,2) by simp
qed simp

lemma out_init_inv: "output_buffer_init a t = Inr ob \<Longrightarrow> out_inv ob"
  by (auto simp: output_buffer_init_def out_inv_def active_count_def split: if_splits)

lemma ensure_inv:
  assumes "out_inv ob" "out_ensure ob r = (ob1, res)"
  shows "out_inv ob1" "res = Inr s \<Longrightarrow> dget (ob_states ob1) r = Some s"
    "ob_resource_free_terminal ob1 = ob_resource_free_terminal ob"
proof -
  show "res = Inr s \<Longrightarrow> dget (ob_states ob1) r = Some s" "ob_resource_free_terminal ob1 = ob_resource_free_terminal ob"
    using assms(2) by (auto simp: out_ensure_def dict_simps split: option.splits if_splits)
  show "out_inv ob1"
  proof (cases "dget (ob_states ob) r")
    case None
    have "r \<notin> set (ob_resource_free_terminal ob)" using assms(1) None by (auto simp: out_inv_def)
    with assms None show ?thesis
      by (auto simp: out_ensure_def out_inv_def active_count_def length_dput dict_simps split: if_splits)
  qed (use assms in \<open>simp add: out_ensure_def\<close>)
qed

lemma put_state_inv:
  assumes "out_inv ob" "dget (ob_states ob) r = Some s" "ended s \<longrightarrow> ended s'"
  shows "out_inv (ob\<lparr>ob_states := dput (ob_states ob) r s'\<rparr>)"
  using assms by (auto simp: out_inv_def active_count_def length_dput dict_simps)

lemma err_or_Some [simp]: "err_or e (Some y) \<noteq> None"
  by (auto simp: err_or_def split: option.splits)

lemma apply_inv: "out_inv ob \<Longrightarrow> out_inv (fst (apply_cumulative ob r ts n t e f c))"
  using ensure_inv [of ob r]
  by (auto simp: apply_cumulative_def ended_def split: prod.splits sum.splits intro!: put_state_inv)

lemma fail_inv: "out_inv ob \<Longrightarrow> out_inv (fst (out_fail ob r e))"
  using ensure_inv [of ob r]
  by (auto simp: out_fail_def ended_def split: prod.splits sum.splits intro!: put_state_inv)

lemma read_inv: "out_inv ob \<Longrightarrow> out_inv (fst (wait_next ob r n))" "out_inv ob \<Longrightarrow> out_inv (fst (out_snapshot ob r))"
  using ensure_inv [of ob r] by (auto simp: wait_next_def out_snapshot_def split: prod.splits sum.splits)

lemma mark_inv:
  assumes "out_inv ob"
  shows "out_inv (fst (mark_resource_free ob r))"
proof (cases "dget (ob_states ob) r")
  case (Some s)
  show ?thesis
  proof (cases "ended s")
    case True
    define m where "m = removeAll r (ob_resource_free_terminal ob) @ [r]"
    let ?cap = "ob_terminal_snapshot_cap ob"
    from assms obtain n where n: "fst (evict ?cap m (ob_states ob)) = drop n m"
      "snd (evict ?cap m (ob_states ob)) = foldl dpop (ob_states ob) (take n m)" "int (length (drop n m)) \<le> ?cap"
      using evict_drops [of ?cap m "ob_states ob"] by (auto simp: out_inv_def)
    have eq: "fst (mark_resource_free ob r) =
        ob\<lparr>ob_resource_free_terminal := drop n m, ob_states := foldl dpop (ob_states ob) (take n m)\<rparr>"
      using Some True n(1,2) by (auto simp: mark_resource_free_def ended_def Let_def simp flip: m_def)
    have m: "distinct m" "\<forall>k \<in> set m. \<exists>s. dget (ob_states ob) k = Some s \<and> ended s"
      using assms Some True by (auto simp: out_inv_def distinct_removeAll m_def)
    have len: "length (ob_resource_free_terminal ob) \<le> length m"
      using assms distinct_remove1_removeAll [of "ob_resource_free_terminal ob" r]
      by (auto simp: out_inv_def length_remove1 m_def simp flip: distinct_remove1_removeAll)
    have dis: "set (take n m) \<inter> set (drop n m) = {}" using m(1) by (metis append_take_drop_id distinct_append)
    have st: "int (length (foldl dpop (ob_states ob) (take n m))) = int (length (ob_states ob)) - int (length (take n m))"
      using assms m by (intro length_foldl_dpop) (auto simp: out_inv_def dest!: in_set_takeD)
    have "int (length (take n m)) + int (length (drop n m)) = int (length m)"
      by (metis append_take_drop_id length_append of_nat_add)
    with st len assms have "active_count (fst (mark_resource_free ob r)) \<le> ob_active_operation_cap ob"
      unfolding eq active_count_def out_inv_def by simp
    with assms n(3) m dis show ?thesis
      unfolding eq out_inv_def by (auto simp: wf_foldl_dpop dget_foldl_dpop dest: in_set_dropD)
  qed (use assms Some in \<open>simp add: mark_resource_free_def ended_def\<close>)
qed (use assms in \<open>simp add: mark_resource_free_def\<close>)

interpretation out_ops: op_system out_exec "\<lambda>_ _. True" out_inv
proof unfold_locales
  fix ob x
  assume "out_inv ob"
  then show "out_inv (out_exec ob x)" by (cases x) (simp_all add: apply_inv read_inv fail_inv mark_inv)
qed

subsection \<open>What a stream sees\<close>

definition tokens_of :: "output_buffer \<Rightarrow> string \<Rightarrow> int list" where
  "tokens_of ob r = (case dget (ob_states ob) r of None \<Rightarrow> [] | Some s \<Rightarrow> os_token_ids s)"

definition done_of :: "output_buffer \<Rightarrow> string \<Rightarrow> bool" where
  "done_of ob r = (case dget (ob_states ob) r of None \<Rightarrow> False | Some s \<Rightarrow> os_terminal s)"

definition extends :: "output_buffer \<Rightarrow> output_buffer \<Rightarrow> string \<Rightarrow> bool" where
  "extends ob ob' r \<longleftrightarrow> prefix (tokens_of ob r) (tokens_of ob' r) \<and> (done_of ob r \<longrightarrow> done_of ob' r)"

lemma extends_refl [simp]: "extends ob ob r"
  by (simp add: extends_def)

lemma extends_trans: "extends ob ob1 r \<Longrightarrow> extends ob1 ob2 r \<Longrightarrow> extends ob ob2 r"
  unfolding extends_def by (blast intro: prefix_order.trans)

lemma ensure_extends: "out_ensure ob k = (ob1, res) \<Longrightarrow> extends ob ob1 r \<and> tokens_of ob1 r = tokens_of ob r"
  by (auto simp: out_ensure_def extends_def tokens_of_def done_of_def dict_simps new_output_state_def
      split: option.splits if_splits)

lemma put_extends:
  assumes "dget (ob_states ob) k = Some s" "prefix (os_token_ids s) (os_token_ids s')" "os_terminal s \<longrightarrow> os_terminal s'"
  shows "extends ob (ob\<lparr>ob_states := dput (ob_states ob) k s'\<rparr>) r"
  using assms by (simp add: extends_def tokens_of_def done_of_def dict_simps split: option.split)

lemma apply_extends:
  assumes "out_inv ob"
  shows "extends ob (fst (apply_cumulative ob k ts n t e f c)) r \<and>
    ob_resource_free_terminal (fst (apply_cumulative ob k ts n t e f c)) = ob_resource_free_terminal ob"
proof -
  obtain ob1 res where e: "out_ensure ob k = (ob1, res)" by (cases "out_ensure ob k")
  note p = ensure_inv(2,3) [OF assms e] ensure_extends [OF e, of r]
  have "extends ob (ob1\<lparr>ob_states := dput (ob_states ob1) k s'\<rparr>) r"
    if "res = Inr s" "prefix (os_token_ids s) (os_token_ids s')" "os_terminal s \<longrightarrow> os_terminal s'" for s s'
    using put_extends [OF p(1) [OF that(1)] that(2,3), of r] p(3) extends_trans by blast
  moreover have "take (length xs) ts = xs \<Longrightarrow> prefix xs ts" for xs by (metis take_is_prefix)
  ultimately show ?thesis
    using e p(2,3) by (auto simp: apply_cumulative_def split: sum.splits)
qed

lemma fail_extends:
  assumes "out_inv ob"
  shows "extends ob (fst (out_fail ob k e)) r \<and> ob_resource_free_terminal (fst (out_fail ob k e)) = ob_resource_free_terminal ob"
proof -
  obtain ob1 res where e: "out_ensure ob k = (ob1, res)" by (cases "out_ensure ob k")
  note p = ensure_inv(2,3) [OF assms e] ensure_extends [OF e, of r]
  show ?thesis
  proof (cases res)
    case (Inr s)
    have "extends ob1 (ob1\<lparr>ob_states := dput (ob_states ob1) k (s\<lparr>os_terminal := True, os_error := x\<rparr>)\<rparr>) r" for x
      by (rule put_extends [OF p(1) [OF Inr]]) simp_all
    with p(2,3) e Inr show ?thesis using extends_trans by (simp add: out_fail_def) blast
  qed (use p(2,3) e in \<open>simp add: out_fail_def\<close>)
qed

lemma read_extends:
  "out_inv ob \<Longrightarrow> extends ob (fst (wait_next ob k n)) r \<and>
     ob_resource_free_terminal (fst (wait_next ob k n)) = ob_resource_free_terminal ob"
  "out_inv ob \<Longrightarrow> extends ob (fst (out_snapshot ob k)) r \<and>
     ob_resource_free_terminal (fst (out_snapshot ob k)) = ob_resource_free_terminal ob"
  using ensure_extends [of ob k _ _ r] ensure_inv(3) [of ob k]
  by (auto simp: wait_next_def out_snapshot_def split: prod.splits sum.splits)

lemma mark_extends:
  assumes "out_inv ob" "r \<noteq> k" "r \<notin> set (ob_resource_free_terminal ob)"
  shows "extends ob (fst (mark_resource_free ob k)) r \<and> r \<notin> set (ob_resource_free_terminal (fst (mark_resource_free ob k)))"
proof -
  let ?m = "removeAll k (ob_resource_free_terminal ob) @ [k]" and ?cap = "ob_terminal_snapshot_cap ob"
  from assms(1) obtain n where n: "fst (evict ?cap ?m (ob_states ob)) = drop n ?m"
    "snd (evict ?cap ?m (ob_states ob)) = foldl dpop (ob_states ob) (take n ?m)"
    using evict_drops [of ?cap ?m "ob_states ob"] by (auto simp: out_inv_def)
  have r: "r \<notin> set (take n ?m)" "r \<notin> set (drop n ?m)"
    using assms(2,3) in_set_takeD [of r n ?m] in_set_dropD [of r n ?m] by auto
  from n r have d: "dget (snd (evict ?cap ?m (ob_states ob))) r = dget (ob_states ob) r"
    by (simp add: dget_foldl_dpop)
  then have "extends ob (ob\<lparr>ob_resource_free_terminal := xs, ob_states := snd (evict ?cap ?m (ob_states ob))\<rparr>) r" for xs
    by (simp add: extends_def tokens_of_def done_of_def)
  moreover have "r \<notin> set (fst (evict ?cap ?m (ob_states ob)))" using n(1) r(2) by simp
  ultimately show ?thesis
    using assms(3) by (simp add: mark_resource_free_def Let_def split: option.split)
qed

lemma step_extends:
  assumes "out_inv ob" "x \<noteq> OutMark r" "r \<notin> set (ob_resource_free_terminal ob)"
  shows "extends ob (out_exec ob x) r \<and> r \<notin> set (ob_resource_free_terminal (out_exec ob x))"
  using assms by (cases x) (simp_all add: apply_extends read_extends fail_extends mark_extends)

text \<open>A stream reads with the number of tokens it has as its cursor, between arbitrary other operations.\<close>

datatype stream_op = Other out_op | StreamRead

fun stream_exec :: "string \<Rightarrow> output_buffer \<times> int list \<Rightarrow> stream_op \<Rightarrow> output_buffer \<times> int list" where
  "stream_exec r (ob, got) (Other x) = (out_exec ob x, got)"
| "stream_exec r (ob, got) StreamRead =
     (case wait_next ob r (int (length got)) of
        (ob1, Inr (Some (chunk, _, _))) \<Rightarrow> (ob1, got @ chunk)
      | (ob1, _) \<Rightarrow> (ob1, got))"

definition stream_inv :: "string \<Rightarrow> output_buffer \<times> int list \<Rightarrow> bool" where
  "stream_inv r s \<longleftrightarrow> out_inv (fst s) \<and> r \<notin> set (ob_resource_free_terminal (fst s)) \<and> prefix (snd s) (tokens_of (fst s) r)"

lemma wait_next_chunk:
  assumes "wait_next ob r (int (length got)) = (ob1, Inr (Some (chunk, t, e)))" "prefix got (tokens_of ob r)"
  shows "got @ chunk = tokens_of ob1 r"
proof -
  obtain ob2 res where n: "out_ensure ob r = (ob2, res)" by (cases "out_ensure ob r")
  with assms(1) obtain s where s: "res = Inr s" "ob1 = ob2" "chunk = py_from (int (length got)) (os_token_ids s)"
    by (cases res) (auto simp: wait_next_def split: if_splits)
  have "dget (ob_states ob2) r = Some s"
    using n s(1) by (auto simp: out_ensure_def dict_simps split: option.splits if_splits)
  then have t: "tokens_of ob1 r = os_token_ids s" by (simp add: tokens_of_def s(2))
  moreover have "prefix got (os_token_ids s)" using ensure_extends [OF n, of r] assms(2) t s(2) by simp
  ultimately show ?thesis by (auto simp: s(3) py_from_def prefix_def)
qed

interpretation stream_ops: op_system "stream_exec r" "\<lambda>_ x. x \<noteq> Other (OutMark r)" "stream_inv r" for r
proof unfold_locales
  fix s x
  assume s: "stream_inv r s" and x: "x \<noteq> Other (OutMark r)"
  obtain ob got where p: "s = (ob, got)" by (cases s)
  show "stream_inv r (stream_exec r s x)"
  proof (cases x)
    case (Other y)
    have "prefix (tokens_of ob r) (tokens_of (out_exec ob y) r)" "r \<notin> set (ob_resource_free_terminal (out_exec ob y))"
      using step_extends [of ob y r] s x Other by (simp_all add: stream_inv_def p extends_def)
    moreover have "out_inv (out_exec ob y)" using s out_ops.exec_inv by (simp add: stream_inv_def p)
    ultimately show ?thesis using s Other prefix_order.trans by (auto simp: stream_inv_def p)
  next
    case StreamRead
    obtain ob1 res where w: "wait_next ob r (int (length got)) = (ob1, res)" by (cases "wait_next ob r (int (length got))")
    have i: "out_inv ob1" "r \<notin> set (ob_resource_free_terminal ob1)" "prefix (tokens_of ob r) (tokens_of ob1 r)"
      using s read_inv(1) [of ob r "int (length got)"] read_extends(1) [of ob r "int (length got)" r]
      by (simp_all add: stream_inv_def p w extends_def)
    show ?thesis
      using s i wait_next_chunk [of ob r got ob1] StreamRead w prefix_order.trans
      by (auto simp: stream_inv_def p split: sum.splits option.splits prod.splits)
  qed
qed

definition stream_grows :: "string \<Rightarrow> output_buffer \<times> int list \<Rightarrow> output_buffer \<times> int list \<Rightarrow> bool" where
  "stream_grows r s s' \<longleftrightarrow> prefix (tokens_of (fst s) r) (tokens_of (fst s') r) \<and> prefix (snd s) (snd s')"

lemma ensure_caps [simp]:
  "ob_active_operation_cap (fst (out_ensure ob r)) = ob_active_operation_cap ob"
  "ob_terminal_snapshot_cap (fst (out_ensure ob r)) = ob_terminal_snapshot_cap ob"
  by (simp_all add: out_ensure_def split: option.split)

lemma out_exec_caps:
  "ob_active_operation_cap (out_exec ob x) = ob_active_operation_cap ob \<and>
   ob_terminal_snapshot_cap (out_exec ob x) = ob_terminal_snapshot_cap ob"
proof (cases x)
  case (OutMark r)
  then show ?thesis by (simp add: mark_resource_free_def Let_def split: option.split)
next
  case (OutApply r ts n t e f c)
  then show ?thesis using ensure_caps [of ob r] by (cases "out_ensure ob r"; cases "snd (out_ensure ob r)") (simp_all add: apply_cumulative_def)
next
  case (OutWait r n)
  then show ?thesis using ensure_caps [of ob r] by (cases "out_ensure ob r"; cases "snd (out_ensure ob r)") (simp_all add: wait_next_def)
next
  case (OutSnapshot r)
  then show ?thesis using ensure_caps [of ob r] by (cases "out_ensure ob r"; cases "snd (out_ensure ob r)") (simp_all add: out_snapshot_def)
next
  case (OutFail r e)
  then show ?thesis using ensure_caps [of ob r] by (cases "out_ensure ob r"; cases "snd (out_ensure ob r)") (simp_all add: out_fail_def)
qed

lemma stream_grows_preorder:
  "stream_grows r s s" "stream_grows r s t \<Longrightarrow> stream_grows r t u \<Longrightarrow> stream_grows r s u"
  unfolding stream_grows_def by (simp, meson prefix_order.trans)

lemma stream_step_grows:
  assumes "stream_inv r s" "x \<noteq> Other (OutMark r)"
  shows "stream_grows r s (stream_exec r s x)"
proof (cases x)
  case (Other y)
  with step_extends [of "fst s" y r] assms show ?thesis
    by (cases s) (simp add: stream_inv_def extends_def stream_grows_def)
next
  case StreamRead
  with read_extends(1) [of "fst s" r "int (length (snd s))" r] assms(1) show ?thesis
    by (cases s) (auto simp: stream_inv_def extends_def stream_grows_def split: prod.splits sum.splits option.splits)
qed

subsection \<open>Properties\<close>

text \<open>
  C29.  A stream that reads a request between arbitrary reports, reads and failures of all requests has
  received a prefix of the committed tokens at every moment, and whenever a read returns it has received
  exactly the committed tokens: nothing is lost, repeated or reordered, and committed tokens never change.
\<close>

theorem stream_is_output:
  assumes "output_buffer_init a c = Inr ob0" and "\<forall>x \<in> set (xs @ ys). x \<noteq> Other (OutMark r)"
    and "(ob, got) = foldl (stream_exec r) (ob0, []) xs" and "(ob', got') = foldl (stream_exec r) (ob, got) ys"
  shows "prefix got (tokens_of ob r) \<and> prefix (tokens_of ob r) (tokens_of ob' r) \<and> prefix got got' \<and>
    (\<forall>ob1 chunk t e. wait_next ob r (int (length got)) = (ob1, Inr (Some (chunk, t, e))) \<longrightarrow>
       got @ chunk = tokens_of ob r)"
proof -
  have ok: "ok_run (stream_exec r) (\<lambda>_ x. x \<noteq> Other (OutMark r)) s zs" if "\<forall>x \<in> set zs. x \<noteq> Other (OutMark r)" for s zs
    using that by (induction zs arbitrary: s) auto
  have init: "stream_inv r (ob0, [])"
    using out_init_inv [OF assms(1)] assms(1) by (auto simp: stream_inv_def output_buffer_init_def split: if_splits)
  from stream_ops.run_inv [OF ok init, of xs] assms(2,3) have i: "stream_inv r (ob, got)" by auto
  have ext: "stream_grows r (ob, got) (ob', got')"
    unfolding assms(4)
  proof (rule stream_ops.run_rel [of r "stream_grows r"])
    show "ok_run (stream_exec r) (\<lambda>_ x. x \<noteq> Other (OutMark r)) (ob, got) ys" using assms(2) by (intro ok) simp
  qed (fact stream_step_grows stream_grows_preorder i)+
  have "got @ chunk = tokens_of ob r" if w: "wait_next ob r (int (length got)) = (ob1, Inr (Some (chunk, t, e)))" for ob1 chunk t e
  proof -
    have "got @ chunk = tokens_of ob1 r" using wait_next_chunk [OF w] i by (simp add: stream_inv_def)
    moreover have "tokens_of ob1 r = tokens_of ob r"
      using ensure_extends [of ob r _ _ r] w by (auto simp: wait_next_def split: prod.splits sum.splits)
    ultimately show ?thesis by simp
  qed
  with ext i show ?thesis by (auto simp: stream_inv_def stream_grows_def)
qed

text \<open>
  C32.  Whatever the callers do, the buffer holds at most the configured number of active streams and at
  most the configured number of finished snapshots, and only finished streams can be evicted.
\<close>

theorem output_capacity:
  assumes "output_buffer_init a c = Inr ob0" and "ob = foldl out_exec ob0 xs"
  shows "int (length (ob_states ob)) - int (length (ob_resource_free_terminal ob)) \<le> a \<and>
    int (length (ob_resource_free_terminal ob)) \<le> c \<and>
    (dget (ob_states ob) r = Some s \<and> \<not> os_terminal s \<and> os_error s = None \<longrightarrow>
      dget (ob_states (out_exec ob (OutMark k))) r = Some s)"
proof -
  have i: "out_inv ob" unfolding assms(2) by (rule out_ops.run_inv) (use assms(1) out_init_inv in auto)
  have "ob_active_operation_cap ob = ob_active_operation_cap ob0 \<and> ob_terminal_snapshot_cap ob = ob_terminal_snapshot_cap ob0"
    unfolding assms(2) by (induction xs rule: rev_induct) (simp_all add: out_exec_caps)
  then have c: "ob_active_operation_cap ob = a" "ob_terminal_snapshot_cap ob = c"
    using assms(1) by (auto simp: output_buffer_init_def split: if_splits)
  have "dget (ob_states (out_exec ob (OutMark k))) r = Some s"
    if s: "dget (ob_states ob) r = Some s" "\<not> os_terminal s" "os_error s = None"
  proof (cases "k = r")
    case True
    with s show ?thesis by (simp add: mark_resource_free_def)
  next
    case False
    have r: "r \<notin> set (ob_resource_free_terminal ob)" using i s by (auto simp: out_inv_def ended_def)
    let ?m = "removeAll k (ob_resource_free_terminal ob) @ [k]" and ?cap = "ob_terminal_snapshot_cap ob"
    from i obtain n where n: "snd (evict ?cap ?m (ob_states ob)) = foldl dpop (ob_states ob) (take n ?m)"
      using evict_drops [of ?cap ?m "ob_states ob"] by (auto simp: out_inv_def)
    have "r \<notin> set (take n ?m)" using in_set_takeD [of r n ?m] r False by auto
    with s(1) n show ?thesis by (simp add: mark_resource_free_def Let_def dget_foldl_dpop split: option.split)
  qed
  with i c show ?thesis by (auto simp: out_inv_def active_count_def)
qed

theorem stream_is_output_witness:
  "\<exists>ob got. foldl (stream_exec ''a'') (\<lparr>ob_active_operation_cap = 2, ob_terminal_snapshot_cap = 1, ob_states = [],
      ob_resource_free_terminal = []\<rparr>, [])
     [Other (OutApply ''a'' [7] 1 False None True True), StreamRead, Other (OutApply ''a'' [7, 8] 2 True None True True)] = (ob, got) \<and>
   prefix got (tokens_of ob ''a'') \<and> got = [7]"
proof -
  let ?b = "\<lparr>ob_active_operation_cap = 2, ob_terminal_snapshot_cap = 1, ob_states = [], ob_resource_free_terminal = []\<rparr>"
  let ?xs = "[Other (OutApply ''a'' [7] 1 False None True True), StreamRead, Other (OutApply ''a'' [7, 8] 2 True None True True)]"
  obtain ob got where f: "(ob, got) = foldl (stream_exec ''a'') (?b, []) ?xs" by (metis surj_pair)
  have "output_buffer_init 2 1 = Inr ?b" by (simp add: output_buffer_init_def)
  from stream_is_output [OF this _ f, of "[]" ob got] have "prefix got (tokens_of ob ''a'')" by simp
  moreover from f have "got = [7]"
    by (simp add: apply_cumulative_def out_ensure_def wait_next_def active_count_def new_output_state_def py_from_def err_or_def)
  ultimately show ?thesis using f by (intro exI [of _ ob] exI [of _ got]) simp
qed

theorem output_capacity_witness:
  "\<exists>ob. ob = foldl out_exec \<lparr>ob_active_operation_cap = 1, ob_terminal_snapshot_cap = 1, ob_states = [], ob_resource_free_terminal = []\<rparr>
     [OutApply ''a'' [7] 1 True None True True, OutMark ''a'', OutSnapshot ''b'', OutSnapshot ''c''] \<and>
   int (length (ob_states ob)) - int (length (ob_resource_free_terminal ob)) \<le> 1"
proof -
  let ?b = "\<lparr>ob_active_operation_cap = 1, ob_terminal_snapshot_cap = 1, ob_states = [], ob_resource_free_terminal = []\<rparr>"
  have "output_buffer_init 1 1 = Inr ?b" by (simp add: output_buffer_init_def)
  from output_capacity [OF this refl] show ?thesis by blast
qed

end
