(* ===== verification/Replacement_Store.thy ===== *)
theory Replacement_Store
  imports Json
begin

text \<open>
  \<^verbatim>\<open>prism_serve/scheduler/replacement_store.py\<close>: the durable record of release decisions while a whole
  topology is replaced.  The store file is kept as the JSON value it contains, with the keys sorted as
  the canonical encoder writes them.  What can happen at each write (\<open>write_outcome\<close>) and on opening the
  directory is an argument, so that a failed write and a crash between two writes are ordinary runs; the
  lock makes every method one step.  SHA-256, \<open>repr\<close> and the parsing of integers are parameters.
\<close>

record store_env =
  se_sha :: "json \<Rightarrow> string"
  se_repr :: "json \<Rightarrow> string"
  se_int_of_str :: "string \<Rightarrow> int option"

subsection \<open>Records and seals\<close>

record release_record =
  rr_cleanup_id :: string
  rr_restart_run_id :: string
  rr_old_operation_digest :: string
  rr_operation_id :: string
  rr_lease_id :: string
  rr_old_resource_kinds :: "string list"
  rr_decision_digest :: string

type_synonym record_key = "string \<times> string \<times> string"

definition key_of :: "release_record \<Rightarrow> record_key" where
  "key_of r = (rr_cleanup_id r, rr_restart_run_id r, rr_old_operation_digest r)"

record run_seal =
  rn_seal_sequence :: int
  rn_restart_run_id :: string
  rn_old_topology_generation_digest :: string
  rn_new_topology_generation :: string
  rn_decision_digest :: string
  rn_record_root_digest :: string
  rn_record_count :: int

record active_run =
  ac_restart_run_id :: string
  ac_old_topology_generation_digest :: string
  ac_decision_digest :: string

definition record_value :: "release_record \<Rightarrow> json" where
  "record_value r = JObj
     [(''cleanup_id'', JStr (rr_cleanup_id r)), (''restart_run_id'', JStr (rr_restart_run_id r)),
      (''old_operation_digest'', JStr (rr_old_operation_digest r)), (''operation_id'', JStr (rr_operation_id r)),
      (''lease_id'', JStr (rr_lease_id r)), (''old_resource_kinds'', JArr (map JStr (rr_old_resource_kinds r))),
      (''decision_digest'', JStr (rr_decision_digest r))]"

definition seal_value :: "run_seal \<Rightarrow> json" where
  "seal_value s = JObj
     [(''seal_sequence'', JInt (rn_seal_sequence s)), (''restart_run_id'', JStr (rn_restart_run_id s)),
      (''old_topology_generation_digest'', JStr (rn_old_topology_generation_digest s)),
      (''new_topology_generation'', JStr (rn_new_topology_generation s)),
      (''decision_digest'', JStr (rn_decision_digest s)), (''record_root_digest'', JStr (rn_record_root_digest s)),
      (''record_count'', JInt (rn_record_count s))]"

definition seal_digest :: "store_env \<Rightarrow> run_seal \<Rightarrow> string" where
  "seal_digest env s = digest (se_sha env) (seal_value s)"

definition active_value :: "active_run \<Rightarrow> json" where
  "active_value a = JObj
     [(''restart_run_id'', JStr (ac_restart_run_id a)),
      (''old_topology_generation_digest'', JStr (ac_old_topology_generation_digest a)),
      (''decision_digest'', JStr (ac_decision_digest a))]"

datatype store_error =
  ReplacementStoreUnavailable
| ReplacementStoreCapacity
| ReplacementConflict string
| RetiredReplacementRun run_seal
| UnknownReplacementRun string
| InvalidStoreConfig

datatype load_error =
  OrphanTempFile | UnreadableFile | InvalidEnvelope | UnsupportedVersion | DigestMismatch | InvalidPayload
| InvalidActiveRun | InvalidRecord | DuplicateRecordKey | DuplicateLease | RecordCapExceeded | OrphanRecords
| MixedRuns | MixedDecisions | InvalidSeal | SealRetentionExceeded | SealSequenceNotMonotonic | DuplicateSeal
| InvalidNextSequence | SealedSegmentMismatch

text \<open>
  The store directory: its file and whether a temporary file is left.  A write creates the temporary file
  with the new contents, replaces the store file by it, and syncs the directory; it can raise before the
  temporary file exists, while it exists, or after the replacement.
\<close>

datatype file_content = NoFile | Garbage | Contents json

datatype write_outcome = WriteOk | OpenFailed | TempLeft | SyncFailed

datatype store_fault = LoadFault load_error | WriteFault | MkdirFault | GcFault

record store =
  rs_max_records_per_run :: int
  rs_seal_retention :: nat
  rs_fatal_error :: "store_fault option"
  rs_active_run :: "active_run option"
  rs_records :: "(record_key, release_record) dict"
  rs_seals :: "run_seal list"
  rs_next_seal_sequence :: int
  rs_file :: file_content
  rs_orphan :: bool

type_synonym 'a store_result = "(store, store_error, 'a) outcome"

subsection \<open>Queries\<close>

definition store_ready :: "store \<Rightarrow> bool" where
  "store_ready st \<longleftrightarrow> rs_fatal_error st = None \<and> int (length (rs_records st)) < rs_max_records_per_run st"

definition active_restart_run_id :: "store \<Rightarrow> string option" where
  "active_restart_run_id st = map_option ac_restart_run_id (rs_active_run st)"

definition active_old_digest :: "store \<Rightarrow> string option" where
  "active_old_digest st = map_option ac_old_topology_generation_digest (rs_active_run st)"

definition active_decision_digest :: "store \<Rightarrow> string option" where
  "active_decision_digest st = map_option ac_decision_digest (rs_active_run st)"

definition transition_closed :: "store \<Rightarrow> bool" where
  "transition_closed st \<longleftrightarrow> rs_fatal_error st = None \<and> rs_active_run st = None"

definition record_root :: "store_env \<Rightarrow> release_record list \<Rightarrow> string" where
  "record_root env rs = digest (se_sha env) (JArr (map record_value (sort_key key_of rs)))"

definition active_record_root_digest :: "store_env \<Rightarrow> store \<Rightarrow> string" where
  "active_record_root_digest env st = record_root env (dvals (rs_records st))"

definition store_records :: "store \<Rightarrow> release_record list" where
  "store_records st = sort_key key_of (dvals (rs_records st))"

definition seal_for_run :: "run_seal list \<Rightarrow> string \<Rightarrow> run_seal option" where
  "seal_for_run seals restart_run_id = find (\<lambda>s. rn_restart_run_id s = restart_run_id) seals"

record store_summary =
  sm_ready :: bool
  sm_last_error :: "store_fault option"
  sm_active_restart_run_id :: "string option"
  sm_active_old_topology_generation_digest :: "string option"
  sm_active_decision_digest :: "string option"
  sm_transition_closed :: bool
  sm_record_count :: nat
  sm_seal_count :: nat
  sm_record_root_digest :: string

definition store_state_summary :: "store_env \<Rightarrow> store \<Rightarrow> store_summary" where
  "store_state_summary env st =
     \<lparr>sm_ready = store_ready st, sm_last_error = rs_fatal_error st,
      sm_active_restart_run_id = active_restart_run_id st,
      sm_active_old_topology_generation_digest = active_old_digest st,
      sm_active_decision_digest = active_decision_digest st,
      sm_transition_closed = transition_closed st, sm_record_count = length (rs_records st),
      sm_seal_count = length (rs_seals st), sm_record_root_digest = active_record_root_digest env st\<rparr>"

definition validate_requested_run ::
  "store_env \<Rightarrow> store \<Rightarrow> string \<Rightarrow> string \<Rightarrow> string option \<Rightarrow> store_error option" where
  "validate_requested_run env st restart_run_id old_topology_generation decision_digest =
     (if restart_run_id = [] \<or> old_topology_generation = [] then Some (UnknownReplacementRun ''run and old generation are required'')
      else case rs_active_run st of
        None \<Rightarrow> None
      | Some a \<Rightarrow>
          if ac_restart_run_id a \<noteq> restart_run_id then Some (UnknownReplacementRun ''another run is still unsealed'')
          else if ac_old_topology_generation_digest a \<noteq> digest (se_sha env) (JStr old_topology_generation)
          then Some (ReplacementConflict ''replacement run reused with different old generation'')
          else if (case decision_digest of None \<Rightarrow> False | Some d \<Rightarrow> ac_decision_digest a \<noteq> d)
          then Some (ReplacementConflict ''replacement run reused with different decision evidence'')
          else None)"

definition exact_completed_run ::
  "store_env \<Rightarrow> store \<Rightarrow> string \<Rightarrow> string \<Rightarrow> string \<Rightarrow> string \<Rightarrow> store_error + run_seal option" where
  "exact_completed_run env st restart_run_id old_topology_generation new_topology_generation decision_digest =
     (if rs_fatal_error st \<noteq> None then Inl ReplacementStoreUnavailable
      else case seal_for_run (rs_seals st) restart_run_id of
        None \<Rightarrow> Inr None
      | Some s \<Rightarrow>
          if rn_old_topology_generation_digest s \<noteq> digest (se_sha env) (JStr old_topology_generation)
          then Inl (ReplacementConflict ''sealed replacement run reused with different old generation'')
          else if rn_new_topology_generation s \<noteq> new_topology_generation
          then Inl (ReplacementConflict ''sealed replacement run reused with different new generation'')
          else if rn_decision_digest s \<noteq> decision_digest
          then Inl (ReplacementConflict ''sealed replacement run reused with different decision evidence'')
          else Inr (Some s))"

definition validate_cold_recovery_base :: "store \<Rightarrow> string \<Rightarrow> store_error + unit" where
  "validate_cold_recovery_base st old_topology_generation =
     (if rs_fatal_error st \<noteq> None then Inl ReplacementStoreUnavailable
      else if rs_active_run st \<noteq> None \<or> rs_records st \<noteq> []
      then Inl (ReplacementConflict ''cold replacement recovery requires a closed local segment'')
      else if rs_seals st \<noteq> [] \<and> rn_new_topology_generation (last (rs_seals st)) \<noteq> old_topology_generation
      then Inl (ReplacementConflict ''cold replacement old generation does not follow retained seal'')
      else Inr ())"

definition validate_active_run :: "store_env \<Rightarrow> store \<Rightarrow> string \<Rightarrow> string \<Rightarrow> string \<Rightarrow> store_error + unit" where
  "validate_active_run env st restart_run_id old_topology_generation decision_digest =
     (if rs_fatal_error st \<noteq> None then Inl ReplacementStoreUnavailable
      else if rs_active_run st = None then Inl (UnknownReplacementRun ''no active replacement segment'')
      else case validate_requested_run env st restart_run_id old_topology_generation (Some decision_digest) of
        Some e \<Rightarrow> Inl e
      | None \<Rightarrow> Inr ())"

subsection \<open>Committing\<close>

definition payload_value ::
  "active_run option \<Rightarrow> (record_key, release_record) dict \<Rightarrow> run_seal list \<Rightarrow> int \<Rightarrow> json" where
  "payload_value active records seals next_seal_sequence = JObj
     [(''active_run'', case active of None \<Rightarrow> JNull | Some a \<Rightarrow> active_value a),
      (''records'', JArr (map record_value (sort_key key_of (dvals records)))),
      (''seals'', JArr (map seal_value seals)), (''next_seal_sequence'', JInt next_seal_sequence)]"

definition envelope_value :: "store_env \<Rightarrow> json \<Rightarrow> json" where
  "envelope_value env payload = JObj
     [(''format_version'', JInt 2), (''payload'', payload), (''payload_digest'', JStr (digest (se_sha env) payload))]"

text \<open>What \<open>_atomic_write\<close> leaves in the directory.\<close>

definition atomic_write :: "write_outcome \<Rightarrow> json \<Rightarrow> store \<Rightarrow> store" where
  "atomic_write w v st =
     (case w of
        WriteOk \<Rightarrow> st\<lparr>rs_file := Contents (canon v)\<rparr>
      | OpenFailed \<Rightarrow> st
      | TempLeft \<Rightarrow> st\<lparr>rs_orphan := True\<rparr>
      | SyncFailed \<Rightarrow> st\<lparr>rs_file := Contents (canon v)\<rparr>)"

definition commit_state ::
  "store_env \<Rightarrow> write_outcome \<Rightarrow> store \<Rightarrow> active_run option \<Rightarrow> (record_key, release_record) dict \<Rightarrow> run_seal list \<Rightarrow> int
     \<Rightarrow> unit store_result" where
  "commit_state env w st active records seals next_seal_sequence =
     (let payload = payload_value active records seals next_seal_sequence;
          st1 = atomic_write w (envelope_value env payload) st
      in if w \<noteq> WriteOk then (st1\<lparr>rs_fatal_error := Some WriteFault\<rparr>, Inl ReplacementStoreUnavailable)
         else (st1\<lparr>rs_active_run := active, rs_records := records, rs_seals := seals,
                   rs_next_seal_sequence := next_seal_sequence\<rparr>, Inr ()))"

subsection \<open>Persisting decisions\<close>

definition store_lookup ::
  "store_env \<Rightarrow> store \<Rightarrow> release_record \<Rightarrow> string \<Rightarrow> store_error + release_record option" where
  "store_lookup env st r old_topology_generation =
     (if rs_fatal_error st \<noteq> None then Inl ReplacementStoreUnavailable
      else case dget (rs_records st) (key_of r) of
        Some existing \<Rightarrow>
          if existing \<noteq> r then Inl (ReplacementConflict ''replacement key reused with different record/digest'')
          else Inr (Some existing)
      | None \<Rightarrow>
          (case seal_for_run (rs_seals st) (rr_restart_run_id r) of
             Some s \<Rightarrow> Inl (RetiredReplacementRun s)
           | None \<Rightarrow>
               (case validate_requested_run env st (rr_restart_run_id r) old_topology_generation (Some (rr_decision_digest r)) of
                  Some e \<Rightarrow> Inl e
                | None \<Rightarrow> Inr None)))"

definition lease_taken :: "(record_key, release_record) dict \<Rightarrow> release_record \<Rightarrow> bool" where
  "lease_taken records r \<longleftrightarrow>
     (\<exists>other \<in> set (dvals records). rr_operation_id other = rr_operation_id r \<and> rr_lease_id other = rr_lease_id r \<and>
        key_of other \<noteq> key_of r)"

definition persist_record ::
  "store_env \<Rightarrow> write_outcome \<Rightarrow> store \<Rightarrow> release_record \<Rightarrow> string \<Rightarrow> (release_record \<times> bool) store_result" where
  "persist_record env w st r old_topology_generation =
     (case store_lookup env st r old_topology_generation of
        Inl e \<Rightarrow> (st, Inl e)
      | Inr (Some existing) \<Rightarrow> (st, Inr (existing, False))
      | Inr None \<Rightarrow>
          if int (length (rs_records st)) \<ge> rs_max_records_per_run st then (st, Inl ReplacementStoreCapacity)
          else if lease_taken (rs_records st) r
          then (st, Inl (ReplacementConflict ''replacement lease already has a different decision key''))
          else let active = (case rs_active_run st of
                      Some a \<Rightarrow> a
                    | None \<Rightarrow> \<lparr>ac_restart_run_id = rr_restart_run_id r,
                        ac_old_topology_generation_digest = digest (se_sha env) (JStr old_topology_generation),
                        ac_decision_digest = rr_decision_digest r\<rparr>)
            in case commit_state env w st (Some active) (dput (rs_records st) (key_of r) r) (rs_seals st) (rs_next_seal_sequence st) of
                 (st1, Inl e) \<Rightarrow> (st1, Inl e)
               | (st1, Inr _) \<Rightarrow> (st1, Inr (r, True)))"

text \<open>\<open>leases\<close> of \<open>persist_records\<close>: which key holds a lease; a later record overwrites.\<close>

definition lease_key :: "release_record \<Rightarrow> string \<times> string" where
  "lease_key r = (rr_operation_id r, rr_lease_id r)"

definition lease_map :: "(record_key, release_record) dict \<Rightarrow> (string \<times> string, record_key) dict" where
  "lease_map records = foldl (\<lambda>d r. dput d (lease_key r) (key_of r)) [] (dvals records)"

fun add_batch ::
  "(record_key, release_record) dict \<Rightarrow> (string \<times> string, record_key) dict \<Rightarrow> bool \<Rightarrow> release_record list
     \<Rightarrow> store_error + (record_key, release_record) dict \<times> bool" where
  "add_batch candidate leases changed [] = Inr (candidate, changed)"
| "add_batch candidate leases changed (r # rs) =
     (case dget candidate (key_of r) of
        Some existing \<Rightarrow>
          if existing \<noteq> r then Inl (ReplacementConflict ''replacement key reused with different record/digest'')
          else add_batch candidate leases changed rs
      | None \<Rightarrow>
          if (case dget leases (lease_key r) of None \<Rightarrow> False | Some k \<Rightarrow> k \<noteq> key_of r)
          then Inl (ReplacementConflict ''replacement lease already has a different decision key'')
          else add_batch (dput candidate (key_of r) r) (dput leases (lease_key r) (key_of r)) True rs)"

definition requested_decision :: "release_record list \<Rightarrow> string option \<Rightarrow> string" where
  "requested_decision rs decision_digest =
     (case decision_digest of
        Some d \<Rightarrow> if d \<noteq> [] then d else (case rs of [] \<Rightarrow> [] | r # _ \<Rightarrow> rr_decision_digest r)
      | None \<Rightarrow> (case rs of [] \<Rightarrow> [] | r # _ \<Rightarrow> rr_decision_digest r))"

definition persist_records ::
  "store_env \<Rightarrow> write_outcome \<Rightarrow> store \<Rightarrow> release_record list \<Rightarrow> string \<Rightarrow> string \<Rightarrow> string option
     \<Rightarrow> release_record list store_result" where
  "persist_records env w st rs restart_run_id old_topology_generation decision_digest =
     (let d = requested_decision rs decision_digest
      in if rs_fatal_error st \<noteq> None then (st, Inl ReplacementStoreUnavailable)
         else case seal_for_run (rs_seals st) restart_run_id of
           Some s \<Rightarrow> (st, Inl (RetiredReplacementRun s))
         | None \<Rightarrow>
             if d = [] then (st, Inl (ReplacementConflict ''replacement batch requires a decision digest''))
             else if \<exists>r \<in> set rs. rr_decision_digest r \<noteq> d then (st, Inl (ReplacementConflict ''replacement batch mixes decisions''))
             else case validate_requested_run env st restart_run_id old_topology_generation (Some d) of
               Some e \<Rightarrow> (st, Inl e)
             | None \<Rightarrow>
                 if \<exists>r \<in> set rs. rr_restart_run_id r \<noteq> restart_run_id
                 then (st, Inl (ReplacementConflict ''replacement batch mixes restart runs''))
                 else case add_batch (rs_records st) (lease_map (rs_records st)) False rs of
                   Inl e \<Rightarrow> (st, Inl e)
                 | Inr (candidate, changed) \<Rightarrow>
                     if int (length candidate) > rs_max_records_per_run st then (st, Inl ReplacementStoreCapacity)
                     else if changed \<or> rs_active_run st = None
                     then (case commit_state env w st
                               (Some \<lparr>ac_restart_run_id = restart_run_id,
                                  ac_old_topology_generation_digest = digest (se_sha env) (JStr old_topology_generation),
                                  ac_decision_digest = d\<rparr>)
                               candidate (rs_seals st) (rs_next_seal_sequence st) of
                             (st1, Inl e) \<Rightarrow> (st1, Inl e)
                           | (st1, Inr _) \<Rightarrow> (st1, Inr (map (\<lambda>r. the (dget candidate (key_of r))) rs)))
                     else (st, Inr (map (\<lambda>r. the (dget candidate (key_of r))) rs)))"

text \<open>\<open>seals[-retention:]\<close>, and the two commits of \<open>seal_run\<close>: the seal first, then the empty segment.\<close>

definition retain :: "nat \<Rightarrow> run_seal list \<Rightarrow> run_seal list" where
  "retain n seals = drop (length seals - n) seals"

definition make_seal :: "store_env \<Rightarrow> store \<Rightarrow> string \<Rightarrow> string \<Rightarrow> string \<Rightarrow> string \<Rightarrow> run_seal" where
  "make_seal env st restart_run_id old_topology_generation new_topology_generation decision_digest =
     \<lparr>rn_seal_sequence = rs_next_seal_sequence st, rn_restart_run_id = restart_run_id,
      rn_old_topology_generation_digest = digest (se_sha env) (JStr old_topology_generation),
      rn_new_topology_generation = new_topology_generation, rn_decision_digest = decision_digest,
      rn_record_root_digest = record_root env (dvals (rs_records st)), rn_record_count = int (length (rs_records st))\<rparr>"

definition seal_run ::
  "store_env \<Rightarrow> write_outcome \<Rightarrow> write_outcome \<Rightarrow> store \<Rightarrow> string \<Rightarrow> string \<Rightarrow> string \<Rightarrow> string \<Rightarrow> run_seal store_result" where
  "seal_run env w1 w2 st restart_run_id old_topology_generation new_topology_generation decision_digest =
     (if rs_fatal_error st \<noteq> None then (st, Inl ReplacementStoreUnavailable)
      else case seal_for_run (rs_seals st) restart_run_id of
        Some existing \<Rightarrow>
          if rn_old_topology_generation_digest existing \<noteq> digest (se_sha env) (JStr old_topology_generation) \<or>
             rn_new_topology_generation existing \<noteq> new_topology_generation \<or> rn_decision_digest existing \<noteq> decision_digest
          then (st, Inl (ReplacementConflict ''sealed replacement run reused with different evidence''))
          else (st, Inr existing)
      | None \<Rightarrow>
          (case validate_requested_run env st restart_run_id old_topology_generation (Some decision_digest) of
             Some e \<Rightarrow> (st, Inl e)
           | None \<Rightarrow>
               if rs_active_run st = None then (st, Inl (UnknownReplacementRun ''no active replacement segment''))
               else let s = make_seal env st restart_run_id old_topology_generation new_topology_generation decision_digest;
                        seals = retain (rs_seal_retention st) (rs_seals st @ [s])
                    in case commit_state env w1 st (rs_active_run st) (rs_records st) seals (rn_seal_sequence s + 1) of
                         (st1, Inl e) \<Rightarrow> (st1, Inl e)
                       | (st1, Inr _) \<Rightarrow>
                           (case commit_state env w2 st1 None [] seals (rn_seal_sequence s + 1) of
                              (st2, Inl e) \<Rightarrow> (st2, Inl e)
                            | (st2, Inr _) \<Rightarrow> (st2, Inr s))))"

subsection \<open>Opening the store\<close>

text \<open>\<open>str(v)\<close> and \<open>int(v)\<close>; a value \<open>int\<close> does not accept raises.\<close>

definition py_str :: "store_env \<Rightarrow> json \<Rightarrow> string" where
  "py_str env v = (case v of JStr s \<Rightarrow> s | _ \<Rightarrow> se_repr env v)"

definition py_int :: "store_env \<Rightarrow> json \<Rightarrow> int option" where
  "py_int env v =
     (case v of
        JInt n \<Rightarrow> Some n
      | JBool b \<Rightarrow> Some (if b then 1 else 0)
      | JFloat x \<Rightarrow> Some (if 0 \<le> x then \<lfloor>x\<rfloor> else \<lceil>x\<rceil>)
      | JStr s \<Rightarrow> se_int_of_str env s
      | _ \<Rightarrow> None)"

text \<open>Iterating a JSON value with \<open>for\<close>: lists, the keys of an object, the characters of a text.\<close>

definition py_iter :: "json \<Rightarrow> json list option" where
  "py_iter v =
     (case v of
        JArr xs \<Rightarrow> Some xs
      | JObj ds \<Rightarrow> Some (map (JStr \<circ> fst) ds)
      | JStr s \<Rightarrow> Some (map (\<lambda>c. JStr [c]) s)
      | _ \<Rightarrow> None)"

text \<open>\<open>isinstance(v, dict) and set(v) == keys\<close>.\<close>

definition obj_with_keys :: "string list \<Rightarrow> json \<Rightarrow> jobj option" where
  "obj_with_keys keys v = (case v of JObj ds \<Rightarrow> if set (dkeys ds) = set keys then Some ds else None | _ \<Rightarrow> None)"

definition record_fields :: "string list" where
  "record_fields = [''cleanup_id'', ''restart_run_id'', ''old_operation_digest'', ''operation_id'', ''lease_id'',
     ''old_resource_kinds'', ''decision_digest'']"

definition seal_fields :: "string list" where
  "seal_fields = [''seal_sequence'', ''restart_run_id'', ''old_topology_generation_digest'', ''new_topology_generation'',
     ''decision_digest'', ''record_root_digest'', ''record_count'']"

definition parse_record :: "store_env \<Rightarrow> json \<Rightarrow> release_record option" where
  "parse_record env v =
     (case obj_with_keys record_fields v of
        None \<Rightarrow> None
      | Some d \<Rightarrow>
          (case jget d ''old_resource_kinds'' of
             JArr kinds \<Rightarrow>
               if \<exists>k \<in> set kinds. \<not> is_JStr k then None
               else let r = \<lparr>rr_cleanup_id = py_str env (jget d ''cleanup_id''), rr_restart_run_id = py_str env (jget d ''restart_run_id''),
                      rr_old_operation_digest = py_str env (jget d ''old_operation_digest''),
                      rr_operation_id = py_str env (jget d ''operation_id''), rr_lease_id = py_str env (jget d ''lease_id''),
                      rr_old_resource_kinds = map the_str kinds, rr_decision_digest = py_str env (jget d ''decision_digest'')\<rparr>
                 in if rr_cleanup_id r = [] \<or> rr_restart_run_id r = [] \<or> rr_old_operation_digest r = [] \<or>
                       rr_operation_id r = [] \<or> rr_lease_id r = [] \<or> rr_decision_digest r = [] then None else Some r
           | _ \<Rightarrow> None))"

definition parse_seal :: "store_env \<Rightarrow> json \<Rightarrow> run_seal option" where
  "parse_seal env v =
     (case obj_with_keys seal_fields v of
        None \<Rightarrow> None
      | Some d \<Rightarrow>
          (case (py_int env (jget d ''seal_sequence''), py_int env (jget d ''record_count'')) of
             (Some n, Some c) \<Rightarrow>
               (let s = \<lparr>rn_seal_sequence = n, rn_restart_run_id = py_str env (jget d ''restart_run_id''),
                  rn_old_topology_generation_digest = py_str env (jget d ''old_topology_generation_digest''),
                  rn_new_topology_generation = py_str env (jget d ''new_topology_generation''),
                  rn_decision_digest = py_str env (jget d ''decision_digest''),
                  rn_record_root_digest = py_str env (jget d ''record_root_digest''), rn_record_count = c\<rparr>
                in if n \<le> 0 \<or> c < 0 \<or> rn_restart_run_id s = [] \<or> rn_old_topology_generation_digest s = [] \<or>
                      rn_new_topology_generation s = [] \<or> rn_decision_digest s = [] \<or> rn_record_root_digest s = []
                   then None else Some s)
           | _ \<Rightarrow> None))"

fun parse_seals :: "store_env \<Rightarrow> json list \<Rightarrow> run_seal list option" where
  "parse_seals env [] = Some []"
| "parse_seals env (v # vs) =
     (case parse_seal env v of None \<Rightarrow> None | Some s \<Rightarrow> map_option ((#) s) (parse_seals env vs))"

fun load_records ::
  "store_env \<Rightarrow> (record_key, release_record) dict \<Rightarrow> (string \<times> string) set \<Rightarrow> json list
     \<Rightarrow> load_error + (record_key, release_record) dict" where
  "load_records env records lease_keys [] = Inr records"
| "load_records env records lease_keys (v # vs) =
     (case parse_record env v of
        None \<Rightarrow> Inl InvalidRecord
      | Some r \<Rightarrow>
          if dhas records (key_of r) then Inl DuplicateRecordKey
          else if lease_key r \<in> lease_keys then Inl DuplicateLease
          else load_records env (dput records (key_of r) r) (insert (lease_key r) lease_keys) vs)"

definition parse_active :: "store_env \<Rightarrow> json \<Rightarrow> load_error + active_run option" where
  "parse_active env v =
     (if v = JNull then Inr None
      else case obj_with_keys [''restart_run_id'', ''old_topology_generation_digest'', ''decision_digest''] v of
        None \<Rightarrow> Inl InvalidActiveRun
      | Some d \<Rightarrow> Inr (Some \<lparr>ac_restart_run_id = py_str env (jget d ''restart_run_id''),
          ac_old_topology_generation_digest = py_str env (jget d ''old_topology_generation_digest''),
          ac_decision_digest = py_str env (jget d ''decision_digest'')\<rparr>))"

text \<open>The checks on the active segment and on the retained seals.\<close>

definition check_segment :: "int \<Rightarrow> active_run option \<Rightarrow> (record_key, release_record) dict \<Rightarrow> load_error option" where
  "check_segment max_records active records =
     (if int (length records) > max_records then Some RecordCapExceeded
      else if records \<noteq> [] \<and> active = None then Some OrphanRecords
      else case active of
        None \<Rightarrow> None
      | Some a \<Rightarrow>
          if \<exists>r \<in> set (dvals records). rr_restart_run_id r \<noteq> ac_restart_run_id a then Some MixedRuns
          else if ac_decision_digest a = [] \<or> (\<exists>r \<in> set (dvals records). rr_decision_digest r \<noteq> ac_decision_digest a)
          then Some MixedDecisions else None)"

definition check_seals :: "nat \<Rightarrow> run_seal list \<Rightarrow> int \<Rightarrow> load_error option" where
  "check_seals retention seals next_sequence =
     (if length seals > retention then Some SealRetentionExceeded
      else if \<exists>(l, r) \<in> set (zip seals (tl seals)). rn_seal_sequence l \<ge> rn_seal_sequence r then Some SealSequenceNotMonotonic
      else if \<not> distinct (map rn_restart_run_id seals) then Some DuplicateSeal
      else if next_sequence \<le> 0 \<or> (seals \<noteq> [] \<and> next_sequence \<le> rn_seal_sequence (last seals)) then Some InvalidNextSequence
      else None)"

definition load_payload ::
  "store_env \<Rightarrow> int \<Rightarrow> nat \<Rightarrow> json
     \<Rightarrow> load_error + active_run option \<times> (record_key, release_record) dict \<times> run_seal list \<times> int" where
  "load_payload env max_records retention payload =
     (case obj_with_keys [''active_run'', ''records'', ''seals'', ''next_seal_sequence''] payload of
        None \<Rightarrow> Inl InvalidPayload
      | Some d \<Rightarrow>
          (case parse_active env (jget d ''active_run'') of
             Inl e \<Rightarrow> Inl e
           | Inr active \<Rightarrow>
               (case py_iter (jget d ''records'') of
                  None \<Rightarrow> Inl InvalidRecord
                | Some vs \<Rightarrow>
                    (case load_records env [] {} vs of
                       Inl e \<Rightarrow> Inl e
                     | Inr records \<Rightarrow>
                         (case check_segment max_records active records of
                            Some e \<Rightarrow> Inl e
                          | None \<Rightarrow>
                              (case Option.bind (py_iter (jget d ''seals'')) (parse_seals env) of
                                 None \<Rightarrow> Inl InvalidSeal
                               | Some seals \<Rightarrow>
                                   (case py_int env (jget d ''next_seal_sequence'') of
                                      None \<Rightarrow> Inl (case check_seals retention seals 1 of
                                          Some SealRetentionExceeded \<Rightarrow> SealRetentionExceeded
                                        | Some SealSequenceNotMonotonic \<Rightarrow> SealSequenceNotMonotonic
                                        | Some DuplicateSeal \<Rightarrow> DuplicateSeal
                                        | _ \<Rightarrow> InvalidNextSequence)
                                    | Some n \<Rightarrow>
                                        (case check_seals retention seals n of
                                           Some e \<Rightarrow> Inl e
                                         | None \<Rightarrow> Inr (active, records, seals, n)))))))))"

definition load_store :: "store_env \<Rightarrow> store \<Rightarrow> load_error + store" where
  "load_store env st =
     (if rs_orphan st then Inl OrphanTempFile
      else case rs_file st of
        NoFile \<Rightarrow> Inr st
      | Garbage \<Rightarrow> Inl UnreadableFile
      | Contents raw \<Rightarrow>
          (case obj_with_keys [''format_version'', ''payload'', ''payload_digest''] raw of
             None \<Rightarrow> Inl InvalidEnvelope
           | Some d \<Rightarrow>
               if \<not> py_eq (jget d ''format_version'') (JInt 2) then Inl UnsupportedVersion
               else if \<not> py_eq (jget d ''payload_digest'') (JStr (digest (se_sha env) (jget d ''payload''))) then Inl DigestMismatch
               else case load_payload env (rs_max_records_per_run st) (rs_seal_retention st) (jget d ''payload'') of
                 Inl e \<Rightarrow> Inl e
               | Inr (active, records, seals, n) \<Rightarrow>
                   Inr (st\<lparr>rs_active_run := active, rs_records := records, rs_seals := seals, rs_next_seal_sequence := n\<rparr>)))"

definition finish_sealed_gc :: "store_env \<Rightarrow> write_outcome \<Rightarrow> store \<Rightarrow> (store, store_fault, unit) outcome" where
  "finish_sealed_gc env w st =
     (case rs_active_run st of
        None \<Rightarrow> (st, Inr ())
      | Some a \<Rightarrow>
          (case seal_for_run (rs_seals st) (ac_restart_run_id a) of
             None \<Rightarrow> (st, Inr ())
           | Some s \<Rightarrow>
               if rn_record_count s \<noteq> int (length (rs_records st)) \<or>
                  rn_record_root_digest s \<noteq> record_root env (dvals (rs_records st)) \<or>
                  rn_old_topology_generation_digest s \<noteq> ac_old_topology_generation_digest a \<or>
                  rn_decision_digest s \<noteq> ac_decision_digest a
               then (st, Inl (LoadFault SealedSegmentMismatch))
               else case commit_state env w st None [] (rs_seals st) (rs_next_seal_sequence st) of
                 (st1, Inl _) \<Rightarrow> (st1, Inl GcFault)
               | (st1, Inr _) \<Rightarrow> (st1, Inr ())))"

text \<open>The constructor on a directory with the given contents; every failure is remembered, none is raised.\<close>

definition open_store ::
  "store_env \<Rightarrow> bool \<Rightarrow> write_outcome \<Rightarrow> int \<Rightarrow> nat \<Rightarrow> file_content \<Rightarrow> bool \<Rightarrow> store_error + store" where
  "open_store env mkdir_ok w max_records_per_run seal_retention content orphan =
     (if max_records_per_run \<le> 0 \<or> seal_retention = 0 then Inl InvalidStoreConfig
      else let st = \<lparr>rs_max_records_per_run = max_records_per_run, rs_seal_retention = seal_retention, rs_fatal_error = None,
               rs_active_run = None, rs_records = [], rs_seals = [], rs_next_seal_sequence = 1, rs_file = content,
               rs_orphan = orphan\<rparr>
        in if \<not> mkdir_ok then Inr (st\<lparr>rs_fatal_error := Some MkdirFault\<rparr>)
           else case load_store env st of
             Inl e \<Rightarrow> Inr (st\<lparr>rs_fatal_error := Some (LoadFault e)\<rparr>)
           | Inr st1 \<Rightarrow>
               (case finish_sealed_gc env w st1 of
                  (st2, Inl f) \<Rightarrow> Inr (st2\<lparr>rs_fatal_error := Some f\<rparr>)
                | (st2, Inr _) \<Rightarrow> Inr st2))"

subsection \<open>Reading back what was written\<close>

declare split_paired_All [simp del] split_paired_Ex [simp del]

lemma distinct_map_insort: "distinct (map f (insort_key f x xs)) \<longleftrightarrow> f x \<notin> f ` set xs \<and> distinct (map f xs)"
  by (induction xs) (auto simp: set_insort_key)

lemma distinct_map_sort: "distinct (map f (sort_key f xs)) \<longleftrightarrow> distinct (map f xs)"
  by (induction xs) (auto simp: distinct_map_insort)

definition canon_obj :: "jobj \<Rightarrow> jobj" where
  "canon_obj d = sort_key fst (map (\<lambda>p. (fst p, canon (snd p))) d)"

lemma canon_obj: "canon (JObj d) = JObj (canon_obj d)"
  by (simp add: canon_obj_def)

lemma keys_canon_obj: "fst ` set (canon_obj d) = fst ` set d"
  by (simp add: canon_obj_def image_image)

lemma dget_canon_obj:
  assumes "wf_dict d"
  shows "dget (canon_obj d) k = map_option canon (dget d k)"
proof -
  have wf: "wf_dict (canon_obj d)" using assms by (simp add: canon_obj_def distinct_map_sort comp_def)
  show ?thesis
  proof (cases "dget d k")
    case None
    then have "dget (canon_obj d) k = None" by (simp add: map_of_eq_None_iff keys_canon_obj)
    with None show ?thesis by simp
  next
    case (Some v)
    then have "(k, v) \<in> set d" by (rule map_of_SomeD)
    then have "(k, canon v) \<in> set (canon_obj d)" by (force simp: canon_obj_def)
    with wf have "dget (canon_obj d) k = Some (canon v)" by simp
    with Some show ?thesis by simp
  qed
qed

lemma jget_canon_obj: "wf_dict d \<Longrightarrow> jget (canon_obj d) k = canon (jget d k)"
  by (simp add: jget_def dget_or_def dget_canon_obj split: option.split)

lemma obj_with_keys_canon:
  "set (dkeys d) = set keys \<Longrightarrow> obj_with_keys keys (canon (JObj d)) = Some (canon_obj d)"
  unfolding canon_obj obj_with_keys_def by (simp add: keys_canon_obj)

lemmas jget_simps = jget_def dget_or_def

subsection \<open>Contents the code can write\<close>

definition rec_ok :: "release_record \<Rightarrow> bool" where
  "rec_ok r \<longleftrightarrow> rr_cleanup_id r \<noteq> [] \<and> rr_restart_run_id r \<noteq> [] \<and> rr_old_operation_digest r \<noteq> [] \<and>
     rr_operation_id r \<noteq> [] \<and> rr_lease_id r \<noteq> [] \<and> rr_decision_digest r \<noteq> []"

definition seal_ok :: "run_seal \<Rightarrow> bool" where
  "seal_ok s \<longleftrightarrow> 0 < rn_seal_sequence s \<and> 0 \<le> rn_record_count s \<and> rn_restart_run_id s \<noteq> [] \<and>
     rn_old_topology_generation_digest s \<noteq> [] \<and> rn_new_topology_generation s \<noteq> [] \<and> rn_decision_digest s \<noteq> [] \<and>
     rn_record_root_digest s \<noteq> []"

lemma parse_record_value: "rec_ok r \<Longrightarrow> parse_record env (canon (record_value r)) = Some r"
proof -
  assume r: "rec_ok r"
  let ?d = "[(''cleanup_id'', JStr (rr_cleanup_id r)), (''restart_run_id'', JStr (rr_restart_run_id r)),
      (''old_operation_digest'', JStr (rr_old_operation_digest r)), (''operation_id'', JStr (rr_operation_id r)),
      (''lease_id'', JStr (rr_lease_id r)), (''old_resource_kinds'', JArr (map JStr (rr_old_resource_kinds r))),
      (''decision_digest'', JStr (rr_decision_digest r))]"
  have "obj_with_keys record_fields (canon (record_value r)) = Some (canon_obj ?d)"
    unfolding record_value_def by (rule obj_with_keys_canon) (auto simp: record_fields_def)
  moreover have "jget (canon_obj ?d) k = canon (jget ?d k)" for k by (rule jget_canon_obj) simp
  ultimately show ?thesis
    using r by (simp add: parse_record_def jget_simps py_str_def rec_ok_def Let_def comp_def)
qed

lemma parse_seal_value: "seal_ok s \<Longrightarrow> parse_seal env (canon (seal_value s)) = Some s"
proof -
  assume s: "seal_ok s"
  let ?d = "[(''seal_sequence'', JInt (rn_seal_sequence s)), (''restart_run_id'', JStr (rn_restart_run_id s)),
      (''old_topology_generation_digest'', JStr (rn_old_topology_generation_digest s)),
      (''new_topology_generation'', JStr (rn_new_topology_generation s)),
      (''decision_digest'', JStr (rn_decision_digest s)), (''record_root_digest'', JStr (rn_record_root_digest s)),
      (''record_count'', JInt (rn_record_count s))]"
  have "obj_with_keys seal_fields (canon (seal_value s)) = Some (canon_obj ?d)"
    unfolding seal_value_def by (rule obj_with_keys_canon) (auto simp: seal_fields_def)
  moreover have "jget (canon_obj ?d) k = canon (jget ?d k)" for k by (rule jget_canon_obj) simp
  ultimately show ?thesis
    using s by (simp add: parse_seal_def jget_simps py_str_def py_int_def seal_ok_def Let_def)
qed

lemma parse_seals_values: "\<forall>s \<in> set seals. seal_ok s \<Longrightarrow> parse_seals env (map (canon \<circ> seal_value) seals) = Some seals"
  by (induction seals) (simp_all add: parse_seal_value)

lemma parse_active_value:
  "parse_active env (canon (case a of None \<Rightarrow> JNull | Some x \<Rightarrow> active_value x)) = Inr a"
proof (cases a)
  case (Some x)
  let ?d = "[(''restart_run_id'', JStr (ac_restart_run_id x)),
      (''old_topology_generation_digest'', JStr (ac_old_topology_generation_digest x)),
      (''decision_digest'', JStr (ac_decision_digest x))]"
  have "obj_with_keys [''restart_run_id'', ''old_topology_generation_digest'', ''decision_digest''] (canon (active_value x)) =
      Some (canon_obj ?d)"
    unfolding active_value_def by (rule obj_with_keys_canon) auto
  moreover have "jget (canon_obj ?d) k = canon (jget ?d k)" for k by (rule jget_canon_obj) simp
  moreover have "canon (active_value x) \<noteq> JNull" by (simp add: active_value_def)
  ultimately show ?thesis using Some by (simp add: parse_active_def jget_simps py_str_def)
qed (simp add: parse_active_def)

definition records_ok :: "(record_key, release_record) dict \<Rightarrow> bool" where
  "records_ok records \<longleftrightarrow>
     wf_dict records \<and> (\<forall>p \<in> set records. fst p = key_of (snd p) \<and> rec_ok (snd p)) \<and>
     (\<forall>r \<in> set (dvals records). \<forall>r' \<in> set (dvals records). lease_key r = lease_key r' \<longrightarrow> r = r')"

definition contents_ok ::
  "int \<Rightarrow> nat \<Rightarrow> active_run option \<Rightarrow> (record_key, release_record) dict \<Rightarrow> run_seal list \<Rightarrow> int \<Rightarrow> bool" where
  "contents_ok max_records retention active records seals n \<longleftrightarrow>
     records_ok records \<and> check_segment max_records active records = None \<and>
     (\<forall>s \<in> set seals. seal_ok s) \<and> check_seals retention seals n = None"

text \<open>The records in the order of the file.\<close>

definition reordered :: "(record_key, release_record) dict \<Rightarrow> (record_key, release_record) dict" where
  "reordered records = map (\<lambda>r. (key_of r, r)) (sort_key key_of (dvals records))"

lemma keys_of_records: "records_ok records \<Longrightarrow> map key_of (dvals records) = dkeys records"
  by (simp add: records_ok_def)

lemma set_reordered: "records_ok records \<Longrightarrow> set (reordered records) = set records"
proof -
  assume "records_ok records"
  then have "\<forall>p \<in> set records. p = (key_of (snd p), snd p)" by (auto simp: records_ok_def prod_eq_iff)
  then show ?thesis by (force simp: reordered_def)
qed

lemma wf_reordered: "records_ok records \<Longrightarrow> wf_dict (reordered records)"
proof -
  assume ok: "records_ok records"
  have "dkeys (reordered records) = map key_of (sort_key key_of (dvals records))" by (simp add: reordered_def)
  then have "wf_dict (reordered records) \<longleftrightarrow> distinct (map key_of (dvals records))" by (simp only: distinct_map_sort)
  then show ?thesis using ok unfolding keys_of_records [OF ok] records_ok_def by blast
qed

lemma dget_reordered: "records_ok records \<Longrightarrow> dget (reordered records) k = dget records k"
proof -
  assume ok: "records_ok records"
  then have "wf_dict records" by (simp add: records_ok_def)
  from map_of_inject_set [OF wf_reordered [OF ok] this] set_reordered [OF ok] show ?thesis by simp
qed

lemma length_reordered [simp]: "length (reordered records) = length records"
  by (simp add: reordered_def)

lemma sort_reordered: "sort_key key_of (dvals (reordered records)) = sort_key key_of (dvals records)"
  by (simp add: reordered_def comp_def sort_key_sorted_id)

lemma records_ok_reordered: "records_ok records \<Longrightarrow> records_ok (reordered records)"
proof -
  assume ok: "records_ok records"
  note s = set_reordered [OF ok]
  have v: "set (dvals (reordered records)) = set (dvals records)" using s by simp
  show ?thesis using ok wf_reordered [OF ok] unfolding records_ok_def s v by blast
qed

lemma reordered_eq_Nil [simp]: "reordered records = [] \<longleftrightarrow> records = []"
  using length_reordered [of records] by (metis length_0_conv)

lemma check_segment_reordered: "records_ok records \<Longrightarrow> check_segment m a (reordered records) = check_segment m a records"
proof -
  assume "records_ok records"
  from set_reordered [OF this] have v: "set (dvals (reordered records)) = set (dvals records)" by simp
  show ?thesis unfolding check_segment_def v length_reordered reordered_eq_Nil ..
qed

lemma dput_new: "k \<notin> fst ` set d \<Longrightarrow> dput d k v = d @ [(k, v)]"
  by (induction d) auto

lemma dvals_new: "dget d k = None \<Longrightarrow> set (dvals (dput d k v)) = insert v (set (dvals d))"
  by (simp add: dput_new map_of_eq_None_iff)

lemma load_records_values:
  assumes "distinct (map key_of rs)" "distinct (map lease_key rs)" "\<forall>r \<in> set rs. rec_ok r"
    "\<forall>r \<in> set rs. key_of r \<notin> set (dkeys d) \<and> lease_key r \<notin> L"
  shows "load_records env d L (map (canon \<circ> record_value) rs) = Inr (d @ map (\<lambda>r. (key_of r, r)) rs)"
  using assms
proof (induction rs arbitrary: d L)
  case (Cons r rs)
  have d: "dput d (key_of r) r = d @ [(key_of r, r)]" using Cons.prems(4) by (intro dput_new) simp
  have "\<forall>r' \<in> set rs. key_of r' \<notin> set (dkeys (d @ [(key_of r, r)])) \<and> lease_key r' \<notin> insert (lease_key r) L"
    using Cons.prems by (auto simp: image_iff)
  from Cons.IH [OF _ _ _ this] Cons.prems show ?case by (simp add: parse_record_value d map_of_eq_None_iff comp_def)
qed simp

lemma distinct_leases:
  assumes "records_ok records"
  shows "distinct (map lease_key (sort_key key_of (dvals records)))"
proof -
  have k: "distinct (map key_of (dvals records))" unfolding keys_of_records [OF assms] using assms by (simp add: records_ok_def)
  then have "distinct (dvals records)" unfolding distinct_map [of key_of] by blast
  moreover have "inj_on lease_key (set (dvals records))" using assms unfolding records_ok_def inj_on_def by blast
  ultimately show ?thesis by (simp add: distinct_map)
qed

text \<open>What a commit writes is what the next start reads, with the records in key order.\<close>

lemma load_payload_value:
  assumes "contents_ok m ret a records seals n"
  shows "load_payload env m ret (canon (payload_value a records seals n)) = Inr (a, reordered records, seals, n)"
proof -
  let ?act = "case a of None \<Rightarrow> JNull | Some x \<Rightarrow> active_value x"
  let ?rs = "sort_key key_of (dvals records)"
  let ?d = "[(''active_run'', ?act), (''records'', JArr (map record_value ?rs)), (''seals'', JArr (map seal_value seals)),
      (''next_seal_sequence'', JInt n)]"
  have ok: "records_ok records" "check_segment m a records = None" "\<forall>s \<in> set seals. seal_ok s" "check_seals ret seals n = None"
    using assms by (simp_all add: contents_ok_def)
  have keys: "obj_with_keys [''active_run'', ''records'', ''seals'', ''next_seal_sequence''] (canon (payload_value a records seals n)) =
      Some (canon_obj ?d)"
    unfolding payload_value_def by (rule obj_with_keys_canon) auto
  have get: "jget (canon_obj ?d) k = canon (jget ?d k)" for k by (rule jget_canon_obj) simp
  have "distinct (map key_of ?rs)" using wf_reordered [OF ok(1)] by (simp add: reordered_def comp_def)
  moreover have "\<forall>r \<in> set ?rs. rec_ok r" using ok(1) by (auto simp: records_ok_def)
  ultimately have recs: "load_records env [] {} (map (canon \<circ> record_value) ?rs) = Inr (reordered records)"
    using load_records_values [of ?rs "[]" "{}" env] distinct_leases [OF ok(1)] by (simp add: reordered_def)
  have fields: "jget ?d ''active_run'' = ?act" "jget ?d ''records'' = JArr (map record_value ?rs)"
    "jget ?d ''seals'' = JArr (map seal_value seals)" "jget ?d ''next_seal_sequence'' = JInt n" by (simp_all add: jget_simps)
  show ?thesis
    unfolding load_payload_def keys option.case get fields parse_active_value sum.case
    using recs parse_seals_values [OF ok(3)] check_segment_reordered [OF ok(1)] ok(2,4)
    by (simp add: py_iter_def py_int_def)
qed

lemma load_written:
  assumes "contents_ok (rs_max_records_per_run st) (rs_seal_retention st) a records seals n" "\<not> rs_orphan st"
    "rs_file st = Contents (canon (envelope_value env (payload_value a records seals n)))"
  shows "load_store env st =
    Inr (st\<lparr>rs_active_run := a, rs_records := reordered records, rs_seals := seals, rs_next_seal_sequence := n\<rparr>)"
proof -
  let ?p = "payload_value a records seals n"
  let ?d = "[(''format_version'', JInt 2), (''payload'', ?p), (''payload_digest'', JStr (digest (se_sha env) ?p))]"
  have keys: "obj_with_keys [''format_version'', ''payload'', ''payload_digest''] (canon (envelope_value env ?p)) = Some (canon_obj ?d)"
    unfolding envelope_value_def by (rule obj_with_keys_canon) auto
  have get: "jget (canon_obj ?d) k = canon (jget ?d k)" for k by (rule jget_canon_obj) simp
  have fields: "jget ?d ''format_version'' = JInt 2" "jget ?d ''payload'' = ?p"
    "jget ?d ''payload_digest'' = JStr (digest (se_sha env) ?p)" by (simp_all add: jget_simps)
  show ?thesis
    unfolding load_store_def assms(3) file_content.case keys option.case get fields
    using assms(2) load_payload_value [OF assms(1), of env] by simp
qed

subsection \<open>The invariant of the store\<close>

lemma zip_tl_sorted: "\<not> (\<exists>(l, r) \<in> set (zip xs (tl xs)). f l \<ge> (f r :: int)) \<longleftrightarrow> sorted_wrt (\<lambda>a b. f a < f b) xs"
proof (induction xs)
  case (Cons x xs)
  show ?case
  proof (cases xs)
    case (Cons y ys)
    with Cons.IH show ?thesis by (auto simp: not_le dest: less_trans)
  qed simp
qed simp

lemma check_seals_None:
  "check_seals ret seals n = None \<longleftrightarrow>
     length seals \<le> ret \<and> sorted_wrt (\<lambda>a b. rn_seal_sequence a < rn_seal_sequence b) seals \<and>
     distinct (map rn_restart_run_id seals) \<and> 0 < n \<and> (\<forall>s \<in> set seals. rn_seal_sequence s < n)"
proof -
  have "(\<forall>s \<in> set seals. rn_seal_sequence s < n) \<longleftrightarrow> seals = [] \<or> rn_seal_sequence (last seals) < n"
    if "sorted_wrt (\<lambda>a b. rn_seal_sequence a < rn_seal_sequence b) seals"
  proof (cases seals rule: rev_cases)
    case (snoc xs x)
    with that show ?thesis by (force simp: sorted_wrt_append)
  qed simp
  then show ?thesis unfolding check_seals_def zip_tl_sorted [symmetric] by (auto simp: not_less not_le)
qed

lemma check_segment_None:
  "check_segment m a records = None \<longleftrightarrow>
     int (length records) \<le> m \<and>
     (case a of None \<Rightarrow> records = []
      | Some x \<Rightarrow> ac_decision_digest x \<noteq> [] \<and> (\<forall>r \<in> set (dvals records).
          rr_restart_run_id r = ac_restart_run_id x \<and> rr_decision_digest r = ac_decision_digest x))"
  by (auto simp: check_segment_def split: option.splits)

definition unsealed :: "active_run option \<Rightarrow> run_seal list \<Rightarrow> bool" where
  "unsealed a seals \<longleftrightarrow> (case a of None \<Rightarrow> True | Some x \<Rightarrow> seal_for_run seals (ac_restart_run_id x) = None)"

definition written :: "store_env \<Rightarrow> active_run option \<Rightarrow> (record_key, release_record) dict \<Rightarrow> run_seal list \<Rightarrow> int \<Rightarrow> file_content" where
  "written env a records seals n = Contents (canon (envelope_value env (payload_value a records seals n)))"

definition same_core :: "store \<Rightarrow> store \<Rightarrow> bool" where
  "same_core st st' \<longleftrightarrow> rs_active_run st' = rs_active_run st \<and> (\<forall>k. dget (rs_records st') k = dget (rs_records st) k) \<and>
     rs_seals st' = rs_seals st \<and> rs_next_seal_sequence st' = rs_next_seal_sequence st"

definition fresh_store :: "store \<Rightarrow> store" where
  "fresh_store st = st\<lparr>rs_fatal_error := None, rs_active_run := None, rs_records := [], rs_seals := [], rs_next_seal_sequence := 1\<rparr>"

text \<open>The file and the memory agree when a load of the file gives the contents in memory.\<close>

definition synced :: "store_env \<Rightarrow> store \<Rightarrow> bool" where
  "synced env st \<longleftrightarrow> \<not> rs_orphan st \<and> (\<exists>l. load_store env (fresh_store st) = Inr l \<and> same_core st l)"

abbreviation core_ok :: "store \<Rightarrow> bool" where
  "core_ok st \<equiv> contents_ok (rs_max_records_per_run st) (rs_seal_retention st) (rs_active_run st) (rs_records st)
     (rs_seals st) (rs_next_seal_sequence st)"

definition store_inv :: "store_env \<Rightarrow> store \<Rightarrow> bool" where
  "store_inv env st \<longleftrightarrow>
     0 < rs_max_records_per_run st \<and> 0 < rs_seal_retention st \<and> core_ok st \<and>
     (rs_fatal_error st = None \<longrightarrow> unsealed (rs_active_run st) (rs_seals st) \<and> synced env st)"

lemma written_reordered: "written env a (reordered records) seals n = written env a records seals n"
  by (simp add: written_def payload_value_def sort_reordered del: canon.simps)

lemma contents_ok_reordered: "contents_ok m ret a records seals n \<Longrightarrow> contents_ok m ret a (reordered records) seals n"
  by (simp add: contents_ok_def records_ok_reordered check_segment_reordered)

lemma record_root_reordered: "record_root env (dvals (reordered records)) = record_root env (dvals records)"
  by (simp add: record_root_def sort_reordered del: canon.simps)

lemma contents_ok_empty: "contents_ok m ret a records seals n \<Longrightarrow> contents_ok m ret None [] seals n"
  by (auto simp: contents_ok_def records_ok_def check_segment_None)

lemma commit_ok:
  "commit_state env WriteOk st a records seals n =
    (st\<lparr>rs_file := written env a records seals n, rs_active_run := a, rs_records := records, rs_seals := seals,
      rs_next_seal_sequence := n\<rparr>, Inr ())"
  by (simp add: commit_state_def atomic_write_def written_def Let_def)

lemma commit_fails:
  assumes "w \<noteq> WriteOk"
  shows "commit_state env w st a records seals n =
    (st\<lparr>rs_file := if w = SyncFailed then written env a records seals n else rs_file st,
        rs_orphan := rs_orphan st \<or> w = TempLeft, rs_fatal_error := Some WriteFault\<rparr>, Inl ReplacementStoreUnavailable)"
  using assms by (cases w) (simp_all add: commit_state_def atomic_write_def written_def Let_def)

subsection \<open>Recovery\<close>

definition recover :: "store_env \<Rightarrow> store \<Rightarrow> store_error + store" where
  "recover env st =
     open_store env True WriteOk (rs_max_records_per_run st) (rs_seal_retention st) (rs_file st) (rs_orphan st)"

definition caps_ok :: "store \<Rightarrow> bool" where
  "caps_ok st \<longleftrightarrow> 0 < rs_max_records_per_run st \<and> 0 < rs_seal_retention st"

lemma recover_eq:
  assumes "caps_ok st"
  shows "recover env st = (case load_store env (fresh_store st) of
      Inl e \<Rightarrow> Inr ((fresh_store st)\<lparr>rs_fatal_error := Some (LoadFault e)\<rparr>)
    | Inr st1 \<Rightarrow> (case finish_sealed_gc env WriteOk st1 of
        (st2, Inl f) \<Rightarrow> Inr (st2\<lparr>rs_fatal_error := Some f\<rparr>) | (st2, Inr _) \<Rightarrow> Inr st2))"
proof -
  have "\<lparr>rs_max_records_per_run = rs_max_records_per_run st, rs_seal_retention = rs_seal_retention st, rs_fatal_error = None,
      rs_active_run = None, rs_records = [], rs_seals = [], rs_next_seal_sequence = 1, rs_file = rs_file st,
      rs_orphan = rs_orphan st\<rparr> = fresh_store st"
    by (cases st) (simp add: fresh_store_def)
  with assms show ?thesis by (simp add: recover_def open_store_def Let_def caps_ok_def not_le)
qed

lemma recover_orphan: "caps_ok st \<Longrightarrow> rs_orphan st \<Longrightarrow> \<exists>st'. recover env st = Inr st' \<and> rs_fatal_error st' \<noteq> None"
  by (simp add: recover_eq load_store_def fresh_store_def)

lemma finish_gc_idle: "unsealed (rs_active_run st) (rs_seals st) \<Longrightarrow> finish_sealed_gc env w st = (st, Inr ())"
  by (cases "rs_active_run st") (simp_all add: finish_sealed_gc_def unsealed_def)

lemma recover_written:
  assumes "caps_ok st" "\<not> rs_orphan st" "rs_file st = written env a records seals n"
    "contents_ok (rs_max_records_per_run st) (rs_seal_retention st) a records seals n" "unsealed a seals"
  shows "recover env st = Inr (st\<lparr>rs_fatal_error := None, rs_active_run := a, rs_records := reordered records, rs_seals := seals,
    rs_next_seal_sequence := n\<rparr>)"
proof -
  have "load_store env (fresh_store st) = Inr ((fresh_store st)\<lparr>rs_active_run := a, rs_records := reordered records,
      rs_seals := seals, rs_next_seal_sequence := n\<rparr>)"
    using assms by (intro load_written) (simp_all add: fresh_store_def written_def)
  with assms(1,5) show ?thesis
    by (simp add: recover_eq finish_gc_idle) (simp add: fresh_store_def)
qed

text \<open>A segment that was sealed but not emptied yet is emptied by the next start.\<close>

lemma recover_sealed:
  assumes "caps_ok st" "\<not> rs_orphan st" "rs_file st = written env (Some a) records seals n"
    "contents_ok (rs_max_records_per_run st) (rs_seal_retention st) (Some a) records seals n"
    "seal_for_run seals (ac_restart_run_id a) = Some s" "rn_record_count s = int (length records)"
    "rn_record_root_digest s = record_root env (dvals records)"
    "rn_old_topology_generation_digest s = ac_old_topology_generation_digest a" "rn_decision_digest s = ac_decision_digest a"
  shows "recover env st = Inr (st\<lparr>rs_file := written env None [] seals n, rs_fatal_error := None, rs_active_run := None,
    rs_records := [], rs_seals := seals, rs_next_seal_sequence := n\<rparr>)"
proof -
  let ?st = "(fresh_store st)\<lparr>rs_active_run := Some a, rs_records := reordered records, rs_seals := seals, rs_next_seal_sequence := n\<rparr>"
  have l: "load_store env (fresh_store st) = Inr ?st"
    using assms by (intro load_written) (simp_all add: fresh_store_def written_def)
  have "finish_sealed_gc env WriteOk ?st =
      (?st\<lparr>rs_file := written env None [] seals n, rs_active_run := None, rs_records := [], rs_seals := seals,
        rs_next_seal_sequence := n\<rparr>, Inr ())"
    using assms(5-9) by (simp add: finish_sealed_gc_def record_root_reordered commit_ok)
  with l assms(1) show ?thesis by (simp add: recover_eq fresh_store_def)
qed

lemma recover_nofile:
  "caps_ok st \<Longrightarrow> \<not> rs_orphan st \<Longrightarrow> rs_file st = NoFile \<Longrightarrow> recover env st = Inr (fresh_store st)"
proof -
  assume "caps_ok st" "\<not> rs_orphan st" "rs_file st = NoFile"
  moreover from this have "load_store env (fresh_store st) = Inr (fresh_store st)"
    by (simp add: load_store_def fresh_store_def)
  moreover have "finish_sealed_gc env WriteOk (fresh_store st) = (fresh_store st, Inr ())"
    by (rule finish_gc_idle) (simp add: unsealed_def fresh_store_def)
  ultimately show ?thesis by (simp add: recover_eq)
qed

lemma same_core_reordered:
  "records_ok (rs_records st) \<Longrightarrow> rs_active_run st' = rs_active_run st \<Longrightarrow> rs_records st' = reordered (rs_records st) \<Longrightarrow>
     rs_seals st' = rs_seals st \<Longrightarrow> rs_next_seal_sequence st' = rs_next_seal_sequence st \<Longrightarrow> same_core st st'"
  by (simp add: same_core_def dget_reordered)

lemma same_core_refl [simp]: "same_core st st"
  by (simp add: same_core_def)

lemma store_invD:
  assumes "store_inv env st"
  shows "caps_ok st" "core_ok st" "records_ok (rs_records st)"
    "rs_fatal_error st = None \<Longrightarrow> unsealed (rs_active_run st) (rs_seals st)" "rs_fatal_error st = None \<Longrightarrow> synced env st"
  using assms by (simp_all add: store_inv_def caps_ok_def contents_ok_def)

lemma load_frame:
  "load_store env st = Inr l \<Longrightarrow> rs_max_records_per_run l = rs_max_records_per_run st \<and> rs_seal_retention l = rs_seal_retention st \<and>
     rs_fatal_error l = rs_fatal_error st \<and> rs_file l = rs_file st \<and> rs_orphan l = rs_orphan st"
  unfolding load_store_def by (auto split: if_splits file_content.splits option.splits sum.splits)

lemma recover_synced:
  assumes "store_inv env st" "rs_fatal_error st = None"
  shows "\<exists>st'. recover env st = Inr st' \<and> rs_fatal_error st' = None \<and> same_core st st'"
proof -
  note i = store_invD [OF assms(1)]
  from i(5) [OF assms(2)] obtain l where l: "load_store env (fresh_store st) = Inr l" "same_core st l" by (auto simp: synced_def)
  have "unsealed (rs_active_run l) (rs_seals l)" using i(4) [OF assms(2)] l(2) by (simp add: same_core_def)
  with l i(1) load_frame [OF l(1)] show ?thesis by (simp add: recover_eq finish_gc_idle) (simp add: fresh_store_def)
qed

lemma written_synced:
  assumes "contents_ok (rs_max_records_per_run st) (rs_seal_retention st) (rs_active_run st) (rs_records st) (rs_seals st)
      (rs_next_seal_sequence st)" "\<not> rs_orphan st"
    "rs_file st = written env (rs_active_run st) (rs_records st) (rs_seals st) (rs_next_seal_sequence st)"
  shows "synced env st"
proof -
  have "load_store env (fresh_store st) = Inr ((fresh_store st)\<lparr>rs_active_run := rs_active_run st,
      rs_records := reordered (rs_records st), rs_seals := rs_seals st, rs_next_seal_sequence := rs_next_seal_sequence st\<rparr>)"
    using assms by (intro load_written) (simp_all add: fresh_store_def written_def)
  moreover have "records_ok (rs_records st)" using assms(1) by (simp add: contents_ok_def)
  ultimately show ?thesis using assms(2) by (simp add: synced_def same_core_def dget_reordered)
qed

subsection \<open>The operations keep the invariant\<close>

lemma record_at:
  assumes "records_ok records"
  shows "r \<in> set (dvals records) \<longleftrightarrow> dget records (key_of r) = Some r"
proof
  assume "r \<in> set (dvals records)"
  then obtain p where "p \<in> set records" "snd p = r" by auto
  moreover with assms have "p = (key_of r, r)" by (simp add: records_ok_def prod_eq_iff)
  ultimately show "dget records (key_of r) = Some r" using assms by (simp add: records_ok_def)
next
  assume "dget records (key_of r) = Some r"
  from map_of_SomeD [OF this] show "r \<in> set (dvals records)" by force
qed

lemma records_ok_put:
  assumes "records_ok records" "dget records (key_of r) = None" "rec_ok r" "\<forall>r' \<in> set (dvals records). lease_key r' \<noteq> lease_key r"
  shows "records_ok (dput records (key_of r) r)"
proof -
  have d: "dput records (key_of r) r = records @ [(key_of r, r)]" using assms(2) by (intro dput_new) (simp add: map_of_eq_None_iff)
  have "wf_dict (dput records (key_of r) r)" using assms(1) by (simp add: records_ok_def)
  with assms(1,3,4) show ?thesis unfolding records_ok_def d by auto
qed

lemma contents_ok_records:
  assumes "contents_ok m ret a0 records0 seals n" "records_ok records" "int (length records) \<le> m" "ac_decision_digest x \<noteq> []"
    "\<forall>r \<in> set (dvals records). rr_restart_run_id r = ac_restart_run_id x \<and> rr_decision_digest r = ac_decision_digest x"
  shows "contents_ok m ret (Some x) records seals n"
  using assms by (simp add: contents_ok_def check_segment_None)

text \<open>An operation that writes at most once, whatever the outcome of the write.\<close>

definition writes_once :: "store_env \<Rightarrow> store \<Rightarrow> (write_outcome \<Rightarrow> store) \<Rightarrow> bool" where
  "writes_once env st f \<longleftrightarrow> (\<forall>w. f w = st) \<or>
     (\<exists>a records seals n. contents_ok (rs_max_records_per_run st) (rs_seal_retention st) a records seals n \<and> unsealed a seals \<and>
        (\<forall>w. f w = fst (commit_state env w st a records seals n)))"

lemma writes_onceI:
  assumes "contents_ok (rs_max_records_per_run st) (rs_seal_retention st) a records seals n" "unsealed a seals"
    "\<And>w. f w = fst (commit_state env w st a records seals n)"
  shows "writes_once env st f"
  using assms unfolding writes_once_def by blast

lemma requested_run_matches:
  assumes "validate_requested_run env st run old (Some d) = None"
  shows "run \<noteq> []" "old \<noteq> []"
    "rs_active_run st = Some a \<Longrightarrow> ac_restart_run_id a = run \<and> ac_old_topology_generation_digest a = digest (se_sha env) (JStr old) \<and>
       ac_decision_digest a = d"
  using assms by (auto simp: validate_requested_run_def split: option.splits if_splits)

lemma persist_record_once:
  assumes "store_inv env st" "rec_ok r"
  shows "writes_once env st (\<lambda>w. fst (persist_record env w st r old))"
proof (cases "rs_fatal_error st = None \<and> store_lookup env st r old = Inr None \<and>
    int (length (rs_records st)) < rs_max_records_per_run st \<and> \<not> lease_taken (rs_records st) r")
  case False
  then have "fst (persist_record env w st r old) = st" for w
    by (auto simp: persist_record_def store_lookup_def split: sum.splits option.splits if_splits)
  then show ?thesis by (simp add: writes_once_def)
next
  case True
  let ?recs = "dput (rs_records st) (key_of r) r"
  let ?a = "case rs_active_run st of Some a \<Rightarrow> a | None \<Rightarrow> \<lparr>ac_restart_run_id = rr_restart_run_id r,
      ac_old_topology_generation_digest = digest (se_sha env) (JStr old), ac_decision_digest = rr_decision_digest r\<rparr>"
  have new: "dget (rs_records st) (key_of r) = None" and seal: "seal_for_run (rs_seals st) (rr_restart_run_id r) = None"
    and req: "validate_requested_run env st (rr_restart_run_id r) old (Some (rr_decision_digest r)) = None"
    using True by (auto simp: store_lookup_def split: option.splits if_splits)
  note i = store_invD [OF assms(1)]
  have a: "ac_restart_run_id ?a = rr_restart_run_id r" "ac_decision_digest ?a = rr_decision_digest r"
    using requested_run_matches(3) [OF req] by (auto split: option.split)
  have seg: "check_segment (rs_max_records_per_run st) (rs_active_run st) (rs_records st) = None"
    using i(2) by (simp add: contents_ok_def)
  have old: "\<forall>r' \<in> set (dvals (rs_records st)). rr_restart_run_id r' = rr_restart_run_id r \<and> rr_decision_digest r' = rr_decision_digest r"
    using seg a by (auto simp: check_segment_None split: option.splits)
  have "\<forall>r' \<in> set (dvals (rs_records st)). lease_key r' \<noteq> lease_key r"
  proof
    fix r'
    assume r': "r' \<in> set (dvals (rs_records st))"
    then have "dget (rs_records st) (key_of r') = Some r'" by (simp only: record_at [OF i(3)])
    with new have "key_of r' \<noteq> key_of r" by auto
    with r' True show "lease_key r' \<noteq> lease_key r" by (auto simp: lease_taken_def lease_key_def)
  qed
  from records_ok_put [OF i(3) new assms(2) this] have "records_ok ?recs" .
  moreover have "set (dvals ?recs) = insert r (set (dvals (rs_records st)))" by (rule dvals_new [OF new])
  ultimately have "contents_ok (rs_max_records_per_run st) (rs_seal_retention st) (Some ?a) ?recs (rs_seals st) (rs_next_seal_sequence st)"
    using True old a assms(2) new
    by (intro contents_ok_records [OF i(2)]) (auto simp: length_dput rec_ok_def)
  moreover have "unsealed (Some ?a) (rs_seals st)" using seal by (simp only: unsealed_def option.case a)
  ultimately show ?thesis
    by (rule writes_onceI) (use True in \<open>simp add: persist_record_def Let_def split: prod.split sum.split\<close>)
qed

text \<open>The lease map of a batch names the key of every record, and the batch loop keeps that.\<close>

lemma lease_map_at:
  assumes "inj_on lease_key (set rs)" "r \<in> set rs"
  shows "dget (foldl (\<lambda>d r. dput d (lease_key r) (key_of r)) d0 rs) (lease_key r) = Some (key_of r)"
  using assms
proof (induction rs rule: rev_induct)
  case (snoc x rs)
  show ?case
  proof (cases "r = x")
    case False
    with snoc.prems have "r \<in> set rs" "lease_key r \<noteq> lease_key x" by (auto simp: inj_on_def)
    with snoc show ?thesis by (simp add: dict_simps inj_on_def)
  qed (simp add: dict_simps)
qed simp

lemma add_batch_ok:
  assumes "records_ok cand" "\<forall>r \<in> set (dvals cand). dget leases (lease_key r) = Some (key_of r)" "\<forall>r \<in> set rs. rec_ok r"
    "add_batch cand leases ch rs = Inr (cand', ch')"
  shows "records_ok cand' \<and> set (dvals cand') \<subseteq> set (dvals cand) \<union> set rs \<and> (\<forall>r \<in> set rs. dget cand' (key_of r) = Some r) \<and>
    (\<forall>k r. dget cand k = Some r \<longrightarrow> dget cand' k = Some r) \<and> (ch' \<or> \<not> ch \<and> cand' = cand)"
  using assms
proof (induction rs arbitrary: cand leases ch)
  case (Cons r rs)
  show ?case
  proof (cases "dget cand (key_of r)")
    case (Some e)
    with Cons.prems(4) have e: "e = r" "add_batch cand leases ch rs = Inr (cand', ch')" by (auto split: if_splits)
    from Cons.IH [OF Cons.prems(1,2) _ e(2)] Cons.prems(3) Some e(1) show ?thesis by auto
  next
    case None
    let ?c = "dput cand (key_of r) r" and ?l = "dput leases (lease_key r) (key_of r)"
    from Cons.prems(4) None have step: "add_batch ?c ?l True rs = Inr (cand', ch')"
      and free: "\<And>k. dget leases (lease_key r) = Some k \<Longrightarrow> k = key_of r" by (auto split: if_splits option.splits)
    have other: "\<forall>r' \<in> set (dvals cand). lease_key r' \<noteq> lease_key r"
    proof
      fix r'
      assume r': "r' \<in> set (dvals cand)"
      then have "dget cand (key_of r') = Some r'" by (simp only: record_at [OF Cons.prems(1)])
      with None have "key_of r' \<noteq> key_of r" by auto
      moreover from Cons.prems(2) r' have "dget leases (lease_key r') = Some (key_of r')" by blast
      ultimately show "lease_key r' \<noteq> lease_key r" using free [of "key_of r'"] by metis
    qed
    have c: "records_ok ?c" using Cons.prems(3) by (intro records_ok_put [OF Cons.prems(1) None _ other]) simp
    have v: "set (dvals ?c) = insert r (set (dvals cand))" by (rule dvals_new [OF None])
    have "\<forall>r' \<in> set (dvals ?c). dget ?l (lease_key r') = Some (key_of r')"
      unfolding v using Cons.prems(2) other by (auto simp: dict_simps)
    from Cons.IH [OF c this _ step] Cons.prems(3) have ih: "records_ok cand'" "set (dvals cand') \<subseteq> set (dvals ?c) \<union> set rs"
      "\<forall>r \<in> set rs. dget cand' (key_of r) = Some r" "\<forall>k r. dget ?c k = Some r \<longrightarrow> dget cand' k = Some r" "ch'" by auto
    have "dget cand' k = Some x" if "dget cand k = Some x" for k x
    proof -
      have "dget ?c k = Some x" using that None by (auto simp: dict_simps)
      with ih(4) show ?thesis by blast
    qed
    moreover have "dget ?c (key_of r) = Some r" by (simp add: dict_simps)
    ultimately show ?thesis using ih v by auto
  qed
qed simp

lemma persist_records_once:
  assumes "store_inv env st" "\<forall>r \<in> set rs. rec_ok r"
  shows "writes_once env st (\<lambda>w. fst (persist_records env w st rs run old d))"
proof -
  let ?d = "requested_decision rs d" and ?m = "rs_max_records_per_run st"
  let ?batch = "add_batch (rs_records st) (lease_map (rs_records st)) False rs"
  let ?a = "\<lparr>ac_restart_run_id = run, ac_old_topology_generation_digest = digest (se_sha env) (JStr old), ac_decision_digest = ?d\<rparr>"
  note i = store_invD [OF assms(1)]
  show ?thesis
  proof (cases "rs_fatal_error st = None \<and> seal_for_run (rs_seals st) run = None \<and> ?d \<noteq> [] \<and>
      (\<forall>r \<in> set rs. rr_decision_digest r = ?d \<and> rr_restart_run_id r = run) \<and>
      validate_requested_run env st run old (Some ?d) = None \<and>
      (\<exists>cand ch. ?batch = Inr (cand, ch) \<and> int (length cand) \<le> ?m \<and> (ch \<or> rs_active_run st = None))")
    case True
    then obtain cand ch where b: "?batch = Inr (cand, ch)" "int (length cand) \<le> ?m" "ch \<or> rs_active_run st = None" by blast
    have inj: "inj_on lease_key (set (dvals (rs_records st)))" using i(3) unfolding records_ok_def inj_on_def by blast
    have "\<forall>r \<in> set (dvals (rs_records st)). dget (lease_map (rs_records st)) (lease_key r) = Some (key_of r)"
      unfolding lease_map_def using lease_map_at [OF inj] by blast
    note c = add_batch_ok [OF i(3) this assms(2) b(1)]
    have seg: "check_segment ?m (rs_active_run st) (rs_records st) = None" using i(2) by (simp add: contents_ok_def)
    have req: "validate_requested_run env st run old (Some ?d) = None" using True by blast
    have "\<forall>r \<in> set (dvals (rs_records st)). rr_restart_run_id r = run \<and> rr_decision_digest r = ?d"
      using seg requested_run_matches(3) [OF req] by (auto simp: check_segment_None split: option.splits)
    then have "\<forall>r \<in> set (dvals cand). rr_restart_run_id r = run \<and> rr_decision_digest r = ?d" using c True by blast
    then have "contents_ok ?m (rs_seal_retention st) (Some ?a) cand (rs_seals st) (rs_next_seal_sequence st)"
      using c b(2) True by (intro contents_ok_records [OF i(2)]) auto
    moreover have "unsealed (Some ?a) (rs_seals st)" using True by (simp add: unsealed_def)
    ultimately show ?thesis
      by (rule writes_onceI) (use True b in \<open>auto simp: persist_records_def Let_def split: prod.split sum.split\<close>)
  next
    case False
    then have "fst (persist_records env w st rs run old d) = st" for w
      by (auto simp: persist_records_def Let_def not_less split: sum.splits option.splits)
    then show ?thesis by (simp add: writes_once_def)
  qed
qed

lemma seal_for_run_None: "seal_for_run seals run = None \<longleftrightarrow> run \<notin> rn_restart_run_id ` set seals"
  by (auto simp: seal_for_run_def find_None_iff)

lemma find_last: "\<forall>x \<in> set xs. \<not> P x \<Longrightarrow> P y \<Longrightarrow> find P (xs @ [y]) = Some y"
  by (induction xs) simp_all

lemma retain_snoc: "0 < n \<Longrightarrow> retain n (seals @ [s]) = drop (Suc (length seals) - n) seals @ [s]"
  by (simp add: retain_def)

lemma contents_ok_seal:
  assumes "contents_ok m ret a records seals n" "0 < ret" "rn_seal_sequence s = n" "seal_ok s"
    "seal_for_run seals (rn_restart_run_id s) = None"
  shows "contents_ok m ret a records (retain ret (seals @ [s])) (n + 1)"
proof -
  have c: "check_seals ret seals n = None" "\<forall>s \<in> set seals. seal_ok s" using assms(1) by (simp_all add: contents_ok_def)
  have sorted: "sorted_wrt (\<lambda>a b. rn_seal_sequence a < rn_seal_sequence b) (seals @ [s])"
    and dis: "distinct (map rn_restart_run_id (seals @ [s]))" and le: "\<forall>t \<in> set (seals @ [s]). rn_seal_sequence t < n + 1" and n: "0 < n"
    using c(1) assms(3,5) by (auto simp: check_seals_None sorted_wrt_append seal_for_run_None)
  have sub: "set (retain ret (seals @ [s])) \<subseteq> set (seals @ [s])" unfolding retain_def by (rule set_drop_subset)
  have "sorted_wrt (\<lambda>a b. rn_seal_sequence a < rn_seal_sequence b) (retain ret (seals @ [s]))"
    unfolding retain_def using sorted by (rule sorted_wrt_drop)
  moreover have "distinct (map rn_restart_run_id (retain ret (seals @ [s])))"
    unfolding retain_def drop_map [symmetric] using dis by (rule distinct_drop)
  moreover have "length (retain ret (seals @ [s])) \<le> ret" by (simp add: retain_def)
  moreover have "\<forall>t \<in> set (retain ret (seals @ [s])). rn_seal_sequence t < n + 1" using le sub by blast
  ultimately have "check_seals ret (retain ret (seals @ [s])) (n + 1) = None"
    using n unfolding check_seals_None by simp
  moreover have "\<forall>t \<in> set (retain ret (seals @ [s])). seal_ok t" using sub c(2) assms(4) by auto
  ultimately show ?thesis using assms(1) by (simp add: contents_ok_def)
qed

lemma seal_for_run_retained:
  assumes "0 < n" "seal_for_run seals (rn_restart_run_id s) = None"
  shows "seal_for_run (retain n (seals @ [s])) (rn_restart_run_id s) = Some s"
proof -
  let ?xs = "drop (Suc (length seals) - n) seals"
  have "\<forall>x \<in> set ?xs. rn_restart_run_id x \<noteq> rn_restart_run_id s"
    using assms(2) unfolding seal_for_run_None by (metis image_eqI in_set_dropD)
  then show ?thesis unfolding retain_snoc [OF assms(1)] seal_for_run_def by (intro find_last) simp_all
qed

lemma make_seal_ok:
  assumes "store_inv env st" "rs_active_run st = Some a" "validate_requested_run env st run old (Some d) = None" "new \<noteq> []"
  shows "seal_ok (make_seal env st run old new d)"
proof -
  have "ac_decision_digest a \<noteq> []" using store_invD(2) [OF assms(1)] assms(2) by (simp add: contents_ok_def check_segment_None)
  with requested_run_matches(1,3) [OF assms(3)] assms(2) have "run \<noteq> []" "d \<noteq> []" by auto
  moreover have "0 < rs_next_seal_sequence st" using store_invD(2) [OF assms(1)] by (simp add: contents_ok_def check_seals_None)
  ultimately show ?thesis using assms(4) by (simp add: seal_ok_def make_seal_def record_root_def)
qed

subsection \<open>Crashes\<close>

text \<open>
  What a restart finds after an operation that was meant to lead from \<open>st\<close> to \<open>new\<close> and left the
  directory of \<open>st'\<close>: an orphaned temporary file, which closes the store, or the contents before or
  after the operation.
\<close>

definition survives :: "store_env \<Rightarrow> store \<Rightarrow> store \<Rightarrow> store \<Rightarrow> bool" where
  "survives env st new st' \<longleftrightarrow> rs_orphan st' \<or>
     (\<exists>r. recover env st' = Inr r \<and> rs_fatal_error r = None \<and> (same_core st r \<or> same_core new r))"

lemma survivesI: "recover env st' = Inr r \<Longrightarrow> rs_fatal_error r = None \<Longrightarrow> same_core st r \<or> same_core new r \<Longrightarrow> survives env st new st'"
  unfolding survives_def by blast

lemma survives_same: "store_inv env st \<Longrightarrow> rs_fatal_error st = None \<Longrightarrow> survives env st new st"
  using recover_synced unfolding survives_def by blast

lemma recover_disk:
  "rs_max_records_per_run st' = rs_max_records_per_run st \<Longrightarrow> rs_seal_retention st' = rs_seal_retention st \<Longrightarrow>
     rs_file st' = rs_file st \<Longrightarrow> rs_orphan st' = rs_orphan st \<Longrightarrow> recover env st' = recover env st"
  by (simp add: recover_def)

lemma commit_crash:
  assumes "store_inv env st" "rs_fatal_error st = None" "unsealed a seals"
    "contents_ok (rs_max_records_per_run st) (rs_seal_retention st) a records seals n"
  shows "store_inv env (fst (commit_state env w st a records seals n))"
    "survives env st (fst (commit_state env WriteOk st a records seals n)) (fst (commit_state env w st a records seals n))"
proof -
  note i = store_invD [OF assms(1)]
  have orphan: "\<not> rs_orphan st" using i(5) [OF assms(2)] by (simp add: synced_def)
  note ok = commit_ok [of env st a records seals n]
  have ok_inv: "store_inv env (fst (commit_state env WriteOk st a records seals n))"
    using assms orphan by (simp add: ok store_inv_def) (intro written_synced, simp_all)
  show "store_inv env (fst (commit_state env w st a records seals n))"
    using ok_inv assms(1) by (cases "w = WriteOk") (simp_all add: commit_fails store_inv_def)
  let ?new = "fst (commit_state env WriteOk st a records seals n)" and ?st' = "fst (commit_state env w st a records seals n)"
  from recover_synced [OF assms(1,2)] obtain r0 where r0: "recover env st = Inr r0" "rs_fatal_error r0 = None" "same_core st r0" by blast
  show "survives env st ?new ?st'"
  proof (cases w)
    case WriteOk
    from recover_synced [OF ok_inv] assms(2) show ?thesis unfolding WriteOk survives_def by (simp add: ok) blast
  next
    case OpenFailed
    have "recover env ?st' = recover env st" by (rule recover_disk) (simp_all add: OpenFailed commit_fails)
    with r0 show ?thesis by (intro survivesI [of env ?st' r0]) simp_all
  next
    case TempLeft
    then show ?thesis by (simp add: survives_def commit_fails)
  next
    case SyncFailed
    have c: "caps_ok ?st'" "\<not> rs_orphan ?st'" "rs_file ?st' = written env a records seals n"
      "contents_ok (rs_max_records_per_run ?st') (rs_seal_retention ?st') a records seals n"
      using i(1) orphan assms(4) by (simp_all add: SyncFailed commit_fails caps_ok_def)
    show ?thesis
      by (rule survivesI [OF recover_written [OF c assms(3)]])
        (use assms(4) in \<open>simp_all add: ok same_core_def dget_reordered contents_ok_def\<close>)
  qed
qed

lemma writes_once_crash:
  assumes "writes_once env st f" "store_inv env st" "rs_fatal_error st = None"
  shows "store_inv env (f w)" "survives env st (f WriteOk) (f w)"
  using assms(1) commit_crash [OF assms(2,3)] survives_same [OF assms(2,3)] assms(2) unfolding writes_once_def by metis+

text \<open>The two commits of a seal, and the starts after each of them.\<close>

definition sealing :: "store_env \<Rightarrow> store \<Rightarrow> active_run \<Rightarrow> run_seal \<Rightarrow> run_seal list \<Rightarrow> int \<Rightarrow> bool" where
  "sealing env st a s seals n \<longleftrightarrow>
     contents_ok (rs_max_records_per_run st) (rs_seal_retention st) (Some a) (rs_records st) seals n \<and>
     seal_for_run seals (ac_restart_run_id a) = Some s \<and> rn_record_count s = int (length (rs_records st)) \<and>
     rn_record_root_digest s = record_root env (dvals (rs_records st)) \<and>
     rn_old_topology_generation_digest s = ac_old_topology_generation_digest a \<and> rn_decision_digest s = ac_decision_digest a \<and>
     n = rs_next_seal_sequence st + 1"

definition seal_commits :: "store_env \<Rightarrow> store \<Rightarrow> active_run \<Rightarrow> run_seal list \<Rightarrow> int \<Rightarrow> write_outcome \<Rightarrow> write_outcome \<Rightarrow> store" where
  "seal_commits env st a seals n w1 w2 =
     (if w1 = WriteOk
      then fst (commit_state env w2 (fst (commit_state env WriteOk st (Some a) (rs_records st) seals n)) None [] seals n)
      else fst (commit_state env w1 st (Some a) (rs_records st) seals n))"

lemma seal_run_commits:
  assumes "store_inv env st" "new \<noteq> []"
  shows "(\<forall>w1 w2. fst (seal_run env w1 w2 st run old new d) = st) \<or>
    (\<exists>a s seals n. rs_fatal_error st = None \<and> rs_active_run st = Some a \<and> sealing env st a s seals n \<and> rn_restart_run_id s = run \<and>
      (\<forall>w1 w2. fst (seal_run env w1 w2 st run old new d) = seal_commits env st a seals n w1 w2))"
proof (cases "rs_fatal_error st = None \<and> seal_for_run (rs_seals st) run = None \<and>
    validate_requested_run env st run old (Some d) = None \<and> rs_active_run st \<noteq> None")
  case True
  then obtain a where a: "rs_active_run st = Some a" by blast
  let ?s = "make_seal env st run old new d"
  let ?seals = "retain (rs_seal_retention st) (rs_seals st @ [?s])" and ?n = "rs_next_seal_sequence st + 1"
  have req: "validate_requested_run env st run old (Some d) = None" using True by blast
  note m = requested_run_matches(3) [OF req a]
  have s: "rn_seal_sequence ?s = rs_next_seal_sequence st" "rn_restart_run_id ?s = run" by (simp_all add: make_seal_def)
  note i = store_invD [OF assms(1)]
  have ret: "0 < rs_seal_retention st" using i(1) by (simp add: caps_ok_def)
  have none: "seal_for_run (rs_seals st) (rn_restart_run_id ?s) = None" using True s(2) by simp
  have c: "contents_ok (rs_max_records_per_run st) (rs_seal_retention st) (Some a) (rs_records st) ?seals ?n"
    by (rule contents_ok_seal [OF _ ret s(1) make_seal_ok [OF assms(1) a req assms(2)] none]) (use i(2) a in simp)
  have f: "seal_for_run ?seals (ac_restart_run_id a) = Some ?s" using seal_for_run_retained [OF ret none] s(2) m by simp
  have "sealing env st a ?s ?seals ?n" using c f m by (simp add: sealing_def) (simp add: make_seal_def)
  moreover have "fst (seal_run env w1 w2 st run old new d) = seal_commits env st a ?seals ?n w1 w2" for w1 w2
    using True a s(1) by (auto simp: seal_run_def seal_commits_def commit_fails commit_ok Let_def split: prod.split sum.split)
  ultimately show ?thesis using True a s(2) by blast
next
  case False
  then show ?thesis by (intro disjI1) (auto simp: seal_run_def split: option.splits)
qed

lemma seal_commits_inv:
  assumes "store_inv env st" "rs_fatal_error st = None" "sealing env st a s seals n"
  shows "store_inv env (seal_commits env st a seals n w1 w2)"
proof -
  have ok: "contents_ok (rs_max_records_per_run st) (rs_seal_retention st) (Some a) (rs_records st) seals n"
    using assms(3) unfolding sealing_def by blast
  have orphan: "\<not> rs_orphan st" using store_invD(5) [OF assms(1,2)] by (simp add: synced_def)
  show ?thesis
    using assms(1) ok contents_ok_empty [OF ok] orphan unfolding seal_commits_def
    by (cases "w1 = WriteOk"; cases "w2 = WriteOk")
      (auto simp: commit_fails commit_ok store_inv_def unsealed_def intro!: written_synced)
qed

lemma seal_commits_survive:
  assumes "store_inv env st" "rs_fatal_error st = None" "sealing env st a s seals n"
  shows "survives env st (seal_commits env st a seals n WriteOk WriteOk) (seal_commits env st a seals n w1 w2)"
    (is "survives env st ?new ?st'")
proof -
  note i = store_invD [OF assms(1)]
  have ok: "contents_ok (rs_max_records_per_run st) (rs_seal_retention st) (Some a) (rs_records st) seals n"
    using assms(3) unfolding sealing_def by blast
  have orphan: "\<not> rs_orphan st" using i(5) [OF assms(2)] by (simp add: synced_def)
  have caps: "caps_ok ?st'" "rs_max_records_per_run ?st' = rs_max_records_per_run st" "rs_seal_retention ?st' = rs_seal_retention st"
    using i(1) by (cases w1; cases w2; simp add: seal_commits_def commit_fails commit_ok caps_ok_def)+
  have new: "rs_active_run ?new = None" "rs_records ?new = []" "rs_seals ?new = seals" "rs_next_seal_sequence ?new = n"
    by (simp_all add: seal_commits_def commit_ok)
  have "rs_orphan ?st' \<or> rs_file ?st' \<in> {rs_file st, written env (Some a) (rs_records st) seals n, written env None [] seals n}"
    by (cases w1; cases w2) (simp_all add: seal_commits_def commit_fails commit_ok)
  then consider (orphan) "rs_orphan ?st'" | (old) "rs_file ?st' = rs_file st" "\<not> rs_orphan ?st'"
    | (sealed) "rs_file ?st' = written env (Some a) (rs_records st) seals n" "\<not> rs_orphan ?st'"
    | (emptied) "rs_file ?st' = written env None [] seals n" "\<not> rs_orphan ?st'"
    by blast
  then show ?thesis
  proof cases
    case orphan
    then show ?thesis by (simp add: survives_def)
  next
    case old
    have "recover env ?st' = recover env st" by (rule recover_disk) (use old caps orphan in auto)
    with survives_same [OF assms(1,2), of ?new] old show ?thesis by (simp add: survives_def orphan)
  next
    case sealed
    have "recover env ?st' = Inr (?st'\<lparr>rs_file := written env None [] seals n, rs_fatal_error := None, rs_active_run := None,
        rs_records := [], rs_seals := seals, rs_next_seal_sequence := n\<rparr>)"
      by (rule recover_sealed [OF caps(1) sealed(2,1), of s]) (use ok assms(3) caps in \<open>simp_all add: sealing_def\<close>)
    then show ?thesis by (rule survivesI) (simp_all add: new same_core_def)
  next
    case emptied
    have "contents_ok (rs_max_records_per_run ?st') (rs_seal_retention ?st') None [] seals n"
      using contents_ok_empty [OF ok] caps by simp
    from recover_written [OF caps(1) emptied(2,1) this] show ?thesis
      by (rule survivesI) (simp_all add: new same_core_def unsealed_def reordered_def)
  qed
qed

lemma seal_run_crash:
  assumes "store_inv env st" "rs_fatal_error st = None" "new \<noteq> []"
  shows "store_inv env (fst (seal_run env w1 w2 st run old new d))"
    "survives env st (fst (seal_run env WriteOk WriteOk st run old new d)) (fst (seal_run env w1 w2 st run old new d))"
  using seal_run_commits [OF assms(1,3), of run old d] seal_commits_inv [OF assms(1,2)] seal_commits_survive [OF assms(1,2)]
    survives_same [OF assms(1,2)] assms(1) by metis+

subsection \<open>Whatever the file contains\<close>

lemma parse_record_ok: "parse_record env v = Some r \<Longrightarrow> rec_ok r"
  by (auto simp: parse_record_def rec_ok_def Let_def split: option.splits json.splits if_splits)

lemma parse_seal_ok: "parse_seal env v = Some s \<Longrightarrow> seal_ok s"
  by (auto simp: parse_seal_def seal_ok_def Let_def split: option.splits if_splits)

lemma parse_seals_ok: "parse_seals env vs = Some seals \<Longrightarrow> \<forall>s \<in> set seals. seal_ok s"
  by (induction vs arbitrary: seals) (auto split: option.splits dest: parse_seal_ok)

lemma load_records_ok:
  "load_records env d (lease_key ` set (dvals d)) vs = Inr records \<Longrightarrow> records_ok d \<Longrightarrow> records_ok records"
proof (induction vs arbitrary: d)
  case (Cons v vs)
  then obtain r where r: "parse_record env v = Some r" "dget d (key_of r) = None" "lease_key r \<notin> lease_key ` set (dvals d)"
    "load_records env (dput d (key_of r) r) (insert (lease_key r) (lease_key ` set (dvals d))) vs = Inr records"
    by (auto split: option.splits if_splits)
  have "records_ok (dput d (key_of r) r)"
    by (rule records_ok_put [OF Cons.prems(2) r(2) parse_record_ok [OF r(1)]]) (metis image_eqI r(3))
  moreover have "insert (lease_key r) (lease_key ` set (dvals d)) = lease_key ` set (dvals (dput d (key_of r) r))"
    unfolding dvals_new [OF r(2)] by simp
  ultimately show ?case using Cons.IH [of "dput d (key_of r) r"] r(4) by simp
qed simp

lemma load_payload_ok:
  assumes "load_payload env m ret p = Inr (a, records, seals, n)"
  shows "contents_ok m ret a records seals n"
proof -
  from assms obtain d vs where "load_records env [] {} vs = Inr records" "check_segment m a records = None"
    "Option.bind (py_iter (jget d ''seals'')) (parse_seals env) = Some seals" "check_seals ret seals n = None"
    unfolding load_payload_def by (auto split: option.splits sum.splits)
  moreover from this have "records_ok records"
    using load_records_ok [of env "[]" vs records] by (simp add: records_ok_def)
  ultimately show ?thesis by (auto simp: contents_ok_def bind_eq_Some_conv dest: parse_seals_ok)
qed

lemma load_store_cases:
  "load_store env st = Inr l \<Longrightarrow> l = st \<or> (\<exists>p a records seals n.
     load_payload env (rs_max_records_per_run st) (rs_seal_retention st) p = Inr (a, records, seals, n) \<and>
     l = st\<lparr>rs_active_run := a, rs_records := records, rs_seals := seals, rs_next_seal_sequence := n\<rparr>)"
  unfolding load_store_def by (fastforce split: if_splits file_content.splits option.splits sum.splits)

lemma load_store_ok:
  assumes "caps_ok st" "load_store env (fresh_store st) = Inr l"
  shows "core_ok l"
  using load_store_cases [OF assms(2)]
proof (elim disjE exE conjE)
  assume "l = fresh_store st"
  with assms(1) show ?thesis
    by (simp add: fresh_store_def contents_ok_def records_ok_def check_segment_None check_seals_None caps_ok_def)
next
  fix p a records seals n
  assume p: "load_payload env (rs_max_records_per_run (fresh_store st)) (rs_seal_retention (fresh_store st)) p = Inr (a, records, seals, n)"
    and l: "l = (fresh_store st)\<lparr>rs_active_run := a, rs_records := records, rs_seals := seals, rs_next_seal_sequence := n\<rparr>"
  show ?thesis using load_payload_ok [OF p] unfolding l by simp
qed

lemma fresh_load: "load_store env (fresh_store st) = Inr l \<Longrightarrow> fresh_store l = fresh_store st"
  using load_store_cases [of env "fresh_store st" l] by (auto simp: fresh_store_def)

lemma open_store_inv:
  assumes "open_store env mk w m ret content orphan = Inr st"
  shows "store_inv env st"
proof -
  let ?f = "\<lparr>rs_max_records_per_run = m, rs_seal_retention = ret, rs_fatal_error = None, rs_active_run = None, rs_records = [],
      rs_seals = [], rs_next_seal_sequence = 1, rs_file = content, rs_orphan = orphan\<rparr>"
  have caps: "caps_ok ?f" using assms by (auto simp: open_store_def caps_ok_def split: if_splits)
  have f: "fresh_store ?f = ?f" by (simp add: fresh_store_def)
  have f_inv: "store_inv env (?f\<lparr>rs_fatal_error := Some x\<rparr>)" for x
    using caps by (simp add: store_inv_def contents_ok_def records_ok_def check_segment_None check_seals_None caps_ok_def)
  show ?thesis
  proof (cases "mk \<and> (\<exists>l. load_store env ?f = Inr l)")
    case False
    then show ?thesis
      using assms f_inv by (auto simp: open_store_def Let_def split: if_splits sum.splits)
  next
    case True
    then obtain l where l: "load_store env ?f = Inr l" by blast
    have core: "core_ok l" using load_store_ok [OF caps, unfolded f, OF l] .
    have fr: "rs_max_records_per_run l = m" "rs_seal_retention l = ret" "rs_fatal_error l = None" "rs_orphan l = orphan"
      using load_frame [OF l] by simp_all
    have st: "case finish_sealed_gc env w l of (st2, Inl e) \<Rightarrow> st = st2\<lparr>rs_fatal_error := Some e\<rparr> | (st2, Inr _) \<Rightarrow> st = st2"
      using assms True l by (auto simp: open_store_def Let_def split: if_splits sum.splits prod.splits)
    show ?thesis
    proof (cases "unsealed (rs_active_run l) (rs_seals l)")
      case True
      have "\<not> orphan" using l by (auto simp: load_store_def split: if_splits)
      moreover have "fresh_store l = ?f" using fresh_load [of env ?f l] l f by simp
      ultimately have "synced env l" using l fr by (simp add: synced_def same_core_def)
      with True st core caps fr show ?thesis by (simp add: finish_gc_idle store_inv_def caps_ok_def)
    next
      case False
      then obtain a s where a: "rs_active_run l = Some a" "seal_for_run (rs_seals l) (ac_restart_run_id a) = Some s"
        by (auto simp: unsealed_def split: option.splits)
      have "\<not> orphan" using l by (auto simp: load_store_def split: if_splits)
      with a st core caps fr contents_ok_empty [OF core] show ?thesis
        by (cases "w = WriteOk") (auto simp: finish_sealed_gc_def commit_ok commit_fails store_inv_def caps_ok_def unsealed_def
            split: if_splits intro!: written_synced)
    qed
  qed
qed

end
