(* ===== verification/Store_Durability.thy ===== *)
theory Store_Durability
  imports Replacement_Store
begin

text \<open>
  What the replacement store of \<open>Replacement_Store\<close> promises over whole lifetimes: runs of its operations in
  which any write may fail and the process may restart at any point.  Every fact about its contents that
  the operations keep holds of the memory of a running store and of its file (\<open>durable_fact\<close>).
\<close>

subsection \<open>Runs with failing writes and restarts\<close>

datatype store_op =
    StPersist release_record string write_outcome
  | StPersistAll "release_record list" string string "string option" write_outcome
  | StSeal string string string string write_outcome write_outcome
  | StRestart bool write_outcome

definition restart :: "store_env \<Rightarrow> bool \<Rightarrow> write_outcome \<Rightarrow> store \<Rightarrow> store" where
  "restart env mkdir_ok w st =
     (case open_store env mkdir_ok w (rs_max_records_per_run st) (rs_seal_retention st) (rs_file st) (rs_orphan st) of
        Inl _ \<Rightarrow> st | Inr st' \<Rightarrow> st')"

fun store_exec :: "store_env \<Rightarrow> store \<Rightarrow> store_op \<Rightarrow> store" where
  "store_exec env st (StPersist r old w) = fst (persist_record env w st r old)"
| "store_exec env st (StPersistAll rs run old d w) = fst (persist_records env w st rs run old d)"
| "store_exec env st (StSeal run old new d w1 w2) = fst (seal_run env w1 w2 st run old new d)"
| "store_exec env st (StRestart mkdir_ok w) = restart env mkdir_ok w st"

text \<open>The fields the callers fill: every string of a record and the new generation of a seal are non-empty.\<close>

fun store_admissible :: "store \<Rightarrow> store_op \<Rightarrow> bool" where
  "store_admissible st (StPersist r old w) \<longleftrightarrow> rec_ok r"
| "store_admissible st (StPersistAll rs run old d w) \<longleftrightarrow> (\<forall>r \<in> set rs. rec_ok r)"
| "store_admissible st (StSeal run old new d w1 w2) \<longleftrightarrow> new \<noteq> []"
| "store_admissible st (StRestart mkdir_ok w) \<longleftrightarrow> True"

definition gc_ready :: "store_env \<Rightarrow> active_run option \<Rightarrow> (record_key, release_record) dict \<Rightarrow> run_seal list \<Rightarrow> bool" where
  "gc_ready env a records seals \<longleftrightarrow>
     (case a of None \<Rightarrow> True
      | Some x \<Rightarrow> (case seal_for_run seals (ac_restart_run_id x) of None \<Rightarrow> True
          | Some s \<Rightarrow> rn_record_count s = int (length records) \<and> rn_record_root_digest s = record_root env (dvals records) \<and>
              rn_old_topology_generation_digest s = ac_old_topology_generation_digest x \<and> rn_decision_digest s = ac_decision_digest x))"

text \<open>A restart: refused by the directory, or the loaded contents with a sealed segment collected.\<close>

definition collected :: "store_env \<Rightarrow> write_outcome \<Rightarrow> store \<Rightarrow> store" where
  "collected env w l =
     (case finish_sealed_gc env w l of (st2, Inl f) \<Rightarrow> st2\<lparr>rs_fatal_error := Some f\<rparr> | (st2, Inr _) \<Rightarrow> st2)"

lemma start_eq:
  "\<lparr>rs_max_records_per_run = rs_max_records_per_run st, rs_seal_retention = rs_seal_retention st, rs_fatal_error = None,
     rs_active_run = None, rs_records = [], rs_seals = [], rs_next_seal_sequence = 1, rs_file = rs_file st,
     rs_orphan = rs_orphan st\<rparr> = fresh_store st"
  by (simp add: fresh_store_def)

lemma restart_refused:
  "caps_ok st \<Longrightarrow> \<not> (mk \<and> \<not> rs_orphan st) \<Longrightarrow> \<exists>e. restart env mk w st = (fresh_store st)\<lparr>rs_fatal_error := Some e\<rparr>"
proof -
  assume "caps_ok st" "\<not> (mk \<and> \<not> rs_orphan st)"
  then have "restart env mk w st = (fresh_store st)\<lparr>rs_fatal_error := Some (if mk then LoadFault OrphanTempFile else MkdirFault)\<rparr>"
    by (cases st) (auto simp: restart_def open_store_def caps_ok_def load_store_def Let_def fresh_store_def)
  then show ?thesis by blast
qed

lemma restart_loaded:
  "caps_ok st \<Longrightarrow> load_store env (fresh_store st) = Inr l \<Longrightarrow> restart env True w st = collected env w l"
  by (simp add: restart_def open_store_def caps_ok_def Let_def start_eq collected_def split: prod.split sum.split)

lemma restart_inv: "store_inv env st \<Longrightarrow> store_inv env (restart env mk w st)"
  using open_store_inv [of env mk w "rs_max_records_per_run st" "rs_seal_retention st" "rs_file st" "rs_orphan st"]
  by (simp add: restart_def split: sum.split)

lemma fatal_stays:
  assumes "rs_fatal_error st \<noteq> None"
  shows "fst (persist_record env w st r old) = st" "fst (persist_records env w st rs run old d) = st"
    "fst (seal_run env w1 w2 st run old new dd) = st"
  using assms by (simp_all add: persist_record_def store_lookup_def persist_records_def seal_run_def Let_def)

text \<open>
  A fact about the contents of the store that persisting, sealing and the collection of a sealed segment
  keep holds of the memory of a running store and of the file on disk through every run, whatever
  writes fail and whenever the process restarts.
\<close>

locale durable_fact =
  fixes env :: store_env
    and Q :: "active_run option \<Rightarrow> (record_key, release_record) dict \<Rightarrow> run_seal list \<Rightarrow> int \<Rightarrow> bool"
  assumes ext: "(\<And>k. dget records' k = dget records k) \<Longrightarrow> Q active records seals n \<Longrightarrow> Q active records' seals n"
    and collect_sealed: "seal_for_run seals (ac_restart_run_id a) = Some s \<Longrightarrow> Q (Some a) records seals n \<Longrightarrow> Q None [] seals n"
    and persist_one: "store_inv env st \<Longrightarrow> rs_fatal_error st = None \<Longrightarrow> rec_ok r \<Longrightarrow>
      Q (rs_active_run st) (rs_records st) (rs_seals st) (rs_next_seal_sequence st) \<Longrightarrow>
      st' = fst (persist_record env WriteOk st r old) \<Longrightarrow>
      Q (rs_active_run st') (rs_records st') (rs_seals st') (rs_next_seal_sequence st')"
    and persist_batch: "store_inv env st \<Longrightarrow> rs_fatal_error st = None \<Longrightarrow> \<forall>r \<in> set rs. rec_ok r \<Longrightarrow>
      Q (rs_active_run st) (rs_records st) (rs_seals st) (rs_next_seal_sequence st) \<Longrightarrow>
      st' = fst (persist_records env WriteOk st rs run old d) \<Longrightarrow>
      Q (rs_active_run st') (rs_records st') (rs_seals st') (rs_next_seal_sequence st')"
    and seal_added: "store_inv env st \<Longrightarrow> rs_fatal_error st = None \<Longrightarrow> rs_active_run st = Some a \<Longrightarrow> sealing env st a s seals n \<Longrightarrow>
      Q (rs_active_run st) (rs_records st) (rs_seals st) (rs_next_seal_sequence st) \<Longrightarrow> Q (Some a) (rs_records st) seals n"
begin

definition mem :: "store \<Rightarrow> bool" where
  "mem st \<longleftrightarrow> Q (rs_active_run st) (rs_records st) (rs_seals st) (rs_next_seal_sequence st)"

definition disk :: "store \<Rightarrow> bool" where
  "disk st \<longleftrightarrow> rs_orphan st \<or> (\<exists>l. load_store env (fresh_store st) = Inr l \<and> gc_ready env (rs_active_run l) (rs_records l) (rs_seals l) \<and> mem l)"

definition durable :: "store \<Rightarrow> bool" where
  "durable st \<longleftrightarrow> store_inv env st \<and> (rs_fatal_error st = None \<longrightarrow> mem st) \<and> disk st"

lemma disk_written:
  assumes "contents_ok (rs_max_records_per_run st) (rs_seal_retention st) a records seals n" "gc_ready env a records seals"
    "Q a records seals n" "rs_file st = written env a records seals n"
  shows "disk st"
proof (cases "rs_orphan st")
  case False
  have ok: "records_ok records" using assms(1) by (simp add: contents_ok_def)
  have "load_store env (fresh_store st) = Inr ((fresh_store st)\<lparr>rs_active_run := a, rs_records := reordered records,
      rs_seals := seals, rs_next_seal_sequence := n\<rparr>)"
    using assms(1,4) False by (intro load_written) (simp_all add: fresh_store_def written_def)
  moreover have "Q a (reordered records) seals n" by (rule ext [OF _ assms(3)]) (rule dget_reordered [OF ok])
  moreover have "gc_ready env a (reordered records) seals"
    using assms(2) by (simp add: gc_ready_def record_root_reordered cong: option.case_cong)
  ultimately show ?thesis by (simp add: disk_def mem_def)
qed (simp add: disk_def)

lemma disk_same:
  assumes "disk st" "rs_file st' = rs_file st" "rs_orphan st \<longrightarrow> rs_orphan st'"
    "rs_max_records_per_run st' = rs_max_records_per_run st" "rs_seal_retention st' = rs_seal_retention st"
  shows "disk st'"
proof (cases "rs_orphan st'")
  case False
  with assms have "fresh_store st' = fresh_store st" by (simp add: fresh_store_def)
  with False assms(1,3) show ?thesis by (simp add: disk_def)
qed (simp add: disk_def)

lemma disk_commit:
  assumes "disk st" "contents_ok (rs_max_records_per_run st) (rs_seal_retention st) a records seals n"
    "gc_ready env a records seals" "Q a records seals n"
  shows "disk (fst (commit_state env w st a records seals n))"
proof (cases "w = WriteOk \<or> w = SyncFailed")
  case True
  then show ?thesis using assms by (intro disk_written [OF _ assms(3,4)]) (auto simp: commit_ok commit_fails)
next
  case False
  then show ?thesis by (intro disk_same [OF assms(1)]) (auto simp: commit_fails)
qed

lemma unsealed_ready: "unsealed a seals \<Longrightarrow> gc_ready env a records seals"
  by (simp add: unsealed_def gc_ready_def split: option.splits)

lemma durable_commit:
  assumes "durable st" "rs_fatal_error st = None" "unsealed a seals" "Q a records seals n"
    "contents_ok (rs_max_records_per_run st) (rs_seal_retention st) a records seals n"
  shows "durable (fst (commit_state env w st a records seals n))"
proof -
  from assms(1) have i: "store_inv env st" "disk st" by (simp_all add: durable_def)
  have "disk (fst (commit_state env w st a records seals n))"
    by (rule disk_commit [OF i(2) assms(5) unsealed_ready [OF assms(3)] assms(4)])
  moreover have "mem (fst (commit_state env w st a records seals n))"
    if "rs_fatal_error (fst (commit_state env w st a records seals n)) = None"
    using that assms(4) by (cases "w = WriteOk") (simp_all add: commit_ok commit_fails mem_def)
  ultimately show ?thesis using commit_crash(1) [OF i(1) assms(2,3,5)] by (simp add: durable_def)
qed

lemma durable_once:
  assumes "writes_once env st f" "durable st" "rs_fatal_error st = None" "mem (f WriteOk)"
  shows "durable (f w)"
  using assms durable_commit [OF assms(2,3)] unfolding writes_once_def by (auto simp: commit_ok mem_def)

lemma durable_seal:
  assumes "durable st" "rs_fatal_error st = None" "rs_active_run st = Some a" "sealing env st a s seals n"
  shows "durable (seal_commits env st a seals n w1 w2)"
proof -
  from assms(1,2) have i: "store_inv env st" "disk st" "mem st" by (simp_all add: durable_def)
  note q = seal_added [OF i(1) assms(2,3,4) i(3) [unfolded mem_def]]
  have ok: "contents_ok (rs_max_records_per_run st) (rs_seal_retention st) (Some a) (rs_records st) seals n"
    and f: "seal_for_run seals (ac_restart_run_id a) = Some s" using assms(4) unfolding sealing_def by blast+
  have g: "gc_ready env (Some a) (rs_records st) seals" using assms(4) unfolding sealing_def gc_ready_def by simp
  note q2 = collect_sealed [OF f q]
  let ?st1 = "\<lambda>w. fst (commit_state env w st (Some a) (rs_records st) seals n)"
  have d1: "disk (?st1 w)" for w by (rule disk_commit [OF i(2) ok g q])
  have "disk (fst (commit_state env w2 (?st1 WriteOk) None [] seals n))"
    using contents_ok_empty [OF ok] by (intro disk_commit [OF d1 _ _ q2]) (simp_all add: commit_ok gc_ready_def)
  with d1 have "disk (seal_commits env st a seals n w1 w2)" by (simp add: seal_commits_def)
  moreover have "mem (seal_commits env st a seals n w1 w2)" if "rs_fatal_error (seal_commits env st a seals n w1 w2) = None"
    using that q2 by (cases "w1 = WriteOk"; cases "w2 = WriteOk") (simp_all add: seal_commits_def commit_ok commit_fails mem_def)
  ultimately show ?thesis using seal_commits_inv [OF i(1) assms(2,4)] by (simp add: durable_def)
qed

lemma durable_collect:
  assumes "disk l" "mem l" "rs_fatal_error l = None" "gc_ready env (rs_active_run l) (rs_records l) (rs_seals l)" "core_ok l"
  shows "disk (collected env w l)" "rs_fatal_error (collected env w l) = None \<Longrightarrow> mem (collected env w l)"
    "w = WriteOk \<Longrightarrow> rs_fatal_error (collected env w l) = None"
proof -
  let ?c = "collected env w l" and ?d = "fst (commit_state env w l None [] (rs_seals l) (rs_next_seal_sequence l))"
  have "disk ?c \<and> (rs_fatal_error ?c = None \<longrightarrow> mem ?c) \<and> (w = WriteOk \<longrightarrow> rs_fatal_error ?c = None)"
  proof (cases "unsealed (rs_active_run l) (rs_seals l)")
    case True
    then show ?thesis using assms by (simp add: collected_def finish_gc_idle)
  next
    case False
    then obtain a s where a: "rs_active_run l = Some a" "seal_for_run (rs_seals l) (ac_restart_run_id a) = Some s"
      by (auto simp: unsealed_def split: option.splits)
    have q: "Q None [] (rs_seals l) (rs_next_seal_sequence l)" using collect_sealed [OF a(2)] assms(2) a(1) by (simp add: mem_def)
    have d: "disk ?d" by (rule disk_commit [OF assms(1) contents_ok_empty [OF assms(5)] _ q]) (simp add: gc_ready_def)
    have c: "?c = (if w = WriteOk then ?d else ?d\<lparr>rs_fatal_error := Some GcFault\<rparr>)"
      using assms(4) a by (simp add: collected_def finish_sealed_gc_def gc_ready_def commit_ok commit_fails)
    show ?thesis
    proof (cases "w = WriteOk")
      case True
      then show ?thesis using d q assms(3) c by (simp add: commit_ok mem_def)
    next
      case False
      moreover have "disk (?d\<lparr>rs_fatal_error := Some GcFault\<rparr>)" by (rule disk_same [OF d]) simp_all
      ultimately show ?thesis by (simp add: c)
    qed
  qed
  then show "disk ?c" "rs_fatal_error ?c = None \<Longrightarrow> mem ?c" "w = WriteOk \<Longrightarrow> rs_fatal_error ?c = None" by metis+
qed

lemma durable_restart:
  assumes "durable st"
  shows "durable (restart env mk w st)"
    and "mk \<Longrightarrow> w = WriteOk \<Longrightarrow> \<not> rs_orphan st \<Longrightarrow> rs_fatal_error (restart env mk w st) = None"
proof -
  from assms have i: "store_inv env st" "disk st" by (simp_all add: durable_def)
  note caps = store_invD(1) [OF i(1)]
  let ?r = "restart env mk w st"
  have "disk ?r \<and> (rs_fatal_error ?r = None \<longrightarrow> mem ?r) \<and> (mk \<and> w = WriteOk \<and> \<not> rs_orphan st \<longrightarrow> rs_fatal_error ?r = None)"
  proof (cases "mk \<and> \<not> rs_orphan st")
    case False
    then obtain e where "?r = (fresh_store st)\<lparr>rs_fatal_error := Some e\<rparr>" using restart_refused [OF caps] by blast
    moreover have "disk ((fresh_store st)\<lparr>rs_fatal_error := Some e\<rparr>)" by (rule disk_same [OF i(2)]) (simp_all add: fresh_store_def)
    ultimately show ?thesis using False by auto
  next
    case True
    with i(2) obtain l where l: "load_store env (fresh_store st) = Inr l" "gc_ready env (rs_active_run l) (rs_records l) (rs_seals l)" "mem l"
      by (auto simp: disk_def)
    have "disk l" using load_frame [OF l(1)] by (intro disk_same [OF i(2)]) (simp_all add: fresh_store_def)
    moreover have "rs_fatal_error l = None" using load_frame [OF l(1)] by (simp add: fresh_store_def)
    ultimately show ?thesis
      using durable_collect [of l w] l(2,3) load_store_ok [OF caps l(1)] restart_loaded [OF caps l(1), of w] True by auto
  qed
  then show "durable ?r" "mk \<Longrightarrow> w = WriteOk \<Longrightarrow> \<not> rs_orphan st \<Longrightarrow> rs_fatal_error ?r = None"
    using restart_inv [OF i(1)] by (simp_all add: durable_def)
qed

lemma durable_exec:
  assumes "durable st" "store_admissible st x"
  shows "durable (store_exec env st x)"
proof (cases "rs_fatal_error st = None")
  case False
  then show ?thesis using assms(1) by (cases x) (simp_all add: fatal_stays durable_restart(1))
next
  case True
  with assms(1) have i: "store_inv env st" "mem st" by (simp_all add: durable_def)
  show ?thesis
  proof (cases x)
    case (StPersist r old w)
    with assms(2) have r: "rec_ok r" by simp
    have "mem (fst (persist_record env WriteOk st r old))"
      using persist_one [OF i(1) True r] i(2) unfolding mem_def by blast
    from durable_once [OF persist_record_once [OF i(1) r] assms(1) True this] show ?thesis by (simp add: StPersist)
  next
    case (StPersistAll rs run old d w)
    with assms(2) have r: "\<forall>r \<in> set rs. rec_ok r" by simp
    have "mem (fst (persist_records env WriteOk st rs run old d))"
      using persist_batch [OF i(1) True r] i(2) unfolding mem_def by blast
    from durable_once [OF persist_records_once [OF i(1) r] assms(1) True this] show ?thesis by (simp add: StPersistAll)
  next
    case (StSeal run old new d w1 w2)
    with assms(2) have "new \<noteq> []" by simp
    from seal_run_commits [OF i(1) this, of run old d] show ?thesis
      using assms(1) durable_seal [OF assms(1)] unfolding StSeal store_exec.simps by metis
  qed (simp add: durable_restart(1) assms(1))
qed

end

text \<open>Two such facts: nothing at all, and that a persisted record stays until its run is sealed.\<close>

interpretation any_fact: durable_fact env "\<lambda>_ _ _ _. True" for env
  by unfold_locales simp_all

definition decided :: "record_key \<Rightarrow> release_record \<Rightarrow> int \<Rightarrow>
    active_run option \<Rightarrow> (record_key, release_record) dict \<Rightarrow> run_seal list \<Rightarrow> int \<Rightarrow> bool" where
  "decided k r n0 a records seals n \<longleftrightarrow> (dget records k = Some r \<and> unsealed a seals \<and> n0 \<le> n) \<or> n0 < n"

lemma fst_passed_on:
  "fst (case p of (st1, res) \<Rightarrow> (case res of Inl e \<Rightarrow> (st1, Inl e) | Inr u \<Rightarrow> (st1, Inr v))) = fst p"
  by (cases p; cases "snd p") simp_all

lemma persist_record_commits:
  "fst (persist_record env w st r old) = st \<or>
    dget (rs_records st) (key_of r) = None \<and>
    (\<exists>a. fst (persist_record env w st r old) =
      fst (commit_state env w st (Some a) (dput (rs_records st) (key_of r) r) (rs_seals st) (rs_next_seal_sequence st)))"
proof (cases "store_lookup env st r old = Inr None")
  case True
  then have "dget (rs_records st) (key_of r) = None" by (simp add: store_lookup_def split: if_splits option.splits)
  with True show ?thesis by (simp add: persist_record_def Let_def fst_passed_on) blast
next
  case False
  then have "fst (persist_record env w st r old) = st"
    by (cases "store_lookup env st r old") (auto simp: persist_record_def split: option.split)
  then show ?thesis ..
qed

lemma persist_record_keeps:
  assumes "st' = fst (persist_record env WriteOk st r old)"
  shows "dget (rs_records st) k = Some x \<Longrightarrow> dget (rs_records st') k = Some x"
    "rs_next_seal_sequence st' = rs_next_seal_sequence st" "rs_fatal_error st' = rs_fatal_error st"
  using persist_record_commits [of env WriteOk st r old] assms by (cases "k = key_of r"; auto simp: commit_ok dict_simps)+

lemma add_batch_keeps:
  "add_batch candidate leases changed rs = Inr (candidate', changed') \<Longrightarrow> dget candidate k = Some x \<Longrightarrow> dget candidate' k = Some x"
proof (induction candidate leases changed rs rule: add_batch.induct)
  case (2 candidate leases changed r rs)
  show ?case
  proof (cases "dget candidate (key_of r)")
    case None
    with "2.prems"(2) have "dget (dput candidate (key_of r) r) k = Some x" by (cases "k = key_of r") (simp_all add: dict_simps)
    with None "2.IH"(1) [OF None] "2.prems"(1) show ?thesis by (auto split: if_splits)
  next
    case (Some existing)
    with Some "2.IH"(2) [OF Some] "2.prems" show ?thesis by (auto split: if_splits)
  qed
qed simp

lemma persist_records_commits:
  "fst (persist_records env w st rs run old d) = st \<or>
    (\<exists>a candidate changed. add_batch (rs_records st) (lease_map (rs_records st)) False rs = Inr (candidate, changed) \<and>
      fst (persist_records env w st rs run old d) = fst (commit_state env w st a candidate (rs_seals st) (rs_next_seal_sequence st)))"
proof (cases "add_batch (rs_records st) (lease_map (rs_records st)) False rs")
  case (Inr p)
  obtain candidate changed where p: "p = (candidate, changed)" by (cases p)
  let ?f = "fst (persist_records env w st rs run old d)"
  have "?f = st \<or> (\<exists>a. ?f = fst (commit_state env w st a candidate (rs_seals st) (rs_next_seal_sequence st)))"
    unfolding persist_records_def Let_def Inr p by (simp add: fst_passed_on split: option.split) blast
  with Inr p show ?thesis by blast
qed (simp add: persist_records_def Let_def split: option.split)

lemma persist_records_keeps:
  assumes "st' = fst (persist_records env WriteOk st rs run old d)"
  shows "dget (rs_records st) k = Some x \<Longrightarrow> dget (rs_records st') k = Some x"
    "rs_next_seal_sequence st' = rs_next_seal_sequence st" "rs_fatal_error st' = rs_fatal_error st"
  using persist_records_commits [of env WriteOk st rs run old d] assms by (auto simp: commit_ok dest: add_batch_keeps)

interpretation decided_fact: durable_fact env "decided k r n0" for env k r n0
proof unfold_locales
  show "decided k r n0 active records' seals n"
    if "\<And>k. dget records' k = dget records k" "decided k r n0 active records seals n" for records' records active seals n
    using that by (simp add: decided_def)
  show "decided k r n0 None [] seals n"
    if "seal_for_run seals (ac_restart_run_id a) = Some s" "decided k r n0 (Some a) records seals n" for seals a s records n
    using that by (simp add: decided_def unsealed_def)
  show "decided k r n0 (rs_active_run st') (rs_records st') (rs_seals st') (rs_next_seal_sequence st')"
    if p: "store_inv env st" "rs_fatal_error st = None" "rec_ok r'"
      "decided k r n0 (rs_active_run st) (rs_records st) (rs_seals st) (rs_next_seal_sequence st)"
      "st' = fst (persist_record env WriteOk st r' old)" for st r' st' old
  proof -
    have "store_inv env st'" using writes_once_crash(1) [OF persist_record_once [OF p(1,3)] p(1,2)] p(5) by blast
    with persist_record_keeps(1) [OF p(5), of k r] persist_record_keeps(2,3) [OF p(5)] p(2,4) show ?thesis by (auto simp: decided_def dest: store_invD(4))
  qed
  show "decided k r n0 (rs_active_run st') (rs_records st') (rs_seals st') (rs_next_seal_sequence st')"
    if p: "store_inv env st" "rs_fatal_error st = None" "\<forall>r \<in> set rs. rec_ok r"
      "decided k r n0 (rs_active_run st) (rs_records st) (rs_seals st) (rs_next_seal_sequence st)"
      "st' = fst (persist_records env WriteOk st rs run old d)" for st rs st' run old d
  proof -
    have "store_inv env st'" using writes_once_crash(1) [OF persist_records_once [OF p(1,3)] p(1,2)] p(5) by blast
    with persist_records_keeps(1) [OF p(5), of k r] persist_records_keeps(2,3) [OF p(5)] p(2,4) show ?thesis by (auto simp: decided_def dest: store_invD(4))
  qed
  show "decided k r n0 (Some a) (rs_records st) seals n"
    if "store_inv env st" "rs_fatal_error st = None" "rs_active_run st = Some a" "sealing env st a s seals n"
      "decided k r n0 (rs_active_run st) (rs_records st) (rs_seals st) (rs_next_seal_sequence st)" for st a s seals n
    using that by (auto simp: decided_def sealing_def)
qed

interpretation any_ops: op_system "store_exec env" store_admissible "any_fact.durable env" for env
  by unfold_locales (rule any_fact.durable_exec)

interpretation decided_ops: op_system "store_exec env" store_admissible "decided_fact.durable env k r n0" for env k r n0
  by unfold_locales (rule decided_fact.durable_exec)

lemma open_store_caps:
  assumes "open_store env mk w m ret content orphan = Inr st"
  shows "rs_max_records_per_run st = m" "rs_seal_retention st = ret"
proof -
  have "rs_max_records_per_run (fst (finish_sealed_gc env w l)) = rs_max_records_per_run l \<and>
    rs_seal_retention (fst (finish_sealed_gc env w l)) = rs_seal_retention l" for l
    by (cases "w = WriteOk") (simp_all add: finish_sealed_gc_def commit_ok commit_fails split: option.split)
  with assms show "rs_max_records_per_run st = m" "rs_seal_retention st = ret"
    by (auto simp: open_store_def Let_def split: if_splits sum.splits prod.splits dest!: load_frame) (metis fst_conv)+
qed

subsection \<open>The properties\<close>

lemma ready_durable:
  assumes "store_inv env st" "rs_fatal_error st = None"
  shows "any_fact.durable env st"
proof -
  from store_invD(5) [OF assms] obtain l where l: "load_store env (fresh_store st) = Inr l" "same_core st l" by (auto simp: synced_def)
  have "unsealed (rs_active_run l) (rs_seals l)" using store_invD(4) [OF assms] l(2) by (simp add: same_core_def)
  with l(1) assms any_fact.unsealed_ready show ?thesis
    unfolding any_fact.durable_def any_fact.disk_def any_fact.mem_def by blast
qed

lemma ready_decided:
  assumes "any_fact.durable env st" "rs_fatal_error st = None" "dget (rs_records st) k = Some r"
  shows "decided_fact.durable env k r (rs_next_seal_sequence st) st"
proof -
  have i: "store_inv env st" using assms(1) by (simp add: any_fact.durable_def)
  from store_invD(5) [OF i assms(2)] obtain l where l: "load_store env (fresh_store st) = Inr l" "same_core st l" by (auto simp: synced_def)
  have u: "unsealed (rs_active_run l) (rs_seals l)" using store_invD(4) [OF i assms(2)] l(2) by (simp add: same_core_def)
  then have "decided_fact.mem k r (rs_next_seal_sequence st) l"
    using l(2) assms(3) by (simp add: decided_fact.mem_def decided_def same_core_def)
  moreover have "decided_fact.mem k r (rs_next_seal_sequence st) st"
    using assms(3) store_invD(4) [OF i assms(2)] by (simp add: decided_fact.mem_def decided_def)
  ultimately show ?thesis
    using i l(1) decided_fact.unsealed_ready [OF u] unfolding decided_fact.durable_def decided_fact.disk_def by blast
qed

lemma persisted_record:
  assumes "persist_record env w st r old = (st', Inr (r', changed))"
  shows "r' = r" "rs_fatal_error st' = None" "dget (rs_records st') (key_of r) = Some r"
proof -
  have f: "rs_fatal_error st = None" using assms by (cases "rs_fatal_error st") (auto simp: persist_record_def store_lookup_def)
  have w: "w = WriteOk" if "store_lookup env st r old = Inr None"
    using assms that by (cases "w = WriteOk") (auto simp: persist_record_def Let_def commit_fails split: if_splits)
  consider (old) "store_lookup env st r old = Inr (Some r)" | (new) "store_lookup env st r old = Inr None"
    using assms by (auto simp: persist_record_def store_lookup_def split: option.splits if_splits)
  then show "r' = r" "rs_fatal_error st' = None" "dget (rs_records st') (key_of r) = Some r"
    using assms f w
    by (cases; auto simp: persist_record_def Let_def commit_ok dict_simps store_lookup_def split: if_splits option.splits)+
qed

text \<open>The data of the instances: a hash of no consequence, one decision and a store that has just opened.\<close>

definition sample_env :: store_env where
  "sample_env = \<lparr>se_sha = (\<lambda>_. ''00''), se_repr = (\<lambda>_. []), se_int_of_str = (\<lambda>_. None)\<rparr>"

definition sample_record :: release_record where
  "sample_record = \<lparr>rr_cleanup_id = ''c'', rr_restart_run_id = ''run'', rr_old_operation_digest = ''od'', rr_operation_id = ''op'',
     rr_lease_id = ''l'', rr_old_resource_kinds = [''kv''], rr_decision_digest = ''dd''\<rparr>"

definition sample_store :: store where
  "sample_store = \<lparr>rs_max_records_per_run = 4, rs_seal_retention = 2, rs_fatal_error = None, rs_active_run = None, rs_records = [],
     rs_seals = [], rs_next_seal_sequence = 1, rs_file = NoFile, rs_orphan = False\<rparr>"

lemma sample_open: "open_store sample_env True WriteOk 4 2 NoFile False = Inr sample_store" "rs_fatal_error sample_store = None"
  by code_simp+

text \<open>
  C33. A release decision that \<open>persist_record\<close> has acknowledged is not lost or altered by any later operations on
  the store, whatever writes of them fail and however often the process restarts: as long as no
  further run is sealed, every store that is ready still has exactly this record under its key.
\<close>

theorem decision_durable:
  assumes "open_store env mkdir_ok w0 max_records retention content orphan = Inr st0" "rs_fatal_error st0 = None"
    "ok_run (store_exec env) store_admissible st0 (before @ StPersist r old w # after)"
    "persist_record env w (foldl (store_exec env) st0 before) r old = (st1, Inr (r', changed))"
    "st2 = foldl (store_exec env) st1 after" "rs_fatal_error st2 = None" "rs_next_seal_sequence st2 = rs_next_seal_sequence st1"
  shows "r' = r \<and> dget (rs_records st2) (key_of r) = Some r"
proof -
  have "any_fact.durable env st0" by (rule ready_durable [OF open_store_inv [OF assms(1)] assms(2)])
  from any_ops.run_step_inv [OF assms(3) this]
  have b: "any_fact.durable env (foldl (store_exec env) st0 before)" and adm: "rec_ok r"
    and run: "ok_run (store_exec env) store_admissible st1 after" using assms(4) by simp_all
  have d: "any_fact.durable env st1" using any_fact.durable_exec [OF b, of "StPersist r old w"] adm assms(4) by simp
  note p = persisted_record [OF assms(4)]
  from decided_ops.run_inv [OF run ready_decided [OF d p(2,3)]] assms(5-7) p(1) show ?thesis
    by (simp add: decided_fact.durable_def decided_fact.mem_def decided_def)
qed

theorem decision_durable_witness:
  "let ops = [StPersist sample_record ''new'' OpenFailed, StRestart True WriteOk] in
   dget (rs_records (foldl (store_exec sample_env) (fst (persist_record sample_env WriteOk sample_store sample_record ''old'')) ops))
     (key_of sample_record) = Some sample_record"
proof -
  let ?ops = "[StPersist sample_record ''new'' OpenFailed, StRestart True WriteOk]"
  let ?p = "persist_record sample_env WriteOk (foldl (store_exec sample_env) sample_store []) sample_record ''old''"
  have "?p = (fst ?p, Inr (sample_record, True))" by code_simp
  moreover have "ok_run (store_exec sample_env) store_admissible sample_store ([] @ StPersist sample_record ''old'' WriteOk # ?ops)"
    by code_simp
  moreover have "rs_fatal_error (foldl (store_exec sample_env) (fst ?p) ?ops) = None" by code_simp
  moreover have "rs_next_seal_sequence (foldl (store_exec sample_env) (fst ?p) ?ops) = rs_next_seal_sequence (fst ?p)" by code_simp
  ultimately show ?thesis
    using decision_durable [OF sample_open, of "[]" sample_record "''old''" WriteOk ?ops "fst ?p" sample_record True] by simp
qed



fun undisturbed :: "store_op \<Rightarrow> store_op" where
  "undisturbed (StPersist r old w) = StPersist r old WriteOk"
| "undisturbed (StPersistAll rs run old d w) = StPersistAll rs run old d WriteOk"
| "undisturbed (StSeal run old new d w1 w2) = StSeal run old new d WriteOk WriteOk"
| "undisturbed (StRestart mkdir_ok w) = StRestart True WriteOk"

lemma restart_synced:
  assumes "store_inv env st" "rs_fatal_error st = None"
  shows "survives env st new (restart env mk w st)"
proof -
  note i = store_invD [OF assms(1)]
  have same: "survives env st new st'" if "recover env st' = recover env st" for st'
    using recover_synced [OF assms] that unfolding survives_def by metis
  show ?thesis
  proof (cases mk)
    case False
    then obtain e where "restart env mk w st = (fresh_store st)\<lparr>rs_fatal_error := Some e\<rparr>"
      using restart_refused [OF i(1)] by blast
    then show ?thesis by (intro same recover_disk) (simp_all add: fresh_store_def)
  next
    case True
    from i(5) [OF assms(2)] obtain l where l: "load_store env (fresh_store st) = Inr l" "same_core st l" by (auto simp: synced_def)
    have "unsealed (rs_active_run l) (rs_seals l)" using i(4) [OF assms(2)] l(2) by (simp add: same_core_def)
    then have "restart env mk w st = l" using True restart_loaded [OF i(1) l(1), of w] by (simp add: collected_def finish_gc_idle)
    then show ?thesis using load_frame [OF l(1)] by (intro same recover_disk) (simp_all add: fresh_store_def)
  qed
qed



text \<open>
  C36. Whatever JSON or garbage the store directory holds, a store that opens without a fault is well formed:
  the records are keyed by their own identity, no lease has two decisions, all records belong to the
  active run and its decision and fit the cap, and the seals fit the retention with increasing
  sequence numbers below the next one and distinct runs.
\<close>

theorem open_store_sound:
  assumes "open_store env mkdir_ok w max_records retention content orphan = Inr st" "rs_fatal_error st = None"
  shows "(\<forall>k r. dget (rs_records st) k = Some r \<longrightarrow> k = key_of r \<and> rec_ok r \<and>
      (\<exists>a. rs_active_run st = Some a \<and> rr_restart_run_id r = ac_restart_run_id a \<and> rr_decision_digest r = ac_decision_digest a)) \<and>
    (\<forall>r \<in> set (dvals (rs_records st)). \<forall>r' \<in> set (dvals (rs_records st)). lease_key r = lease_key r' \<longrightarrow> r = r') \<and>
    int (length (rs_records st)) \<le> max_records \<and> length (rs_seals st) \<le> retention \<and>
    sorted_wrt (\<lambda>a b. rn_seal_sequence a < rn_seal_sequence b) (rs_seals st) \<and> distinct (map rn_restart_run_id (rs_seals st)) \<and>
    (\<forall>s \<in> set (rs_seals st). seal_ok s \<and> rn_seal_sequence s < rs_next_seal_sequence st) \<and>
    (\<forall>a. rs_active_run st = Some a \<longrightarrow> seal_for_run (rs_seals st) (ac_restart_run_id a) = None)"
proof -
  note i = store_invD [OF open_store_inv [OF assms(1)]]
  have caps: "rs_max_records_per_run st = max_records" "rs_seal_retention st = retention" using open_store_caps [OF assms(1)] by simp_all
  have recs: "records_ok (rs_records st)" "check_segment max_records (rs_active_run st) (rs_records st) = None"
    "\<forall>s \<in> set (rs_seals st). seal_ok s" "check_seals retention (rs_seals st) (rs_next_seal_sequence st) = None"
    using i(2) by (simp_all add: contents_ok_def caps)
  have "k = key_of r \<and> r \<in> set (dvals (rs_records st)) \<and> rec_ok r" if "dget (rs_records st) k = Some r" for k r
    using that recs(1) by (force simp: records_ok_def dest: map_of_SomeD)
  moreover have "\<exists>a. rs_active_run st = Some a \<and> rr_restart_run_id r = ac_restart_run_id a \<and> rr_decision_digest r = ac_decision_digest a"
    if "r \<in> set (dvals (rs_records st))" for r
    using that recs(2) by (cases "rs_active_run st") (auto simp: check_segment_None)
  moreover have "\<forall>a. rs_active_run st = Some a \<longrightarrow> seal_for_run (rs_seals st) (ac_restart_run_id a) = None"
    using i(4) [OF assms(2)] by (simp add: unsealed_def split: option.splits)
  moreover have "int (length (rs_records st)) \<le> max_records" using recs(2) by (simp add: check_segment_None)
  ultimately show ?thesis using recs(1,3,4) unfolding records_ok_def check_seals_None by blast
qed

theorem open_store_sound_witness:
  "let st = fst (persist_record sample_env WriteOk sample_store sample_record ''old'');
       st' = restart sample_env True WriteOk st
   in open_store sample_env True WriteOk 4 2 (rs_file st) False = Inr st' \<and> rec_ok (the (dget (rs_records st') (key_of sample_record)))"
proof -
  let ?st = "fst (persist_record sample_env WriteOk sample_store sample_record ''old'')"
  let ?r = "restart sample_env True WriteOk ?st"
  have o: "open_store sample_env True WriteOk 4 2 (rs_file ?st) False = Inr ?r" by code_simp
  have f: "rs_fatal_error ?r = None" by code_simp
  have d: "dget (rs_records ?r) (key_of sample_record) = Some sample_record" by code_simp
  from open_store_sound [OF o f] d have "rec_ok sample_record" by blast
  with o d show ?thesis unfolding Let_def by (simp only: option.sel simp_thms)
qed



end
