(* ===== verification/Resource_Release.thy ===== *)
theory Resource_Release
  imports Endpoint_Ref PD_Scheduler Store_Durability
begin

text \<open>
  \<^verbatim>\<open>prism_serve/scheduler/resource_release.py\<close>: a decode slot is given back only after every endpoint of a
  cleanup has acknowledged its finalization, or after the decision to release it has been persisted
  in the replacement store.  The evaluator works on the scheduler and on the store, so the operations
  take the three of them (\<open>release_world\<close>).  The remote calls are awaited: a call of
  \<open>release_endpoint_terminal\<close> is a coroutine that other operations interleave with.
\<close>

subsection \<open>Plans and evidence\<close>

record predicate_snapshot =
  ps_name :: string
  ps_status :: string
  ps_endpoint_ref :: endpoint_operation_ref
  ps_resources_held :: bool

record endpoint_finalize_plan =
  fp_instance_id :: string
  fp_endpoint_refs :: "endpoint_operation_ref list"
  fp_resource_kinds :: "string list"

record cleanup_plan =
  cp_cleanup_id :: string
  cp_operation_id :: string
  cp_lease_id :: string
  cp_predicates :: "predicate_snapshot list"
  cp_endpoints :: "endpoint_finalize_plan list"

record replacement_evidence =
  ev_restart_run_id :: string
  ev_old_topology_generation :: string
  ev_new_topology_generation :: string
  ev_old_termination_proof_digests :: "string list"
  ev_fresh_resource_report_digests :: "string list"
  ev_excluded_old_operation_digest :: string
  ev_accepted :: bool
  ev_decision_digest :: string

datatype release_error =
  InvalidEvaluatorCaps
| OmitsPredicateRefs
| CleanupCapacityExhausted
| CleanupPlanReused
| RemoteFailed string
| SchedulerFailed sched_error
| StoreFailed store_error
| NoLiveReplacementLease string
| EvidenceError string
| MissingIds
| LeaseUsedAnotherCleanup
| RecordDidNotRelease
| RollbackRefused

datatype release_event =
  PredicatesSatisfied cleanup_plan
| FinalizeAcked string string "jobj list"
| SlotReleased string string string

definition terminal_predicates :: "string list" where
  "terminal_predicates = [''COMPLETED'', ''FENCED'']"

subsection \<open>The evaluator\<close>

record evaluator =
  rl_has_metrics :: bool
  rl_metrics :: "metric list"
  rl_endpoint_acks :: "(string \<times> string, jobj) dict"
  rl_active_operation_cap :: int
  rl_terminal_snapshot_cap :: int
  rl_active_endpoint :: "(string, cleanup_plan) dict"
  rl_completed_endpoint :: "(string, jobj list) dict"
  rl_gate :: bool
  rl_events :: "release_event list"

record release_world =
  rw_eval :: evaluator
  rw_sched :: pd_scheduler
  rw_store :: "store option"

definition evaluator_init :: "bool \<Rightarrow> int \<Rightarrow> int \<Rightarrow> release_error + evaluator" where
  "evaluator_init has_metrics active_operation_cap terminal_snapshot_cap =
     (if active_operation_cap \<le> 0 \<or> terminal_snapshot_cap \<le> 0 then Inl InvalidEvaluatorCaps
      else Inr \<lparr>rl_has_metrics = has_metrics, rl_metrics = [], rl_endpoint_acks = [],
        rl_active_operation_cap = active_operation_cap, rl_terminal_snapshot_cap = terminal_snapshot_cap,
        rl_active_endpoint = [], rl_completed_endpoint = [], rl_gate = False, rl_events = []\<rparr>)"

definition set_correctness_fault_gate :: "evaluator \<Rightarrow> bool \<Rightarrow> evaluator" where
  "set_correctness_fault_gate e gate = e\<lparr>rl_gate := gate\<rparr>"

definition record_correctness_event :: "evaluator \<Rightarrow> release_event \<Rightarrow> evaluator" where
  "record_correctness_event e x = (if rl_gate e then e\<lparr>rl_events := rl_events e @ [x]\<rparr> else e)"

definition rl_increment :: "evaluator \<Rightarrow> string \<Rightarrow> labels \<Rightarrow> evaluator" where
  "rl_increment e name lbls = (if rl_has_metrics e then e\<lparr>rl_metrics := rl_metrics e @ [Increment name 1 lbls]\<rparr> else e)"

text \<open>\<open>OrderedDict.move_to_end\<close> and the eviction of the oldest snapshots.\<close>

definition move_to_end :: "('k, 'v) dict \<Rightarrow> 'k \<Rightarrow> ('k, 'v) dict" where
  "move_to_end d k = (case dget d k of None \<Rightarrow> d | Some v \<Rightarrow> dpop d k @ [(k, v)])"

fun evict_oldest :: "int \<Rightarrow> 'a list \<Rightarrow> 'a list" where
  "evict_oldest cap [] = []"
| "evict_oldest cap (x # xs) = (if int (length (x # xs)) > cap then evict_oldest cap xs else x # xs)"

subsection \<open>Release after the endpoints have finalized\<close>

definition predicates_terminal :: "cleanup_plan \<Rightarrow> bool" where
  "predicates_terminal plan \<longleftrightarrow>
     cp_predicates plan \<noteq> [] \<and> (\<forall>p \<in> set (cp_predicates plan). ps_status p \<in> set terminal_predicates)"

definition expected_refs :: "cleanup_plan \<Rightarrow> endpoint_operation_ref list" where
  "expected_refs plan = map ps_endpoint_ref (filter ps_resources_held (cp_predicates plan))"

definition planned_refs :: "cleanup_plan \<Rightarrow> endpoint_operation_ref list" where
  "planned_refs plan = concat (map fp_endpoint_refs (cp_endpoints plan))"

text \<open>A call up to its first remote call: it returns a snapshot or \<open>None\<close> at once, or has finalizations to do.\<close>

datatype release_start = Replayed "jobj list" | NotTerminal | Finalizing

definition start_release :: "evaluator \<Rightarrow> cleanup_plan \<Rightarrow> (evaluator, release_error, release_start) outcome" where
  "start_release e plan =
     (case dget (rl_completed_endpoint e) (cp_cleanup_id plan) of
        Some completed \<Rightarrow>
          (rl_increment (e\<lparr>rl_completed_endpoint := move_to_end (rl_completed_endpoint e) (cp_cleanup_id plan)\<rparr>)
             ''cleanup_finalize_replay_total'' [(''endpoint'', ''all'')], Inr (Replayed completed))
      | None \<Rightarrow>
          if \<not> predicates_terminal plan then (e, Inr NotTerminal)
          else if \<not> set (expected_refs plan) \<subseteq> set (planned_refs plan) then (e, Inl OmitsPredicateRefs)
          else case dget (rl_active_endpoint e) (cp_cleanup_id plan) of
            None \<Rightarrow>
              if int (length (rl_active_endpoint e)) \<ge> rl_active_operation_cap e then (e, Inl CleanupCapacityExhausted)
              else (record_correctness_event
                      (e\<lparr>rl_active_endpoint := dput (rl_active_endpoint e) (cp_cleanup_id plan) plan\<rparr>)
                      (PredicatesSatisfied plan), Inr Finalizing)
          | Some active \<Rightarrow>
              if active \<noteq> plan then (e, Inl CleanupPlanReused)
              else (record_correctness_event e (PredicatesSatisfied plan), Inr Finalizing))"

text \<open>The answer of an endpoint, and the endpoints at the front that have answered before.\<close>

definition ack_endpoint :: "evaluator \<Rightarrow> string \<Rightarrow> string \<Rightarrow> jobj \<Rightarrow> evaluator" where
  "ack_endpoint e cleanup_id instance_id snapshot =
     rl_increment (e\<lparr>rl_endpoint_acks := dput (rl_endpoint_acks e) (cleanup_id, instance_id) snapshot\<rparr>)
       ''cleanup_finalize_total'' [(''endpoint'', instance_id), (''status'', ''ACKED'')]"

fun skip_acked ::
  "(string \<times> string, jobj) dict \<Rightarrow> string \<Rightarrow> endpoint_finalize_plan list \<Rightarrow> jobj list
     \<Rightarrow> endpoint_finalize_plan list \<times> jobj list" where
  "skip_acked acks cleanup_id [] results = ([], results)"
| "skip_acked acks cleanup_id (p # ps) results =
     (case dget acks (cleanup_id, fp_instance_id p) of
        None \<Rightarrow> (p # ps, results)
      | Some snapshot \<Rightarrow> skip_acked acks cleanup_id ps (results @ [snapshot]))"

text \<open>All endpoints have answered: the slot is released and the snapshots are kept for replays.\<close>

definition finish_release ::
  "evaluator \<Rightarrow> pd_scheduler \<Rightarrow> cleanup_plan \<Rightarrow> jobj list \<Rightarrow> (evaluator \<times> pd_scheduler, release_error, jobj list) outcome" where
  "finish_release e s plan results =
     (let c = cp_cleanup_id plan;
          e1 = record_correctness_event e (FinalizeAcked c (cp_operation_id plan) results)
      in case release_quarantined_decode_slot s (cp_operation_id plan) (Some (cp_lease_id plan)) (Some c) of
           (s1, Inl x) \<Rightarrow> ((e1, s1), Inl (SchedulerFailed x))
         | (s1, Inr _) \<Rightarrow>
             let e2 = record_correctness_event e1 (SlotReleased c (cp_operation_id plan) (cp_lease_id plan))
             in ((e2\<lparr>rl_completed_endpoint := evict_oldest (rl_terminal_snapshot_cap e2)
                        (move_to_end (dput (rl_completed_endpoint e2) c results) c),
                     rl_active_endpoint := dpop (rl_active_endpoint e2) c,
                     rl_endpoint_acks := filter (\<lambda>(k, _). fst k \<noteq> c) (rl_endpoint_acks e2)\<rparr>, s1), Inr results))"

text \<open>The whole call when no other operation interleaves; the endpoints answer as the parameter says.\<close>

fun finalize_endpoints ::
  "(cleanup_plan \<Rightarrow> endpoint_finalize_plan \<Rightarrow> string + jobj) \<Rightarrow> evaluator \<Rightarrow> cleanup_plan \<Rightarrow> endpoint_finalize_plan list \<Rightarrow> jobj list
     \<Rightarrow> (evaluator, release_error, jobj list) outcome" where
  "finalize_endpoints remote e plan [] results = (e, Inr results)"
| "finalize_endpoints remote e plan (p # ps) results =
     (case dget (rl_endpoint_acks e) (cp_cleanup_id plan, fp_instance_id p) of
        Some snapshot \<Rightarrow> finalize_endpoints remote e plan ps (results @ [snapshot])
      | None \<Rightarrow>
          (case remote plan p of
             Inl x \<Rightarrow> (e, Inl (RemoteFailed x))
           | Inr snapshot \<Rightarrow>
               finalize_endpoints remote (ack_endpoint e (cp_cleanup_id plan) (fp_instance_id p) snapshot) plan ps
                 (results @ [snapshot])))"

definition release_endpoint_terminal ::
  "(cleanup_plan \<Rightarrow> endpoint_finalize_plan \<Rightarrow> string + jobj) \<Rightarrow> evaluator \<Rightarrow> pd_scheduler \<Rightarrow> cleanup_plan
     \<Rightarrow> (evaluator \<times> pd_scheduler, release_error, jobj list option) outcome" where
  "release_endpoint_terminal remote e s plan =
     (case start_release e plan of
        (e1, Inl x) \<Rightarrow> ((e1, s), Inl x)
      | (e1, Inr (Replayed completed)) \<Rightarrow> ((e1, s), Inr (Some completed))
      | (e1, Inr NotTerminal) \<Rightarrow> ((e1, s), Inr None)
      | (e1, Inr Finalizing) \<Rightarrow>
          (case finalize_endpoints remote e1 plan (cp_endpoints plan) [] of
             (e2, Inl x) \<Rightarrow> ((e2, s), Inl x)
           | (e2, Inr results) \<Rightarrow> map_prod id (map_sum id Some) (finish_release e2 s plan results)))"

subsection \<open>Release after a persisted decision\<close>

definition require_replacement_store :: "release_world \<Rightarrow> release_error + store" where
  "require_replacement_store w =
     (case rw_store w of
        None \<Rightarrow> Inl (StoreFailed ReplacementStoreUnavailable)
      | Some st \<Rightarrow> if rs_fatal_error st \<noteq> None then Inl (StoreFailed ReplacementStoreUnavailable) else Inr st)"

definition validate_replacement_evidence :: "replacement_evidence \<Rightarrow> release_error option" where
  "validate_replacement_evidence ev =
     (if \<not> ev_accepted ev then Some (EvidenceError ''restart run is not accepted'')
      else if ev_old_topology_generation ev = ev_new_topology_generation ev
      then Some (EvidenceError ''replacement requires a fresh topology generation'')
      else if length (ev_old_termination_proof_digests ev) \<noteq> 4
      then Some (EvidenceError ''replacement requires four old termination proofs'')
      else if length (remdups (ev_old_termination_proof_digests ev)) \<noteq> 4
      then Some (EvidenceError ''old termination proofs must identify four members'')
      else if length (ev_fresh_resource_report_digests ev) \<noteq> 4
      then Some (EvidenceError ''replacement requires four fresh complete reports'')
      else if length (remdups (ev_fresh_resource_report_digests ev)) \<noteq> 4
      then Some (EvidenceError ''resource reports must identify four members'')
      else if ev_excluded_old_operation_digest ev = [] \<or> ev_decision_digest ev = []
      then Some (EvidenceError ''replacement evidence digests are required'')
      else None)"

definition replacement_record ::
  "string \<Rightarrow> string \<Rightarrow> string \<Rightarrow> string list \<Rightarrow> replacement_evidence \<Rightarrow> release_error + release_record" where
  "replacement_record cleanup_id operation_id lease_id old_resource_kinds ev =
     (if cleanup_id = [] \<or> operation_id = [] \<or> lease_id = [] then Inl MissingIds
      else Inr \<lparr>rr_cleanup_id = cleanup_id, rr_restart_run_id = ev_restart_run_id ev,
        rr_old_operation_digest = ev_excluded_old_operation_digest ev, rr_operation_id = operation_id, rr_lease_id = lease_id,
        rr_old_resource_kinds = sort (remdups old_resource_kinds), rr_decision_digest = ev_decision_digest ev\<rparr>)"

definition require_live_quarantined_lease :: "pd_scheduler \<Rightarrow> release_record \<Rightarrow> release_error option" where
  "require_live_quarantined_lease s r =
     (case decode_slot_lease_of s (rr_operation_id r) of
        None \<Rightarrow> Some (NoLiveReplacementLease ''exact quarantined lease required'')
      | Some lease \<Rightarrow>
          if ls_lease_id lease \<noteq> rr_lease_id r \<or> ls_state lease \<noteq> QUARANTINED
          then Some (NoLiveReplacementLease ''exact quarantined lease required'') else None)"

definition release_local_record :: "pd_scheduler \<Rightarrow> release_record \<Rightarrow> bool \<Rightarrow> (pd_scheduler, release_error, unit) outcome" where
  "release_local_record s r allow_missing =
     (case decode_slot_lease_of s (rr_operation_id r) of
        None \<Rightarrow>
          if allow_missing then (s, Inr ())
          else (s, Inl (NoLiveReplacementLease ''local lease disappeared after record''))
      | Some lease \<Rightarrow>
          if ls_lease_id lease \<noteq> rr_lease_id r then (s, Inl (NoLiveReplacementLease ''local lease id changed''))
          else if ls_state lease = RELEASED
          then if ls_release_cleanup_id lease \<noteq> Some (rr_cleanup_id r) then (s, Inl LeaseUsedAnotherCleanup) else (s, Inr ())
          else if ls_state lease \<noteq> QUARANTINED then (s, Inl (NoLiveReplacementLease ''lease is not quarantined''))
          else case release_quarantined_decode_slot s (rr_operation_id r) (Some (rr_lease_id r)) (Some (rr_cleanup_id r)) of
            (s1, Inl x) \<Rightarrow> (s1, Inl (SchedulerFailed x))
          | (s1, Inr released) \<Rightarrow> if released then (s1, Inr ()) else (s1, Inl RecordDidNotRelease))"

definition release_whole_world_replaced ::
  "store_env \<Rightarrow> write_outcome \<Rightarrow> release_world \<Rightarrow> string \<Rightarrow> string \<Rightarrow> string \<Rightarrow> string list \<Rightarrow> replacement_evidence
     \<Rightarrow> (release_world, release_error, release_record) outcome" where
  "release_whole_world_replaced env wr w cleanup_id operation_id lease_id old_resource_kinds ev =
     (case require_replacement_store w of
        Inl x \<Rightarrow> (w, Inl x)
      | Inr st \<Rightarrow>
          (case replacement_record cleanup_id operation_id lease_id old_resource_kinds ev of
             Inl x \<Rightarrow> (w, Inl x)
           | Inr r \<Rightarrow>
               (case store_lookup env st r (ev_old_topology_generation ev) of
                  Inl x \<Rightarrow> (w, Inl (StoreFailed x))
                | Inr (Some existing) \<Rightarrow>
                    (let w1 = w\<lparr>rw_eval := rl_increment (rw_eval w) ''cleanup_replacement_record_replay_total''
                                  [(''outcome'', ''replay'')]\<rparr>
                     in case release_local_record (rw_sched w) existing True of
                          (s1, Inl x) \<Rightarrow> (w1\<lparr>rw_sched := s1\<rparr>, Inl x)
                        | (s1, Inr _) \<Rightarrow> (w1\<lparr>rw_sched := s1\<rparr>, Inr existing))
                | Inr None \<Rightarrow>
                    (case validate_replacement_evidence ev of
                       Some x \<Rightarrow> (w, Inl x)
                     | None \<Rightarrow>
                         (case require_live_quarantined_lease (rw_sched w) r of
                            Some x \<Rightarrow> (w, Inl x)
                          | None \<Rightarrow>
                              (case persist_record env wr st r (ev_old_topology_generation ev) of
                                 (st1, Inl x) \<Rightarrow> (w\<lparr>rw_store := Some st1\<rparr>, Inl (StoreFailed x))
                               | (st1, Inr (stored, created)) \<Rightarrow>
                                   (let w1 = w\<lparr>rw_store := Some st1,
                                          rw_eval := if created then rl_increment (rw_eval w) ''cleanup_replacement_record_total''
                                            [(''outcome'', ''accepted'')] else rw_eval w\<rparr>
                                    in case release_local_record (rw_sched w) stored False of
                                         (s1, Inl x) \<Rightarrow> (w1\<lparr>rw_sched := s1\<rparr>, Inl x)
                                       | (s1, Inr _) \<Rightarrow> (w1\<lparr>rw_sched := s1\<rparr>, Inr stored))))))))"

fun replacement_records_of ::
  "(string \<times> string \<times> string \<times> string list) list \<Rightarrow> replacement_evidence \<Rightarrow> release_error + release_record list" where
  "replacement_records_of [] ev = Inr []"
| "replacement_records_of ((c, oid, l, kinds) # es) ev =
     (case replacement_record c oid l kinds ev of
        Inl x \<Rightarrow> Inl x
      | Inr r \<Rightarrow> (case replacement_records_of es ev of Inl x \<Rightarrow> Inl x | Inr rs \<Rightarrow> Inr (r # rs)))"

fun check_batch :: "store_env \<Rightarrow> store \<Rightarrow> pd_scheduler \<Rightarrow> string \<Rightarrow> release_record list \<Rightarrow> release_error option" where
  "check_batch env st s old [] = None"
| "check_batch env st s old (r # rs) =
     (case store_lookup env st r old of
        Inl x \<Rightarrow> Some (StoreFailed x)
      | Inr (Some _) \<Rightarrow> check_batch env st s old rs
      | Inr None \<Rightarrow> (case require_live_quarantined_lease s r of Some x \<Rightarrow> Some x | None \<Rightarrow> check_batch env st s old rs))"

definition persist_whole_world_replaced_batch ::
  "store_env \<Rightarrow> write_outcome \<Rightarrow> release_world \<Rightarrow> (string \<times> string \<times> string \<times> string list) list \<Rightarrow> replacement_evidence
     \<Rightarrow> (release_world, release_error, release_record list) outcome" where
  "persist_whole_world_replaced_batch env wr w entries ev =
     (case require_replacement_store w of
        Inl x \<Rightarrow> (w, Inl x)
      | Inr st \<Rightarrow>
          (case validate_replacement_evidence ev of
             Some x \<Rightarrow> (w, Inl x)
           | None \<Rightarrow>
               (case replacement_records_of entries ev of
                  Inl x \<Rightarrow> (w, Inl x)
                | Inr rs \<Rightarrow>
                    (case check_batch env st (rw_sched w) (ev_old_topology_generation ev) rs of
                       Some x \<Rightarrow> (w, Inl x)
                     | None \<Rightarrow>
                         (case persist_records env wr st rs (ev_restart_run_id ev) (ev_old_topology_generation ev)
                                 (Some (ev_decision_digest ev)) of
                            (st1, Inl x) \<Rightarrow> (w\<lparr>rw_store := Some st1\<rparr>, Inl (StoreFailed x))
                          | (st1, Inr stored) \<Rightarrow>
                              (w\<lparr>rw_store := Some st1,
                                 rw_eval := ((\<lambda>e. rl_increment e ''cleanup_replacement_record_total'' [(''outcome'', ''accepted'')])
                                   ^^ (length (rs_records st1) - length (rs_records st))) (rw_eval w)\<rparr>, Inr stored))))))"

fun release_persisted_replacement_batch :: "pd_scheduler \<Rightarrow> release_record list \<Rightarrow> (pd_scheduler, release_error, unit) outcome" where
  "release_persisted_replacement_batch s [] = (s, Inr ())"
| "release_persisted_replacement_batch s (r # rs) =
     (case release_local_record s r False of
        (s1, Inl x) \<Rightarrow> (s1, Inl x)
      | (s1, Inr _) \<Rightarrow> release_persisted_replacement_batch s1 rs)"

definition seal_whole_world_replacement ::
  "store_env \<Rightarrow> write_outcome \<Rightarrow> write_outcome \<Rightarrow> release_world \<Rightarrow> replacement_evidence
     \<Rightarrow> (release_world, release_error, run_seal) outcome" where
  "seal_whole_world_replacement env wr1 wr2 w ev =
     (case require_replacement_store w of
        Inl x \<Rightarrow> (w, Inl x)
      | Inr st \<Rightarrow>
          (case validate_replacement_evidence ev of
             Some x \<Rightarrow> (w, Inl x)
           | None \<Rightarrow>
               if replacement_decode_leases (rw_sched w) \<noteq> []
               then (w, Inl (NoLiveReplacementLease ''replacement run still has live local leases''))
               else case seal_run env wr1 wr2 st (ev_restart_run_id ev) (ev_old_topology_generation ev)
                           (ev_new_topology_generation ev) (ev_decision_digest ev) of
                 (st1, Inl x) \<Rightarrow> (w\<lparr>rw_store := Some st1\<rparr>, Inl (StoreFailed x))
               | (st1, Inr s) \<Rightarrow> (w\<lparr>rw_store := Some st1\<rparr>, Inr s)))"

definition rollback_whole_world_replaced :: "string \<Rightarrow> replacement_evidence \<Rightarrow> release_error + unit" where
  "rollback_whole_world_replaced cleanup_id ev = Inl RollbackRefused"

definition replacement_records :: "release_world \<Rightarrow> (record_key, release_record) dict" where
  "replacement_records w =
     (case rw_store w of None \<Rightarrow> [] | Some st \<Rightarrow> map (\<lambda>r. (key_of r, r)) (store_records st))"

definition rl_state_counts :: "release_world \<Rightarrow> (string, nat) dict" where
  "rl_state_counts w =
     [(''active_endpoint'', length (rl_active_endpoint (rw_eval w))),
      (''endpoint_acks'', length (rl_endpoint_acks (rw_eval w))),
      (''completed_endpoint'', length (rl_completed_endpoint (rw_eval w))),
      (''replacement_records'', case rw_store w of None \<Rightarrow> 0 | Some st \<Rightarrow> length (rs_records st))]"

end
