(* ===== verification/Release_Evidence.thy ===== *)
theory Release_Evidence
  imports Resource_Release
begin

text \<open>
  The evaluator of \<open>Resource_Release\<close> among everything that can run between its awaits: calls for the same or
  for other cleanups, releases after replacement decisions, seals, and the rest of the scheduler.  No
  slot is released for a cleanup without the evidence the module asks for.
\<close>

subsection \<open>Interleaved calls\<close>

text \<open>A call that waits for the answer of the first endpoint still to do.\<close>

record release_call =
  rc_plan :: cleanup_plan
  rc_todo :: "endpoint_finalize_plan list"
  rc_results :: "jobj list"

text \<open>
  Beside the program's state, a history: the endpoints that have answered for a cleanup, and the
  records the store has taken with the seal sequence number at that time.
\<close>

record release_system =
  sy_world :: release_world
  sy_calls :: "(nat, release_call) dict"
  sy_answers :: "(string \<times> string) list"
  sy_persisted :: "(release_record \<times> int) list"

definition advance_call :: "release_system \<Rightarrow> nat \<Rightarrow> release_call \<Rightarrow> release_system" where
  "advance_call sy i c =
     (let w = sy_world sy; e = rw_eval w; plan = rc_plan c;
          (todo, results) = skip_acked (rl_endpoint_acks e) (cp_cleanup_id plan) (rc_todo c) (rc_results c)
      in if todo \<noteq> [] then sy\<lparr>sy_calls := dput (sy_calls sy) i (c\<lparr>rc_todo := todo, rc_results := results\<rparr>)\<rparr>
         else case finish_release e (rw_sched w) plan results of
           ((e1, s1), _) \<Rightarrow> sy\<lparr>sy_world := w\<lparr>rw_eval := e1, rw_sched := s1\<rparr>, sy_calls := dpop (sy_calls sy) i\<rparr>)"

datatype release_op =
  RelCall nat cleanup_plan
| RelAnswer nat "string + jobj"
| RelReplaced string string string "string list" replacement_evidence write_outcome
| RelBatch "(string \<times> string \<times> string \<times> string list) list" replacement_evidence write_outcome
| RelBatchRelease "release_record list"
| RelSeal replacement_evidence write_outcome write_outcome
| RelScheduler sched_op

definition with_eval :: "release_system \<Rightarrow> evaluator \<Rightarrow> release_system" where
  "with_eval sy e = sy\<lparr>sy_world := (sy_world sy)\<lparr>rw_eval := e\<rparr>\<rparr>"

definition note_stored :: "release_world \<Rightarrow> release_record list \<Rightarrow> (release_record \<times> int) list" where
  "note_stored w rs =
     (case rw_store w of
        None \<Rightarrow> []
      | Some st \<Rightarrow>
          if rs_fatal_error st \<noteq> None then []
          else map (\<lambda>r. (r, rs_next_seal_sequence st)) (filter (\<lambda>r. dget (rs_records st) (key_of r) = Some r) rs))"

fun release_exec :: "store_env \<Rightarrow> release_system \<Rightarrow> release_op \<Rightarrow> release_system" where
  "release_exec env sy (RelCall i plan) =
     (case start_release (rw_eval (sy_world sy)) plan of
        (e1, Inr Finalizing) \<Rightarrow>
          advance_call (with_eval sy e1) i \<lparr>rc_plan = plan, rc_todo = cp_endpoints plan, rc_results = []\<rparr>
      | (e1, _) \<Rightarrow> with_eval sy e1)"
| "release_exec env sy (RelAnswer i answer) =
     (case dget (sy_calls sy) i of
        None \<Rightarrow> sy
      | Some c \<Rightarrow>
          (case (rc_todo c, answer) of
             (p # ps, Inr snapshot) \<Rightarrow>
               let k = cp_cleanup_id (rc_plan c)
               in advance_call (with_eval (sy\<lparr>sy_answers := (k, fp_instance_id p) # sy_answers sy\<rparr>)
                      (ack_endpoint (rw_eval (sy_world sy)) k (fp_instance_id p) snapshot)) i
                    (c\<lparr>rc_todo := ps, rc_results := rc_results c @ [snapshot]\<rparr>)
           | _ \<Rightarrow> sy\<lparr>sy_calls := dpop (sy_calls sy) i\<rparr>))"
| "release_exec env sy (RelReplaced c k l kinds ev wr) =
     (let w1 = fst (release_whole_world_replaced env wr (sy_world sy) c k l kinds ev)
      in sy\<lparr>sy_world := w1,
            sy_persisted := note_stored w1 (case replacement_record c k l kinds ev of Inl _ \<Rightarrow> [] | Inr r \<Rightarrow> [r]) @ sy_persisted sy\<rparr>)"
| "release_exec env sy (RelBatch entries ev wr) =
     (let w1 = fst (persist_whole_world_replaced_batch env wr (sy_world sy) entries ev)
      in sy\<lparr>sy_world := w1,
            sy_persisted := note_stored w1 (case replacement_records_of entries ev of Inl _ \<Rightarrow> [] | Inr rs \<Rightarrow> rs) @ sy_persisted sy\<rparr>)"
| "release_exec env sy (RelBatchRelease rs) =
     sy\<lparr>sy_world := (sy_world sy)\<lparr>rw_sched := fst (release_persisted_replacement_batch (rw_sched (sy_world sy)) rs)\<rparr>\<rparr>"
| "release_exec env sy (RelSeal ev wr1 wr2) = sy\<lparr>sy_world := fst (seal_whole_world_replacement env wr1 wr2 (sy_world sy) ev)\<rparr>"
| "release_exec env sy (RelScheduler x) = sy\<lparr>sy_world := (sy_world sy)\<lparr>rw_sched := sched_exec (rw_sched (sy_world sy)) x\<rparr>\<rparr>"

text \<open>
  A call gets a fresh number, a batch is released with the records the store returned, a seal names the new
  generation, and nothing else gives quarantined slots back under a cleanup id.
\<close>

fun release_admissible :: "release_system \<Rightarrow> release_op \<Rightarrow> bool" where
  "release_admissible sy (RelCall i plan) \<longleftrightarrow> dget (sy_calls sy) i = None"
| "release_admissible sy (RelBatchRelease rs) \<longleftrightarrow> set rs \<subseteq> fst ` set (sy_persisted sy)"
| "release_admissible sy (RelSeal ev wr1 wr2) \<longleftrightarrow> ev_new_topology_generation ev \<noteq> []"
| "release_admissible sy (RelScheduler x) \<longleftrightarrow> (case x of ReleaseQuarantined k l (Some c) \<Rightarrow> False | _ \<Rightarrow> True)"
| "release_admissible sy _ \<longleftrightarrow> True"

subsection \<open>The evidence behind a release\<close>

definition endpoint_evidence :: "release_system \<Rightarrow> string \<Rightarrow> decode_slot_lease \<Rightarrow> string \<Rightarrow> bool" where
  "endpoint_evidence sy k l c \<longleftrightarrow>
     (\<exists>plan. cp_cleanup_id plan = c \<and> cp_operation_id plan = k \<and> cp_lease_id plan = ls_lease_id l \<and>
        predicates_terminal plan \<and> set (expected_refs plan) \<subseteq> set (planned_refs plan) \<and>
        (\<forall>p \<in> set (cp_endpoints plan). (c, fp_instance_id p) \<in> set (sy_answers sy)))"

definition decision_evidence :: "release_system \<Rightarrow> string \<Rightarrow> decode_slot_lease \<Rightarrow> string \<Rightarrow> bool" where
  "decision_evidence sy k l c \<longleftrightarrow>
     (\<exists>p \<in> set (sy_persisted sy). rr_cleanup_id (fst p) = c \<and> rr_operation_id (fst p) = k \<and> rr_lease_id (fst p) = ls_lease_id l)"

definition released_with_evidence :: "release_system \<Rightarrow> bool" where
  "released_with_evidence sy \<longleftrightarrow>
     (\<forall>k l c. dget (pd_slot_leases (rw_sched (sy_world sy))) k = Some l \<longrightarrow> ls_release_cleanup_id l = Some c \<longrightarrow>
        endpoint_evidence sy k l c \<or> decision_evidence sy k l c)"

text \<open>A cleanup id on a lease comes only from \<open>release_quarantined_decode_slot\<close>.\<close>

definition cleanup_ids_kept :: "pd_scheduler \<Rightarrow> pd_scheduler \<Rightarrow> bool" where
  "cleanup_ids_kept s s' \<longleftrightarrow>
     (\<forall>k l c. dget (pd_slot_leases s') k = Some l \<longrightarrow> ls_release_cleanup_id l = Some c \<longrightarrow>
        (\<exists>l0. dget (pd_slot_leases s) k = Some l0 \<and> ls_release_cleanup_id l0 = Some c \<and> ls_lease_id l0 = ls_lease_id l))"

lemma cleanup_ids_kept_same: "pd_slot_leases s' = pd_slot_leases s \<Longrightarrow> cleanup_ids_kept s s'"
  by (simp add: cleanup_ids_kept_def)

lemma cleanup_ids_kept_put:
  assumes "pd_slot_leases s' = dput (pd_slot_leases s) k l"
    "\<And>c. ls_release_cleanup_id l = Some c \<Longrightarrow>
       \<exists>l0. dget (pd_slot_leases s) k = Some l0 \<and> ls_release_cleanup_id l0 = Some c \<and> ls_lease_id l0 = ls_lease_id l"
  shows "cleanup_ids_kept s s'"
  using assms by (auto simp: cleanup_ids_kept_def dict_simps)

lemma lease_slots [simp]:
  "pd_slot_leases (fst (free_one_slot s i)) = pd_slot_leases s"
  "pd_slot_leases (fst (decode_finished_slot s i)) = pd_slot_leases s"
  "pd_slot_leases (retake_slot s i) = pd_slot_leases s"
  by (simp_all add: free_one_slot_def decode_finished_slot_def retake_slot_def split: option.splits)

lemma instance_ops_leases:
  "pd_slot_leases (sched_exec s (Register i role m e act)) = pd_slot_leases s"
  "pd_slot_leases (sched_exec s (Deregister i)) = pd_slot_leases s"
  "pd_slot_leases (sched_exec s (QuarantineInstance i ut ud token now)) = pd_slot_leases s"
  "pd_slot_leases (sched_exec s (PickPrefill registry required)) = pd_slot_leases s"
  "pd_slot_leases (sched_exec s (PickDecode registry now required)) = pd_slot_leases s"
  "pd_slot_leases (sched_exec s (PrefillDone i e')) = pd_slot_leases s"
  "pd_slot_leases (sched_exec s (UpdateKvUsage i u)) = pd_slot_leases s"
  by (simp_all add: register_instance_def deregister_instance_def quarantine_instance_def pick_prefill_instance_def
      pick_decode_instance_def on_prefill_done_def update_kv_usage_def Let_def split: option.split)

lemma reconcile_leases: "pd_slot_leases (sched_exec s (Reconcile i e t role m rs ts ds)) = pd_slot_leases s"
  by (simp add: reconcile_instance_def Let_def split: option.split)

lemma cleanup_ids_kept_lease:
  assumes "dget (pd_slot_leases s) k = Some l" "pd_slot_leases s' = dput (pd_slot_leases s) k l'"
    "ls_release_cleanup_id l' = None \<or> ls_release_cleanup_id l' = ls_release_cleanup_id l \<and> ls_lease_id l' = ls_lease_id l"
  shows "cleanup_ids_kept s s'"
  by (rule cleanup_ids_kept_put [OF assms(2)]) (use assms(1,3) in auto)

lemma lease_ops_cleanup_ids:
  "cleanup_ids_kept s (sched_exec s (Reserve registry i rid k token now))"
  "cleanup_ids_kept s (sched_exec s (Adopt i rid k token now))"
  "cleanup_ids_kept s (sched_exec s (Commit k))"
  "cleanup_ids_kept s (sched_exec s (Release k))"
  "cleanup_ids_kept s (sched_exec s (QuarantineSlot k))"
  "cleanup_ids_kept s (sched_exec s (ReleaseQuarantined k lid None))"
  "cleanup_ids_kept s (sched_exec s (RestoreQuarantined k lid' cid))"
  "cleanup_ids_kept s (sched_exec s (RestoreReplaced k lid' cid st))"
  "cleanup_ids_kept s (sched_exec s (DecodeFinished i e k'))"
  by (auto simp: reserve_decode_slot_def adopt_picked_decode_slot_def commit_decode_slot_def release_decode_slot_def
      quarantine_decode_slot_def release_quarantined_decode_slot_def restore_quarantined_decode_slot_def
      restore_replaced_decode_slot_def on_decode_finished_def Let_def
      intro: cleanup_ids_kept_same cleanup_ids_kept_put cleanup_ids_kept_lease split: option.splits)

lemma sched_exec_cleanup_ids:
  assumes "case x of ReleaseQuarantined k l (Some c) \<Rightarrow> False | _ \<Rightarrow> True"
  shows "cleanup_ids_kept s (sched_exec s x)"
proof (cases x)
  case (ReleaseQuarantined k l c)
  with assms have "c = None" by (cases c) auto
  with ReleaseQuarantined show ?thesis by (simp only: lease_ops_cleanup_ids)
qed (simp_all only: lease_ops_cleanup_ids cleanup_ids_kept_same instance_ops_leases reconcile_leases)

text \<open>What a release under a cleanup id does to the leases.\<close>

definition released_for :: "string \<Rightarrow> string \<Rightarrow> string \<Rightarrow> pd_scheduler \<Rightarrow> pd_scheduler \<Rightarrow> bool" where
  "released_for k lid c s s' \<longleftrightarrow>
     (\<forall>k' l c'. dget (pd_slot_leases s') k' = Some l \<longrightarrow> ls_release_cleanup_id l = Some c' \<longrightarrow>
        (\<exists>l0. dget (pd_slot_leases s) k' = Some l0 \<and> ls_release_cleanup_id l0 = Some c' \<and> ls_lease_id l0 = ls_lease_id l) \<or>
        k' = k \<and> ls_lease_id l = lid \<and> c' = c)"

lemma released_for_same [simp]: "released_for k lid c s s"
  by (simp add: released_for_def)

lemma release_quarantined_for: "released_for k lid c s (fst (release_quarantined_decode_slot s k (Some lid) (Some c)))"
  by (auto simp: release_quarantined_decode_slot_def released_for_def dict_simps split: option.split)

lemma release_local_for:
  "released_for (rr_operation_id r) (rr_lease_id r) (rr_cleanup_id r) s (fst (release_local_record s r b))"
  using release_quarantined_for [of "rr_operation_id r" "rr_lease_id r" "rr_cleanup_id r" s]
  by (auto simp: release_local_record_def split: option.split prod.split sum.split)

subsection \<open>The invariant of the system\<close>

definition call_ok :: "release_system \<Rightarrow> release_call \<Rightarrow> bool" where
  "call_ok sy c \<longleftrightarrow>
     predicates_terminal (rc_plan c) \<and> set (expected_refs (rc_plan c)) \<subseteq> set (planned_refs (rc_plan c)) \<and>
     (\<forall>p \<in> set (cp_endpoints (rc_plan c)). p \<in> set (rc_todo c) \<or> (cp_cleanup_id (rc_plan c), fp_instance_id p) \<in> set (sy_answers sy))"

definition calls_ok :: "release_system \<Rightarrow> bool" where
  "calls_ok sy \<longleftrightarrow> (\<forall>i c. dget (sy_calls sy) i = Some c \<longrightarrow> call_ok sy c)"

definition acks_answered :: "release_system \<Rightarrow> bool" where
  "acks_answered sy \<longleftrightarrow> fst ` set (rl_endpoint_acks (rw_eval (sy_world sy))) \<subseteq> set (sy_answers sy)"

definition store_kept :: "store_env \<Rightarrow> release_system \<Rightarrow> bool" where
  "store_kept env sy \<longleftrightarrow>
     (\<forall>st. rw_store (sy_world sy) = Some st \<longrightarrow> any_fact.durable env st) \<and>
     (\<forall>p \<in> set (sy_persisted sy). \<exists>st. rw_store (sy_world sy) = Some st \<and>
        decided_fact.durable env (key_of (fst p)) (fst p) (snd p) st)"

definition rel_inv :: "store_env \<Rightarrow> release_system \<Rightarrow> bool" where
  "rel_inv env sy \<longleftrightarrow> calls_ok sy \<and> acks_answered sy \<and> released_with_evidence sy \<and> store_kept env sy"

lemma evidence_mono:
  assumes "set (sy_answers sy) \<subseteq> set (sy_answers sy')" "set (sy_persisted sy) \<subseteq> set (sy_persisted sy')"
  shows "endpoint_evidence sy k l c \<Longrightarrow> endpoint_evidence sy' k l c" "decision_evidence sy k l c \<Longrightarrow> decision_evidence sy' k l c"
    "call_ok sy cl \<Longrightarrow> call_ok sy' cl"
  using assms unfolding endpoint_evidence_def decision_evidence_def call_ok_def by blast+

lemma evidence_lease_id:
  "ls_lease_id l = ls_lease_id l' \<Longrightarrow> endpoint_evidence sy k l c = endpoint_evidence sy k l' c"
  "ls_lease_id l = ls_lease_id l' \<Longrightarrow> decision_evidence sy k l c = decision_evidence sy k l' c"
  by (simp_all add: endpoint_evidence_def decision_evidence_def)

text \<open>A step that releases for at most one lease keeps the evidence if it has evidence for that lease.\<close>

lemma released_step:
  assumes "released_with_evidence sy" "released_for k lid c (rw_sched (sy_world sy)) (rw_sched (sy_world sy'))"
    "set (sy_answers sy) \<subseteq> set (sy_answers sy')" "set (sy_persisted sy) \<subseteq> set (sy_persisted sy')"
    "\<And>l. dget (pd_slot_leases (rw_sched (sy_world sy'))) k = Some l \<Longrightarrow> ls_release_cleanup_id l = Some c \<Longrightarrow> ls_lease_id l = lid \<Longrightarrow>
       endpoint_evidence sy' k l c \<or> decision_evidence sy' k l c"
  shows "released_with_evidence sy'"
  unfolding released_with_evidence_def
proof (intro allI impI)
  fix k' l c'
  assume l: "dget (pd_slot_leases (rw_sched (sy_world sy'))) k' = Some l" "ls_release_cleanup_id l = Some c'"
  from assms(2) l consider (before) l0 where "dget (pd_slot_leases (rw_sched (sy_world sy))) k' = Some l0"
      "ls_release_cleanup_id l0 = Some c'" "ls_lease_id l0 = ls_lease_id l"
    | (now) "k' = k" "ls_lease_id l = lid" "c' = c" unfolding released_for_def by blast
  then show "endpoint_evidence sy' k' l c' \<or> decision_evidence sy' k' l c'"
  proof cases
    case before
    with assms(1) have "endpoint_evidence sy k' l0 c' \<or> decision_evidence sy k' l0 c'" unfolding released_with_evidence_def by blast
    with evidence_mono(1,2) [OF assms(3,4)] evidence_lease_id [OF before(3)] show ?thesis by blast
  next
    case now
    with assms(5) l show ?thesis by blast
  qed
qed

lemma released_kept:
  assumes "released_with_evidence sy" "cleanup_ids_kept (rw_sched (sy_world sy)) (rw_sched (sy_world sy'))"
    "set (sy_answers sy) \<subseteq> set (sy_answers sy')" "set (sy_persisted sy) \<subseteq> set (sy_persisted sy')"
  shows "released_with_evidence sy'"
  unfolding released_with_evidence_def
proof (intro allI impI)
  fix k l c
  assume "dget (pd_slot_leases (rw_sched (sy_world sy'))) k = Some l" "ls_release_cleanup_id l = Some c"
  with assms(2) obtain l0 where l0: "dget (pd_slot_leases (rw_sched (sy_world sy))) k = Some l0"
      "ls_release_cleanup_id l0 = Some c" "ls_lease_id l0 = ls_lease_id l" unfolding cleanup_ids_kept_def by blast
  with assms(1) have "endpoint_evidence sy k l0 c \<or> decision_evidence sy k l0 c" unfolding released_with_evidence_def by blast
  with evidence_mono(1,2) [OF assms(3,4)] evidence_lease_id [OF l0(3)]
  show "endpoint_evidence sy' k l c \<or> decision_evidence sy' k l c" by blast
qed

lemma calls_ok_mono:
  assumes "calls_ok sy" "set (sy_answers sy) \<subseteq> set (sy_answers sy')" "sy_calls sy' = sy_calls sy"
  shows "calls_ok sy'"
  using assms unfolding calls_ok_def call_ok_def by (metis subsetD)

text \<open>The frames of the evaluator's bookkeeping.\<close>

lemma event_frame [simp]:
  "rl_endpoint_acks (record_correctness_event e x) = rl_endpoint_acks e"
  "rl_endpoint_acks (rl_increment e n ls) = rl_endpoint_acks e"
  "rl_completed_endpoint (record_correctness_event e x) = rl_completed_endpoint e"
  "rl_completed_endpoint (rl_increment e n ls) = rl_completed_endpoint e"
  "rl_active_endpoint (record_correctness_event e x) = rl_active_endpoint e"
  "rl_active_endpoint (rl_increment e n ls) = rl_active_endpoint e"
  "rl_terminal_snapshot_cap (record_correctness_event e x) = rl_terminal_snapshot_cap e"
  "rl_terminal_snapshot_cap (rl_increment e n ls) = rl_terminal_snapshot_cap e"
  by (simp_all add: record_correctness_event_def rl_increment_def)

lemma start_release_acks: "rl_endpoint_acks (fst (start_release e plan)) = rl_endpoint_acks e"
  by (simp add: start_release_def split: option.split)

lemma start_release_Finalizing:
  "start_release e plan = (e1, Inr Finalizing) \<Longrightarrow> predicates_terminal plan \<and> set (expected_refs plan) \<subseteq> set (planned_refs plan)"
  by (auto simp: start_release_def split: option.splits if_splits)

lemma finish_release_frame:
  assumes "finish_release e s plan results = ((e1, s1), res)"
  shows "fst ` set (rl_endpoint_acks e1) \<subseteq> fst ` set (rl_endpoint_acks e)"
    "released_for (cp_operation_id plan) (cp_lease_id plan) (cp_cleanup_id plan) s s1"
  using assms release_quarantined_for [of "cp_operation_id plan" "cp_lease_id plan" "cp_cleanup_id plan" s]
  by (auto simp: finish_release_def Let_def split: prod.splits sum.splits)

lemma skip_acked_todo:
  assumes "skip_acked acks c todo results = (todo', results')" "fst ` set acks \<subseteq> A" "p \<in> set todo"
  shows "p \<in> set todo' \<or> (c, fp_instance_id p) \<in> A"
  using assms
proof (induction acks c todo results rule: skip_acked.induct)
  case (2 acks c q ps results)
  show ?case
  proof (cases "dget acks (c, fp_instance_id q)")
    case None
    with 2 show ?thesis by auto
  next
    case (Some v)
    then have "(c, fp_instance_id q) \<in> A" using "2.prems"(2) by (force dest: map_of_SomeD)
    with 2 Some show ?thesis by auto
  qed
qed simp

lemma advance_inv:
  assumes "calls_ok sy" "acks_answered sy" "released_with_evidence sy" "call_ok sy c"
  shows "calls_ok (advance_call sy i c) \<and> acks_answered (advance_call sy i c) \<and> released_with_evidence (advance_call sy i c)"
proof -
  let ?w = "sy_world sy" and ?plan = "rc_plan c"
  let ?e = "rw_eval ?w" and ?k = "cp_cleanup_id ?plan"
  obtain todo results where sk: "skip_acked (rl_endpoint_acks ?e) ?k (rc_todo c) (rc_results c) = (todo, results)" by fastforce
  have todo: "p \<in> set todo \<or> (?k, fp_instance_id p) \<in> set (sy_answers sy)" if "p \<in> set (cp_endpoints ?plan)" for p
    using skip_acked_todo [OF sk, of "set (sy_answers sy)" p] assms(2,4) that unfolding acks_answered_def call_ok_def by blast
  show ?thesis
  proof (cases "todo = []")
    case False
    let ?sy = "sy\<lparr>sy_calls := dput (sy_calls sy) i (c\<lparr>rc_todo := todo, rc_results := results\<rparr>)\<rparr>"
    have "call_ok ?sy (c\<lparr>rc_todo := todo, rc_results := results\<rparr>)" using todo assms(4) by (simp add: call_ok_def)
    moreover have "call_ok ?sy x = call_ok sy x" for x by (simp add: call_ok_def)
    ultimately have "calls_ok ?sy" using assms(1) by (simp add: calls_ok_def dict_simps)
    moreover have "endpoint_evidence ?sy = endpoint_evidence sy" "decision_evidence ?sy = decision_evidence sy"
      by (intro ext, simp add: endpoint_evidence_def decision_evidence_def)+
    ultimately show ?thesis using assms(2,3) False sk
      by (simp add: advance_call_def Let_def acks_answered_def released_with_evidence_def)
  next
    case True
    obtain e1 s1 res where f: "finish_release ?e (rw_sched ?w) ?plan results = ((e1, s1), res)" by (metis surj_pair)
    let ?sy = "sy\<lparr>sy_world := ?w\<lparr>rw_eval := e1, rw_sched := s1\<rparr>, sy_calls := dpop (sy_calls sy) i\<rparr>"
    have "call_ok ?sy x = call_ok sy x" for x by (simp add: call_ok_def)
    then have "calls_ok ?sy" using assms(1) by (auto simp: calls_ok_def dict_simps)
    moreover have "acks_answered ?sy" using finish_release_frame(1) [OF f] assms(2) by (auto simp: acks_answered_def)
    moreover have "released_with_evidence ?sy"
    proof (rule released_step [OF assms(3)])
      show "released_for (cp_operation_id ?plan) (cp_lease_id ?plan) ?k (rw_sched (sy_world sy)) (rw_sched (sy_world ?sy))"
        using finish_release_frame(2) [OF f] by simp
      show "endpoint_evidence ?sy (cp_operation_id ?plan) l ?k \<or> decision_evidence ?sy (cp_operation_id ?plan) l ?k"
        if "ls_lease_id l = cp_lease_id ?plan" for l
        using todo True assms(4) that by (auto simp: endpoint_evidence_def call_ok_def)
    qed simp_all
    ultimately show ?thesis using True sk f by (simp add: advance_call_def Let_def)
  qed
qed

subsection \<open>Releases after a decision\<close>

lemma require_store_Inr: "require_replacement_store w = Inr st \<longleftrightarrow> rw_store w = Some st \<and> rs_fatal_error st = None"
  by (auto simp: require_replacement_store_def split: option.splits if_splits)

lemma replacement_record_fields:
  assumes "replacement_record c k l kinds ev = Inr r"
  shows "rr_cleanup_id r = c" "rr_operation_id r = k" "rr_lease_id r = l" "rr_restart_run_id r = ev_restart_run_id ev"
    "rr_decision_digest r = ev_decision_digest ev" "rr_old_operation_digest r = ev_excluded_old_operation_digest ev"
    "c \<noteq> []" "k \<noteq> []" "l \<noteq> []"
  using assms by (auto simp: replacement_record_def split: if_splits)

lemma record_rec_ok:
  assumes "replacement_record c k l kinds ev = Inr r" "validate_replacement_evidence ev = None" "ev_restart_run_id ev \<noteq> []"
  shows "rec_ok r"
  using replacement_record_fields [OF assms(1)] assms(2,3)
  by (auto simp: rec_ok_def validate_replacement_evidence_def split: if_splits)

lemma lookup_run_required: "store_lookup env st r old = Inr None \<Longrightarrow> rr_restart_run_id r \<noteq> []"
  by (auto simp: store_lookup_def validate_requested_run_def split: option.splits if_splits)

lemma lookup_existing:
  "store_lookup env st r old = Inr (Some x) \<Longrightarrow> x = r \<and> dget (rs_records st) (key_of r) = Some r"
  by (auto simp: store_lookup_def split: option.splits if_splits)

definition holds :: "release_world \<Rightarrow> release_record \<Rightarrow> bool" where
  "holds w r \<longleftrightarrow> (\<exists>st. rw_store w = Some st \<and> rs_fatal_error st = None \<and> dget (rs_records st) (key_of r) = Some r)"

definition store_step :: "store_env \<Rightarrow> release_world \<Rightarrow> release_world \<Rightarrow> bool" where
  "store_step env w w1 \<longleftrightarrow> rw_store w1 = rw_store w \<or>
     (\<exists>st x. rw_store w = Some st \<and> store_admissible st x \<and> rw_store w1 = Some (store_exec env st x))"

text \<open>
  The release after a decision: if it touches the leases, it releases the one lease the record names, and
  the store holds that record.
\<close>

lemma whole_world_cases:
  assumes "release_whole_world_replaced env wr w c k l kinds ev = (w1, res)"
  obtains (refused) x where "w1 = w" "res = Inl x"
  | (unstored) r st x where "replacement_record c k l kinds ev = Inr r" "rw_store w = Some st" "rs_fatal_error st = None" "rec_ok r"
      "rw_sched w1 = rw_sched w" "rw_eval w1 = rw_eval w" "res = Inl x"
      "rw_store w1 = Some (fst (persist_record env wr st r (ev_old_topology_generation ev)))"
  | (released) r b where "replacement_record c k l kinds ev = Inr r" "holds w1 r" "store_step env w w1"
      "rl_endpoint_acks (rw_eval w1) = rl_endpoint_acks (rw_eval w)" "rw_sched w1 = fst (release_local_record (rw_sched w) r b)"
      "res = map_sum id (\<lambda>_. r) (snd (release_local_record (rw_sched w) r b))"
proof (cases "\<exists>st r. require_replacement_store w = Inr st \<and> replacement_record c k l kinds ev = Inr r")
  case False
  then have "\<exists>x. release_whole_world_replaced env wr w c k l kinds ev = (w, Inl x)"
    by (cases "require_replacement_store w"; cases "replacement_record c k l kinds ev") (simp_all add: release_whole_world_replaced_def)
  with assms show ?thesis using refused by auto
next
  case True
  then obtain st r where st: "require_replacement_store w = Inr st" and r: "replacement_record c k l kinds ev = Inr r" by blast
  note st' = st [unfolded require_store_Inr]
  let ?old = "ev_old_topology_generation ev"
  note d = assms [unfolded release_whole_world_replaced_def st r sum.case]
  show ?thesis
  proof (cases "store_lookup env st r ?old")
    case (Inl x)
    with d refused show ?thesis by auto
  next
    case (Inr o')
    show ?thesis
    proof (cases o')
      case (Some x)
      note x = lookup_existing [OF Inr [unfolded Some]]
      obtain s1 res1 where l: "release_local_record (rw_sched w) r True = (s1, res1)" by fastforce
      from d Inr Some x l have "w1 = w\<lparr>rw_eval := rl_increment (rw_eval w) ''cleanup_replacement_record_replay_total'' [(''outcome'', ''replay'')],
          rw_sched := s1\<rparr>" "res = map_sum id (\<lambda>_. r) res1" by (auto simp: Let_def split: sum.splits)
      with r l st' x show ?thesis by (intro released [of r True]) (auto simp: holds_def store_step_def)
    next
      case None
      show ?thesis
      proof (cases "validate_replacement_evidence ev = None \<and> require_live_quarantined_lease (rw_sched w) r = None")
        case False
        then show ?thesis using d Inr None refused by (auto split: option.splits)
      next
        case True
        have ok: "rec_ok r" using record_rec_ok [OF r] True lookup_run_required [OF Inr [unfolded None]] replacement_record_fields(4) [OF r] by simp
        obtain st1 res1 where p: "persist_record env wr st r ?old = (st1, res1)" by fastforce
        show ?thesis
        proof (cases res1)
          case (Inl x)
          with d Inr None True p have "w1 = w\<lparr>rw_store := Some st1\<rparr>" "res = Inl (StoreFailed x)" by auto
          with r st' ok p show ?thesis by (intro unstored [of r st]) auto
        next
          case (Inr y)
          obtain stored created where y: "y = (stored, created)" by fastforce
          note pr = persisted_record [OF p [unfolded Inr y]]
          obtain s1 res2 where l: "release_local_record (rw_sched w) r False = (s1, res2)" by fastforce
          from d \<open>store_lookup env st r ?old = Inr o'\<close> None True p Inr y pr l
          have "rw_store w1 = Some st1" "rw_sched w1 = s1" "res = map_sum id (\<lambda>_. r) res2"
            "rl_endpoint_acks (rw_eval w1) = rl_endpoint_acks (rw_eval w)" by (auto simp: Let_def split: sum.splits)
          moreover have "store_step env w w1"
            using st' ok p \<open>rw_store w1 = Some st1\<close> unfolding store_step_def
            by (metis fst_conv store_admissible.simps(1) store_exec.simps(1))
          ultimately show ?thesis using r pr l by (intro released [of r False]) (auto simp: holds_def)
        qed
      qed
    qed
  qed
qed

lemma records_of_fields:
  "replacement_records_of entries ev = Inr rs \<Longrightarrow> r \<in> set rs \<Longrightarrow>
     \<exists>c k l kinds. replacement_record c k l kinds ev = Inr r"
proof (induction entries arbitrary: rs)
  case (Cons x es)
  obtain c k l kinds where x: "x = (c, k, l, kinds)" by (metis surj_pair)
  with Cons.prems obtain r0 rs0 where "replacement_record c k l kinds ev = Inr r0" "replacement_records_of es ev = Inr rs0" "rs = r0 # rs0"
    by (auto split: sum.splits)
  with Cons show ?case by auto
qed simp

lemma persist_records_no_run: "run = [] \<Longrightarrow> fst (persist_records env w st rs run old d) = st"
  by (auto simp: persist_records_def validate_requested_run_def Let_def split: option.split)

lemma batch_step:
  assumes "persist_whole_world_replaced_batch env wr w entries ev = (w1, res)"
  shows "rw_sched w1 = rw_sched w" "rl_endpoint_acks (rw_eval w1) = rl_endpoint_acks (rw_eval w)" "store_step env w w1"
proof -
  have inc: "rl_endpoint_acks (((\<lambda>e. rl_increment e nm ls) ^^ n) e) = rl_endpoint_acks e" for n nm ls e
    by (induction n) simp_all
  show "rw_sched w1 = rw_sched w" "rl_endpoint_acks (rw_eval w1) = rl_endpoint_acks (rw_eval w)"
    using assms inc by (auto simp: persist_whole_world_replaced_batch_def split: sum.splits option.splits prod.splits)
  show "store_step env w w1"
  proof (cases "\<exists>st rs. require_replacement_store w = Inr st \<and> validate_replacement_evidence ev = None \<and>
      replacement_records_of entries ev = Inr rs \<and> check_batch env st (rw_sched w) (ev_old_topology_generation ev) rs = None")
    case False
    then have "w1 = w" using assms by (auto simp: persist_whole_world_replaced_batch_def split: sum.splits option.splits)
    then show ?thesis by (simp add: store_step_def)
  next
    case True
    then obtain st rs where t: "require_replacement_store w = Inr st" "validate_replacement_evidence ev = None"
      "replacement_records_of entries ev = Inr rs" "check_batch env st (rw_sched w) (ev_old_topology_generation ev) rs = None" by blast
    let ?x = "StPersistAll rs (ev_restart_run_id ev) (ev_old_topology_generation ev) (Some (ev_decision_digest ev)) wr"
    have w1: "rw_store w1 = Some (store_exec env st ?x)"
      using assms t by (auto simp: persist_whole_world_replaced_batch_def split: prod.splits sum.splits)
    have st: "rw_store w = Some st" using t(1) by (simp add: require_store_Inr)
    show ?thesis
    proof (cases "ev_restart_run_id ev = []")
      case True
      then show ?thesis using w1 st by (simp add: store_step_def persist_records_no_run)
    next
      case False
      then have "\<forall>r \<in> set rs. rec_ok r" using records_of_fields [OF t(3)] record_rec_ok t(2) by blast
      then have "store_admissible st ?x" by simp
      then show ?thesis using w1 st unfolding store_step_def by blast
    qed
  qed
qed

lemma seal_step:
  assumes "ev_new_topology_generation ev \<noteq> []" "seal_whole_world_replacement env wr1 wr2 w ev = (w1, res)"
  shows "rw_sched w1 = rw_sched w" "rw_eval w1 = rw_eval w" "store_step env w w1"
proof -
  show "rw_sched w1 = rw_sched w" "rw_eval w1 = rw_eval w"
    using assms(2) by (auto simp: seal_whole_world_replacement_def split: sum.splits option.splits prod.splits if_splits)
  let ?x = "StSeal (ev_restart_run_id ev) (ev_old_topology_generation ev) (ev_new_topology_generation ev) (ev_decision_digest ev) wr1 wr2"
  have "w1 = w \<or> (\<exists>st. rw_store w = Some st \<and> rw_store w1 = Some (store_exec env st ?x))"
    using assms(2) by (auto simp: seal_whole_world_replacement_def require_store_Inr split: sum.splits option.splits prod.splits if_splits)
  moreover have "store_admissible st ?x" for st using assms(1) by simp
  ultimately show "store_step env w w1" unfolding store_step_def by blast
qed

subsection \<open>Every step keeps the invariant\<close>

lemma store_step_kept:
  assumes "store_kept env sy" "store_step env (sy_world sy) w1" "sy_world sy' = w1" "sy_persisted sy' = new @ sy_persisted sy"
    "\<forall>p \<in> set new. \<exists>st. rw_store w1 = Some st \<and> rs_fatal_error st = None \<and> dget (rs_records st) (key_of (fst p)) = Some (fst p) \<and>
       snd p = rs_next_seal_sequence st"
  shows "store_kept env sy'"
proof -
  have d: "any_fact.durable env st" if "rw_store w1 = Some st" for st
    using that assms(1,2) any_fact.durable_exec unfolding store_kept_def store_step_def by (metis option.inject)
  have old: "\<exists>st. rw_store w1 = Some st \<and> decided_fact.durable env (key_of (fst p)) (fst p) (snd p) st"
    if "p \<in> set (sy_persisted sy)" for p
  proof -
    from assms(1) that obtain st where st: "rw_store (sy_world sy) = Some st" "decided_fact.durable env (key_of (fst p)) (fst p) (snd p) st"
      unfolding store_kept_def by blast
    from assms(2) show ?thesis unfolding store_step_def
    proof
      assume "\<exists>st x. rw_store (sy_world sy) = Some st \<and> store_admissible st x \<and> rw_store w1 = Some (store_exec env st x)"
      with st decided_fact.durable_exec [OF st(2)] show ?thesis by auto
    qed (use st in auto)
  qed
  have "\<exists>st. rw_store w1 = Some st \<and> decided_fact.durable env (key_of (fst p)) (fst p) (snd p) st" if "p \<in> set new" for p
    using assms(5) that d ready_decided by metis
  with d old show ?thesis unfolding store_kept_def assms(3,4) by auto
qed

lemma note_stored_holds:
  "\<forall>p \<in> set (note_stored w rs). \<exists>st. rw_store w = Some st \<and> rs_fatal_error st = None \<and>
     dget (rs_records st) (key_of (fst p)) = Some (fst p) \<and> snd p = rs_next_seal_sequence st"
  by (cases "rw_store w") (auto simp: note_stored_def)

lemma holds_noted: "holds w r \<Longrightarrow> r \<in> set rs \<Longrightarrow> r \<in> fst ` set (note_stored w rs)"
  by (force simp: holds_def note_stored_def)

lemma store_kept_eval:
  "store_kept env sy \<Longrightarrow> rw_store (sy_world sy') = rw_store (sy_world sy) \<Longrightarrow> sy_persisted sy' = sy_persisted sy \<Longrightarrow> store_kept env sy'"
  by (simp add: store_kept_def)

lemma advance_store: "rw_store (sy_world (advance_call sy i c)) = rw_store (sy_world sy)" "sy_persisted (advance_call sy i c) = sy_persisted sy"
  by (simp_all add: advance_call_def Let_def split: prod.split)

lemma with_eval_inv:
  assumes "calls_ok sy" "acks_answered sy" "released_with_evidence sy" "fst ` set (rl_endpoint_acks e) \<subseteq> set (sy_answers sy)"
  shows "calls_ok (with_eval sy e) \<and> acks_answered (with_eval sy e) \<and> released_with_evidence (with_eval sy e)"
proof -
  have "call_ok (with_eval sy e) = call_ok sy" "endpoint_evidence (with_eval sy e) = endpoint_evidence sy"
    "decision_evidence (with_eval sy e) = decision_evidence sy"
    by (intro ext, simp add: with_eval_def call_ok_def endpoint_evidence_def decision_evidence_def)+
  with assms show ?thesis by (simp add: calls_ok_def acks_answered_def released_with_evidence_def) (simp add: with_eval_def)
qed

lemma rel_inv_store: "rel_inv env sy \<Longrightarrow> store_kept env sy"
  by (simp add: rel_inv_def)

lemma call_inv:
  assumes "rel_inv env sy"
  shows "rel_inv env (release_exec env sy (RelCall i plan))"
proof -
  obtain e1 res where st: "start_release (rw_eval (sy_world sy)) plan = (e1, res)" by fastforce
  have acks: "fst ` set (rl_endpoint_acks e1) \<subseteq> set (sy_answers sy)"
    using start_release_acks [of "rw_eval (sy_world sy)" plan] assms by (simp add: st rel_inv_def acks_answered_def)
  let ?sy = "with_eval sy e1" and ?c = "\<lparr>rc_plan = plan, rc_todo = cp_endpoints plan, rc_results = []\<rparr>"
  have i: "calls_ok ?sy \<and> acks_answered ?sy \<and> released_with_evidence ?sy"
    using with_eval_inv [OF _ _ _ acks] assms by (simp add: rel_inv_def)
  have k: "store_kept env ?sy" by (rule store_kept_eval [OF rel_inv_store [OF assms]]) (simp_all add: with_eval_def)
  show ?thesis
  proof (cases "res = Inr Finalizing")
    case True
    from start_release_Finalizing [OF st [unfolded True]] have "call_ok ?sy ?c" by (simp add: call_ok_def)
    with advance_inv [of ?sy ?c i] i have "calls_ok (advance_call ?sy i ?c) \<and> acks_answered (advance_call ?sy i ?c) \<and>
        released_with_evidence (advance_call ?sy i ?c)" by blast
    moreover have "store_kept env (advance_call ?sy i ?c)" by (rule store_kept_eval [OF k]) (simp_all only: advance_store)
    moreover have "release_exec env sy (RelCall i plan) = advance_call ?sy i ?c" using st True by simp
    ultimately show ?thesis by (simp only: rel_inv_def simp_thms)
  next
    case False
    with st have "release_exec env sy (RelCall i plan) = ?sy" by (simp split: sum.split release_start.split)
    with i k show ?thesis by (simp add: rel_inv_def)
  qed
qed

lemma more_answers:
  assumes "released_with_evidence sy" "set (sy_answers sy) \<subseteq> set answers"
  shows "released_with_evidence (sy\<lparr>sy_answers := answers\<rparr>)"
proof -
  note m = evidence_mono(1,2) [of sy "sy\<lparr>sy_answers := answers\<rparr>"]
  have "endpoint_evidence (sy\<lparr>sy_answers := answers\<rparr>) k l c \<or> decision_evidence (sy\<lparr>sy_answers := answers\<rparr>) k l c"
    if "endpoint_evidence sy k l c \<or> decision_evidence sy k l c" for k l c
    using that m assms(2) by auto
  with assms(1) show ?thesis by (simp add: released_with_evidence_def)
qed

lemma ack_endpoint_keys: "fst ` set (rl_endpoint_acks (ack_endpoint e k i v)) \<subseteq> insert (k, i) (fst ` set (rl_endpoint_acks e))"
  using set_dput_subset [of "(k, i)" v "rl_endpoint_acks e"] by (auto simp: ack_endpoint_def)

lemma answer_inv:
  assumes "rel_inv env sy"
  shows "rel_inv env (release_exec env sy (RelAnswer i answer))"
proof (cases "dget (sy_calls sy) i")
  case None
  with assms show ?thesis by simp
next
  case (Some c)
  let ?drop = "sy\<lparr>sy_calls := dpop (sy_calls sy) i\<rparr>"
  have same: "call_ok (sy\<lparr>sy_calls := x\<rparr>) = call_ok sy" "endpoint_evidence (sy\<lparr>sy_calls := x\<rparr>) = endpoint_evidence sy"
    "decision_evidence (sy\<lparr>sy_calls := x\<rparr>) = decision_evidence sy" for x
    by (intro ext, simp add: call_ok_def endpoint_evidence_def decision_evidence_def)+
  have drop: "rel_inv env ?drop"
    using assms same by (auto simp: rel_inv_def calls_ok_def acks_answered_def released_with_evidence_def store_kept_def dict_simps)
  show ?thesis
  proof (cases "\<exists>p ps snapshot. rc_todo c = p # ps \<and> answer = Inr snapshot")
    case False
    then have "release_exec env sy (RelAnswer i answer) = ?drop" using Some by (auto split: list.split sum.split)
    with drop show ?thesis by simp
  next
    case True
    then obtain p ps snapshot where t: "rc_todo c = p # ps" "answer = Inr snapshot" by blast
    let ?k = "cp_cleanup_id (rc_plan c)"
    let ?e = "ack_endpoint (rw_eval (sy_world sy)) ?k (fp_instance_id p) snapshot"
    let ?sy0 = "sy\<lparr>sy_answers := (?k, fp_instance_id p) # sy_answers sy\<rparr>"
    let ?c = "c\<lparr>rc_todo := ps, rc_results := rc_results c @ [snapshot]\<rparr>"
    have sub: "set (sy_answers sy) \<subseteq> set (sy_answers ?sy0)" by auto
    have "calls_ok ?sy0" using assms by (intro calls_ok_mono [OF _ sub]) (simp_all add: rel_inv_def)
    moreover have "released_with_evidence ?sy0" using assms by (intro more_answers) (auto simp: rel_inv_def)
    moreover have "acks_answered ?sy0" using assms by (auto simp: rel_inv_def acks_answered_def)
    moreover have "fst ` set (rl_endpoint_acks ?e) \<subseteq> set (sy_answers ?sy0)"
      using assms ack_endpoint_keys [of "rw_eval (sy_world sy)" ?k "fp_instance_id p" snapshot]
      by (auto simp: rel_inv_def acks_answered_def)
    ultimately have i: "calls_ok (with_eval ?sy0 ?e) \<and> acks_answered (with_eval ?sy0 ?e) \<and> released_with_evidence (with_eval ?sy0 ?e)"
      by (intro with_eval_inv)
    have "call_ok sy c" using assms Some by (simp add: rel_inv_def calls_ok_def)
    then have "call_ok (with_eval ?sy0 ?e) ?c" using t(1) by (auto simp: call_ok_def with_eval_def)
    with i have "calls_ok (advance_call (with_eval ?sy0 ?e) i ?c) \<and> acks_answered (advance_call (with_eval ?sy0 ?e) i ?c) \<and>
        released_with_evidence (advance_call (with_eval ?sy0 ?e) i ?c)" by (intro advance_inv) simp_all
    moreover have "store_kept env (advance_call (with_eval ?sy0 ?e) i ?c)"
      by (rule store_kept_eval [OF rel_inv_store [OF assms]]) (simp_all add: advance_store with_eval_def)
    moreover have "release_exec env sy (RelAnswer i answer) = advance_call (with_eval ?sy0 ?e) i ?c"
      using Some t by (simp add: Let_def)
    ultimately show ?thesis by (simp only: rel_inv_def simp_thms)
  qed
qed

text \<open>A step that leaves calls and answers alone.\<close>

lemma rel_inv_step:
  assumes "rel_inv env sy" "sy_calls sy' = sy_calls sy" "sy_answers sy' = sy_answers sy"
    "rl_endpoint_acks (rw_eval (sy_world sy')) = rl_endpoint_acks (rw_eval (sy_world sy))"
    "released_with_evidence sy'" "store_kept env sy'"
  shows "rel_inv env sy'"
  using assms calls_ok_mono [of sy sy'] by (simp add: rel_inv_def acks_answered_def)

lemma replaced_inv:
  assumes "rel_inv env sy"
  shows "rel_inv env (release_exec env sy (RelReplaced c k l kinds ev wr))" (is "rel_inv env ?goal")
proof -
  let ?w = "sy_world sy"
  obtain w1 res where w1: "release_whole_world_replaced env wr ?w c k l kinds ev = (w1, res)" by fastforce
  let ?new = "note_stored w1 (case replacement_record c k l kinds ev of Inl _ \<Rightarrow> [] | Inr r \<Rightarrow> [r])"
  let ?sy = "sy\<lparr>sy_world := w1, sy_persisted := ?new @ sy_persisted sy\<rparr>"
  have sy: "?goal = ?sy" using w1 by (simp add: Let_def)
  have sub: "set (sy_answers sy) \<subseteq> set (sy_answers ?sy)" "set (sy_persisted sy) \<subseteq> set (sy_persisted ?sy)" by auto
  have acks: "rl_endpoint_acks (rw_eval w1) = rl_endpoint_acks (rw_eval ?w)" using w1 by (cases rule: whole_world_cases) simp_all
  have st: "store_step env ?w w1"
    using w1
  proof (cases rule: whole_world_cases)
    case (unstored r st x)
    let ?x = "StPersist r (ev_old_topology_generation ev) wr"
    have "store_admissible st ?x" "rw_store w1 = Some (store_exec env st ?x)" using unstored by simp_all
    with unstored(2) show ?thesis unfolding store_step_def by blast
  next
    case (refused x)
    then show ?thesis by (simp add: store_step_def)
  next
    case (released r b)
    then show ?thesis by simp
  qed
  have r: "released_with_evidence sy" using assms by (simp add: rel_inv_def)
  have rel: "released_with_evidence ?sy"
    using w1
  proof (cases rule: whole_world_cases)
    case (released r b)
    note flds = replacement_record_fields(1-3) [OF released(1)]
    have new: "r \<in> fst ` set ?new" using released(1,2) by (intro holds_noted) simp_all
    show ?thesis
    proof (rule released_step [OF r _ sub])
      show "released_for k l c (rw_sched ?w) (rw_sched (sy_world ?sy))"
        using release_local_for [of r "rw_sched ?w" b] flds released(5) by simp
      show "endpoint_evidence ?sy k x c \<or> decision_evidence ?sy k x c" if "ls_lease_id x = l" for x
        using new flds that by (force simp: decision_evidence_def)
    qed
  next
    case (refused x)
    show ?thesis by (rule released_kept [OF r _ sub]) (simp add: refused cleanup_ids_kept_same)
  next
    case (unstored r' st' x)
    show ?thesis by (rule released_kept [OF r _ sub]) (simp add: unstored cleanup_ids_kept_same)
  qed
  have kept: "store_kept env ?sy"
    by (rule store_step_kept [where new = ?new, OF rel_inv_store [OF assms] st]) (simp, simp, rule note_stored_holds)
  have "rel_inv env ?sy" by (rule rel_inv_step [OF assms _ _ _ rel kept]) (simp_all add: acks)
  then show ?thesis by (simp only: sy)
qed

lemma batch_inv:
  assumes "rel_inv env sy"
  shows "rel_inv env (release_exec env sy (RelBatch entries ev wr))" (is "rel_inv env ?goal")
proof -
  obtain w1 res where w1: "persist_whole_world_replaced_batch env wr (sy_world sy) entries ev = (w1, res)" by fastforce
  note b = batch_step [OF w1]
  let ?new = "note_stored w1 (case replacement_records_of entries ev of Inl _ \<Rightarrow> [] | Inr rs \<Rightarrow> rs)"
  let ?sy = "sy\<lparr>sy_world := w1, sy_persisted := ?new @ sy_persisted sy\<rparr>"
  have sy: "?goal = ?sy" using w1 by (simp add: Let_def)
  have rel: "released_with_evidence ?sy"
    by (rule released_kept [of sy]) (use assms b(1) in \<open>auto simp: rel_inv_def intro: cleanup_ids_kept_same\<close>)
  have kept: "store_kept env ?sy"
    by (rule store_step_kept [where new = ?new, OF rel_inv_store [OF assms] b(3)]) (simp, simp, rule note_stored_holds)
  have "rel_inv env ?sy" by (rule rel_inv_step [OF assms _ _ _ rel kept]) (simp_all add: b(2))
  then show ?thesis by (simp only: sy)
qed

lemma batch_release_evidence:
  assumes "released_with_evidence sy" "set rs \<subseteq> fst ` set (sy_persisted sy)"
  shows "released_with_evidence (sy\<lparr>sy_world := (sy_world sy)\<lparr>rw_sched := fst (release_persisted_replacement_batch (rw_sched (sy_world sy)) rs)\<rparr>\<rparr>)"
  using assms
proof (induction rs arbitrary: sy)
  case (Cons r rs)
  let ?w = "sy_world sy"
  let ?sy = "sy\<lparr>sy_world := ?w\<lparr>rw_sched := fst (release_local_record (rw_sched ?w) r False)\<rparr>\<rparr>"
  have one: "released_with_evidence ?sy"
  proof (rule released_step [OF Cons.prems(1)])
    show "released_for (rr_operation_id r) (rr_lease_id r) (rr_cleanup_id r) (rw_sched (sy_world sy)) (rw_sched (sy_world ?sy))"
      using release_local_for [of r "rw_sched ?w" False] by simp
    show "endpoint_evidence ?sy (rr_operation_id r) x (rr_cleanup_id r) \<or> decision_evidence ?sy (rr_operation_id r) x (rr_cleanup_id r)"
      if "ls_lease_id x = rr_lease_id r" for x
      using Cons.prems(2) that by (force simp: decision_evidence_def)
  qed simp_all
  obtain s1 res where l: "release_local_record (rw_sched ?w) r False = (s1, res)" by fastforce
  from Cons.IH [of ?sy] one Cons.prems(2) l show ?case by (cases res) simp_all
qed simp

lemma release_exec_inv:
  assumes "rel_inv env sy" "release_admissible sy x"
  shows "rel_inv env (release_exec env sy x)"
proof (cases x)
  case (RelBatchRelease rs)
  let ?sy = "release_exec env sy (RelBatchRelease rs)"
  have rel: "released_with_evidence ?sy" using assms RelBatchRelease by (simp add: batch_release_evidence rel_inv_def)
  have kept: "store_kept env ?sy" by (rule store_kept_eval [OF rel_inv_store [OF assms(1)]]) simp_all
  show ?thesis unfolding RelBatchRelease by (rule rel_inv_step [OF assms(1) _ _ _ rel kept]) simp_all
next
  case (RelSeal ev wr1 wr2)
  obtain w1 res where w1: "seal_whole_world_replacement env wr1 wr2 (sy_world sy) ev = (w1, res)" by fastforce
  have "ev_new_topology_generation ev \<noteq> []" using assms(2) RelSeal by simp
  note b = seal_step [OF this w1]
  let ?sy = "sy\<lparr>sy_world := w1\<rparr>"
  have rel: "released_with_evidence ?sy"
    by (rule released_kept [of sy]) (use assms(1) b(1) in \<open>auto simp: rel_inv_def intro: cleanup_ids_kept_same\<close>)
  have kept: "store_kept env ?sy" by (rule store_step_kept [where new = "[]", OF rel_inv_store [OF assms(1)] b(3)]) simp_all
  have "release_exec env sy x = ?sy" using w1 RelSeal by simp
  then show ?thesis by (simp only:) (rule rel_inv_step [OF assms(1) _ _ _ rel kept], simp_all add: b(2))
next
  case (RelScheduler y)
  let ?sy = "release_exec env sy (RelScheduler y)"
  have "cleanup_ids_kept (rw_sched (sy_world sy)) (rw_sched (sy_world ?sy))"
    using sched_exec_cleanup_ids [of y] assms(2) RelScheduler by simp
  then have rel: "released_with_evidence ?sy" by (rule released_kept [of sy, rotated]) (use assms(1) in \<open>simp_all add: rel_inv_def\<close>)
  have kept: "store_kept env ?sy" by (rule store_kept_eval [OF rel_inv_store [OF assms(1)]]) simp_all
  show ?thesis unfolding RelScheduler by (rule rel_inv_step [OF assms(1) _ _ _ rel kept]) simp_all
qed (use assms(1) in \<open>simp_all only: call_inv answer_inv replaced_inv batch_inv\<close>)

interpretation release_ops: op_system "release_exec env" release_admissible "rel_inv env" for env
  by unfold_locales (rule release_exec_inv)

subsection \<open>The properties\<close>

definition start_system :: "evaluator \<Rightarrow> pd_config \<Rightarrow> store option \<Rightarrow> release_system" where
  "start_system e config st =
     \<lparr>sy_world = \<lparr>rw_eval = e, rw_sched = scheduler_init config, rw_store = st\<rparr>, sy_calls = [], sy_answers = [], sy_persisted = []\<rparr>"

definition opened :: "store_env \<Rightarrow> store \<Rightarrow> bool" where
  "opened env st \<longleftrightarrow> rs_fatal_error st = None \<and> (\<exists>mk w m ret content orphan. open_store env mk w m ret content orphan = Inr st)"

lemma start_inv:
  assumes "evaluator_init hm ac tc = Inr e" "\<forall>st. st0 = Some st \<longrightarrow> opened env st"
  shows "rel_inv env (start_system e config st0)"
proof -
  have "rl_endpoint_acks e = []" using assms(1) by (auto simp: evaluator_init_def split: if_splits)
  moreover have "any_fact.durable env st" if "st0 = Some st" for st
    using assms(2) that open_store_inv ready_durable unfolding opened_def by blast
  ultimately show ?thesis
    by (simp add: rel_inv_def start_system_def calls_ok_def acks_answered_def released_with_evidence_def store_kept_def scheduler_init_def)
qed

lemma decided_survives:
  assumes "decided_fact.durable env k r n st" "rs_fatal_error (restart env mk w st) = None"
  shows "dget (rs_records (restart env mk w st)) k = Some r \<or> n < rs_next_seal_sequence (restart env mk w st)"
  using decided_fact.durable_restart(1) [OF assms(1), of mk w] assms(2)
  by (auto simp: decided_fact.durable_def decided_fact.mem_def decided_def)

text \<open>The data of the instances: one decode instance, two quarantined leases, one released each way.\<close>

definition sample_evaluator :: evaluator where
  "sample_evaluator = \<lparr>rl_has_metrics = False, rl_metrics = [], rl_endpoint_acks = [], rl_active_operation_cap = 4,
     rl_terminal_snapshot_cap = 4, rl_active_endpoint = [], rl_completed_endpoint = [], rl_gate = False, rl_events = []\<rparr>"

definition sample_endpoint_ref :: endpoint_operation_ref where
  "sample_endpoint_ref = \<lparr>er_topology_generation = ''g'', er_owner_generation = ''o'', er_operation_seq = 1, er_target_instance = ''d0'',
     er_target_worker_epoch = ''e1'', er_operation_id = ''op1'', er_payload_digest = ''p''\<rparr>"

definition sample_plan :: cleanup_plan where
  "sample_plan = \<lparr>cp_cleanup_id = ''c1'', cp_operation_id = ''op1'', cp_lease_id = ''t1'',
     cp_predicates = [\<lparr>ps_name = ''decode'', ps_status = ''FENCED'', ps_endpoint_ref = sample_endpoint_ref, ps_resources_held = True\<rparr>],
     cp_endpoints = [\<lparr>fp_instance_id = ''d0'', fp_endpoint_refs = [sample_endpoint_ref], fp_resource_kinds = [''kv'']\<rparr>]\<rparr>"

definition sample_evidence :: replacement_evidence where
  "sample_evidence = \<lparr>ev_restart_run_id = ''run'', ev_old_topology_generation = ''g'', ev_new_topology_generation = ''h'',
     ev_old_termination_proof_digests = [''1'', ''2'', ''3'', ''4''], ev_fresh_resource_report_digests = [''1'', ''2'', ''3'', ''4''],
     ev_excluded_old_operation_digest = ''x'', ev_accepted = True, ev_decision_digest = ''dd''\<rparr>"

definition lease_setup :: "sched_op list" where
  "lease_setup = [Register ''d0'' ''decode'' 2 ''e1'' [], Reserve None ''d0'' ''r1'' ''op1'' ''t1'' 1, QuarantineSlot ''op1'',
     Reserve None ''d0'' ''r2'' ''op2'' ''t2'' 1, QuarantineSlot ''op2'']"

definition release_ops_sample :: "release_op list" where
  "release_ops_sample = map RelScheduler lease_setup @
     [RelCall 0 sample_plan, RelReplaced ''c2'' ''op2'' ''t2'' [''kv''] sample_evidence WriteOk, RelAnswer 0 (Inr [])]"

definition sample_system :: release_system where
  "sample_system = foldl (release_exec sample_env) (start_system sample_evaluator pd_config_default (Some sample_store)) release_ops_sample"

definition leased_world :: release_world where
  "leased_world = \<lparr>rw_eval = sample_evaluator, rw_sched = foldl sched_exec (scheduler_init pd_config_default) lease_setup,
     rw_store = Some sample_store\<rparr>"

lemma sample_evaluator_init: "evaluator_init False 4 4 = Inr sample_evaluator"
  by (simp add: evaluator_init_def sample_evaluator_def)

text \<open>
  C38. No slot is released for a cleanup without evidence.  In every interleaving of cleanup calls, endpoint
  answers, replacement decisions, failing writes, seals and other scheduler operations, a lease that
  carries a cleanup id has it from a plan whose predicates are terminal, which names every reference
  held, and all of whose endpoints have answered for that cleanup; or from a persisted decision that
  names this lease and that every later start of the store finds again, until its run is sealed.
\<close>

theorem slot_release_has_evidence:
  assumes "evaluator_init hm ac tc = Inr e" "\<forall>st. st0 = Some st \<longrightarrow> opened env st"
    "ok_run (release_exec env) release_admissible (start_system e config st0) ops"
    "sy = foldl (release_exec env) (start_system e config st0) ops"
    "dget (pd_slot_leases (rw_sched (sy_world sy))) k = Some l" "ls_release_cleanup_id l = Some c"
  shows "endpoint_evidence sy k l c \<or>
    (\<exists>r n st. (r, n) \<in> set (sy_persisted sy) \<and> rr_cleanup_id r = c \<and> rr_operation_id r = k \<and> rr_lease_id r = ls_lease_id l \<and>
      rw_store (sy_world sy) = Some st \<and>
      (\<forall>mk w. rs_fatal_error (restart env mk w st) = None \<longrightarrow>
         dget (rs_records (restart env mk w st)) (key_of r) = Some r \<or> n < rs_next_seal_sequence (restart env mk w st)))"
proof -
  have i: "rel_inv env sy" unfolding assms(4) by (rule release_ops.run_inv [OF assms(3) start_inv [OF assms(1,2)]])
  then have "endpoint_evidence sy k l c \<or> decision_evidence sy k l c" using assms(5,6) by (simp add: rel_inv_def released_with_evidence_def)
  then show ?thesis
  proof
    assume "decision_evidence sy k l c"
    then obtain p where p: "p \<in> set (sy_persisted sy)" "rr_cleanup_id (fst p) = c" "rr_operation_id (fst p) = k" "rr_lease_id (fst p) = ls_lease_id l"
      unfolding decision_evidence_def by blast
    with i obtain st where "rw_store (sy_world sy) = Some st" "decided_fact.durable env (key_of (fst p)) (fst p) (snd p) st"
      unfolding rel_inv_def store_kept_def by blast
    with p decided_survives show ?thesis by (metis prod.collapse)
  qed simp
qed

theorem slot_release_has_evidence_witness:
  "\<exists>l1 l2. dget (pd_slot_leases (rw_sched (sy_world sample_system))) ''op1'' = Some l1 \<and> ls_release_cleanup_id l1 = Some ''c1'' \<and>
     dget (pd_slot_leases (rw_sched (sy_world sample_system))) ''op2'' = Some l2 \<and> ls_release_cleanup_id l2 = Some ''c2'' \<and>
     (endpoint_evidence sample_system ''op2'' l2 ''c2'' \<or>
      (\<exists>r n st. (r, n) \<in> set (sy_persisted sample_system) \<and> rr_cleanup_id r = ''c2'' \<and> rw_store (sy_world sample_system) = Some st \<and>
        (\<forall>mk w. rs_fatal_error (restart sample_env mk w st) = None \<longrightarrow>
           dget (rs_records (restart sample_env mk w st)) (key_of r) = Some r \<or> n < rs_next_seal_sequence (restart sample_env mk w st))))"
proof -
  let ?leases = "pd_slot_leases (rw_sched (sy_world sample_system))"
  have o: "\<forall>st. Some sample_store = Some st \<longrightarrow> opened sample_env st" using sample_open unfolding opened_def by blast
  have run: "ok_run (release_exec sample_env) release_admissible (start_system sample_evaluator pd_config_default (Some sample_store)) release_ops_sample"
    by code_simp
  have "map_option ls_release_cleanup_id (dget ?leases ''op1'') = Some (Some ''c1'')" by code_simp
  then obtain l1 where l1: "dget ?leases ''op1'' = Some l1" "ls_release_cleanup_id l1 = Some ''c1''" by auto
  have "map_option ls_release_cleanup_id (dget ?leases ''op2'') = Some (Some ''c2'')" by code_simp
  then obtain l2 where l2: "dget ?leases ''op2'' = Some l2" "ls_release_cleanup_id l2 = Some ''c2''" by auto
  from slot_release_has_evidence [OF sample_evaluator_init o run sample_system_def l2] l1 l2 show ?thesis by blast
qed

lemma release_local_done:
  assumes "release_local_record s r b = (s1, Inr u)"
  shows "release_local_record s1 r True = (s1, Inr ())"
proof (cases "decode_slot_lease_of s (rr_operation_id r)")
  case None
  with assms show ?thesis by (auto simp: release_local_record_def split: if_splits)
next
  case (Some l)
  have "pd_slot_leases s1 = dput (pd_slot_leases s) (rr_operation_id r) (l\<lparr>ls_state := RELEASED, ls_release_cleanup_id := Some (rr_cleanup_id r)\<rparr>)"
    if "ls_state l = QUARANTINED" "ls_lease_id l = rr_lease_id r"
  proof -
    have "fst (release_quarantined_decode_slot s (rr_operation_id r) (Some (rr_lease_id r)) (Some (rr_cleanup_id r))) = s1"
      using assms Some that by (auto simp: release_local_record_def split: prod.splits sum.splits if_splits)
    with Some that show ?thesis by (auto simp: release_quarantined_decode_slot_def decode_slot_lease_of_def)
  qed
  with assms Some show ?thesis
    by (auto simp: release_local_record_def decode_slot_lease_of_def dict_simps split: if_splits)
qed

text \<open>
  C39. Releasing a slot after a replacement decision is idempotent: once a call has succeeded, the same call
  returns the same record again, whatever its writes would do, and changes neither the scheduler nor
  the store.
\<close>

theorem replacement_release_replay:
  assumes "release_whole_world_replaced env wr w c k l kinds ev = (w1, Inr r)"
  shows "\<exists>w2. release_whole_world_replaced env wr' w1 c k l kinds ev = (w2, Inr r) \<and>
    rw_sched w2 = rw_sched w1 \<and> rw_store w2 = rw_store w1"
  using assms
proof (cases rule: whole_world_cases)
  case (released r' b)
  obtain st where st: "rw_store w1 = Some st" "rs_fatal_error st = None" "dget (rs_records st) (key_of r') = Some r'"
    using released(2) unfolding holds_def by blast
  obtain s1 res where l: "release_local_record (rw_sched w) r' b = (s1, res)" by fastforce
  with released(5,6) have r: "r = r'" "rw_sched w1 = s1" "res = Inr ()" by (cases res; simp)+
  have "store_lookup env st r' (ev_old_topology_generation ev) = Inr (Some r')" using st by (simp add: store_lookup_def)
  with released(1) st r release_local_done [OF l [unfolded r(3)]] show ?thesis
    by (simp add: release_whole_world_replaced_def require_replacement_store_def Let_def)
qed simp_all

theorem replacement_release_replay_witness:
  "let w1 = fst (release_whole_world_replaced sample_env WriteOk leased_world ''c2'' ''op2'' ''t2'' [''kv''] sample_evidence) in
   \<exists>w2 r. release_whole_world_replaced sample_env OpenFailed w1 ''c2'' ''op2'' ''t2'' [''kv''] sample_evidence = (w2, Inr r) \<and>
     rw_sched w2 = rw_sched w1 \<and> rw_store w2 = rw_store w1"
proof -
  let ?p = "release_whole_world_replaced sample_env WriteOk leased_world ''c2'' ''op2'' ''t2'' [''kv''] sample_evidence"
  have "isl (snd ?p) = False" by code_simp
  then have "?p = (fst ?p, Inr (projr (snd ?p)))" by (metis prod.collapse sum.collapse(2))
  from replacement_release_replay [OF this, of OpenFailed] show ?thesis unfolding Let_def by blast
qed

lemma evict_oldest_drop: "\<exists>n. evict_oldest cap xs = drop n xs \<and> (0 < cap \<longrightarrow> n < length xs \<or> xs = [])"
proof (induction cap xs rule: evict_oldest.induct)
  case (2 cap x xs)
  show ?case
  proof (cases "int (length (x # xs)) > cap")
    case True
    with 2 obtain n where n: "evict_oldest cap xs = drop n xs" "0 < cap \<longrightarrow> n < length xs \<or> xs = []" by blast
    show ?thesis
    proof (cases xs)
      case Nil
      with True show ?thesis by (intro exI [of _ 1]) simp
    qed (use True n in \<open>intro exI [of _ "Suc n"], auto\<close>)
  qed (intro exI [of _ 0], simp)
qed simp

lemma newest_kept:
  assumes "0 < cap"
  shows "dget (evict_oldest cap (move_to_end (dput d c v) c)) c = Some v"
proof -
  let ?xs = "dpop (dput d c v) c @ [(c, v)]"
  have m: "move_to_end (dput d c v) c = ?xs" by (simp add: move_to_end_def dict_simps)
  from evict_oldest_drop [of cap ?xs] assms obtain n where n: "evict_oldest cap ?xs = drop n ?xs" "n \<le> length (dpop (dput d c v) c)" by auto
  have "c \<notin> fst ` set (dpop (dput d c v) c)" by (auto simp: set_dpop)
  then have "c \<notin> fst ` set (drop n (dpop (dput d c v) c))" by (meson image_mono set_drop_subset subsetD)
  then have "dget (drop n (dpop (dput d c v) c)) c = None" by (simp add: map_of_eq_None_iff)
  with n show ?thesis unfolding m by (simp add: map_add_def)
qed

lemma dget_move_to_end: "dget (move_to_end d c) k = dget d k"
  by (cases "dget d c") (auto simp: move_to_end_def dict_simps map_add_def split: option.split)

lemma finalize_frame:
  "finalize_endpoints remote e plan ps results = (e1, res) \<Longrightarrow> rl_terminal_snapshot_cap e1 = rl_terminal_snapshot_cap e"
  by (induction remote e plan ps results rule: finalize_endpoints.induct)
    (auto simp: ack_endpoint_def split: option.splits sum.splits)

text \<open>
  C40. A finished cleanup is answered from memory: once \<open>release_endpoint_terminal\<close> has returned the snapshots of the
  endpoints, the same call returns the same snapshots without calling any endpoint and without touching
  the scheduler again.
\<close>

theorem endpoint_release_replay:
  assumes "release_endpoint_terminal remote e s plan = ((e1, s1), Inr (Some results))" "0 < rl_terminal_snapshot_cap e"
  shows "\<exists>e2. release_endpoint_terminal remote' e1 s1 plan = ((e2, s1), Inr (Some results))"
proof -
  obtain e0 st where st: "start_release e plan = (e0, st)" by fastforce
  have "dget (rl_completed_endpoint e1) (cp_cleanup_id plan) = Some results"
  proof (cases "st = Inr Finalizing")
    case False
    then show ?thesis using assms(1) st
      by (auto simp: release_endpoint_terminal_def start_release_def dget_move_to_end split: sum.splits release_start.splits option.splits if_splits)
  next
    case True
    have cap: "0 < rl_terminal_snapshot_cap e0" using st True assms(2)
      by (auto simp: start_release_def split: option.splits if_splits)
    obtain e2 rs where f: "finalize_endpoints remote e0 plan (cp_endpoints plan) [] = (e2, rs)" by fastforce
    from assms(1) st True f obtain rs' where "rs = Inr rs'" "map_prod id (map_sum id Some) (finish_release e2 s plan rs') = ((e1, s1), Inr (Some results))"
      by (auto simp: release_endpoint_terminal_def split: sum.splits)
    then have "finish_release e2 s plan rs' = ((e1, s1), Inr results)"
      by (cases "finish_release e2 s plan rs'"; cases "snd (finish_release e2 s plan rs')") auto
    then show ?thesis using cap finalize_frame [OF f]
      by (auto simp: finish_release_def Let_def newest_kept split: prod.splits sum.splits)
  qed
  then show ?thesis by (simp add: release_endpoint_terminal_def start_release_def)
qed

theorem endpoint_release_replay_witness:
  "let p = release_endpoint_terminal (\<lambda>_ _. Inr []) sample_evaluator (rw_sched leased_world) sample_plan in
   snd p = Inr (Some [[]]) \<and>
   (\<exists>e2. release_endpoint_terminal (\<lambda>_ _. Inl ''down'') (fst (fst p)) (snd (fst p)) sample_plan = ((e2, snd (fst p)), Inr (Some [[]])))"
proof -
  let ?p = "release_endpoint_terminal (\<lambda>_ _. Inr []) sample_evaluator (rw_sched leased_world) sample_plan"
  have r: "snd ?p = Inr (Some [[]])" by code_simp
  then have "?p = ((fst (fst ?p), snd (fst ?p)), Inr (Some [[]]))" by (metis prod.collapse)
  from endpoint_release_replay [OF this] r show ?thesis unfolding Let_def by (simp add: sample_evaluator_def)
qed

end
