(* ===== verification/Prefix_Reconciler.thy ===== *)
theory Prefix_Reconciler
  imports Prefix_Index Json Worker_Registry
begin

text \<open>
  \<^verbatim>\<open>prism_serve/router/reconciler.py\<close>: the loop that keeps the prefix index in step with the workers.  It
  installs full reports, applies acknowledged event batches, and drops what it cannot be sure of.  The
  answers of the workers to the calls of one step are an argument (\<open>reco_answers\<close>); an answer can be an
  exception, and whether that is a \<open>ValueError\<close> decides if the step recovers or the loop's handler does.
  The theorems show that after every step the index holds locations only of the incarnations the
  reconciler has a cursor for, and what \<open>world_ready\<close> promises to the router.
\<close>

subsection \<open>Reports and publications\<close>

record prefix_report =
  rp_instance_id :: string
  rp_instance_epoch :: string
  rp_snapshot_seq_no :: int
  rp_locations :: "cache_location list"

record world_report_evidence =
  we_instance_id :: string
  we_instance_epoch :: string
  we_snapshot_seq_no :: int
  we_location_count :: nat
  we_content_digest :: string

record world_publication =
  wp_consumer_id :: string
  wp_generation :: string
  wp_reports :: "world_report_evidence list"

definition published_epochs :: "world_publication \<Rightarrow> (string, string) dict" where
  "published_epochs p = foldl (\<lambda>d v. dput d (we_instance_id v) (we_instance_epoch v)) [] (wp_reports p)"

definition publication_matches :: "world_publication \<Rightarrow> (string, string) dict \<Rightarrow> bool" where
  "publication_matches p expected_epochs \<longleftrightarrow> dict_eq (published_epochs p) expected_epochs"

text \<open>An exception of a worker call: is it a \<open>ValueError\<close> (or \<open>FullReportRequired\<close>), and its text.\<close>

type_synonym rpc_failure = "bool \<times> string"

datatype reco_error =
  EmptyWorld
| AnotherInstance
| ReportEpochMismatch
| DuplicateReport
| IndexFailed prefix_error
| RpcFailed rpc_failure
| MissingCount
| NotInWorld

record reco_answers =
  an_full :: "string \<Rightarrow> rpc_failure + prefix_report"
  an_counts :: "(rpc_failure + (string, int) dict) option"
  an_peek :: "rpc_failure + prefix_event list"
  an_ack :: "rpc_failure + unit"
  an_token :: string

text \<open>The canonical text of a JSON value and its hash, and the order in which a set is visited.\<close>

record reco_env =
  re_text :: "json \<Rightarrow> string"
  re_sha :: "json \<Rightarrow> string"
  re_keys :: "prefix_key set \<Rightarrow> prefix_key list"

record reconciler =
  rc_index :: prefix_index
  rc_consumer_id :: string
  rc_generation :: string
  rc_has_metrics :: bool
  rc_metrics :: "metric list"
  rc_owners :: "(string, string \<times> int) dict"
  rc_resource_counts :: "(string, (string, int) dict) dict"
  rc_expected_epochs :: "(string, string) dict"
  rc_world_publication :: "world_publication option"

definition reconciler_init :: "prefix_index \<Rightarrow> string \<Rightarrow> string \<Rightarrow> bool \<Rightarrow> reconciler" where
  "reconciler_init ix consumer_id generation has_metrics =
     \<lparr>rc_index = ix, rc_consumer_id = consumer_id, rc_generation = generation, rc_has_metrics = has_metrics, rc_metrics = [],
      rc_owners = [], rc_resource_counts = [], rc_expected_epochs = [], rc_world_publication = None\<rparr>"

definition rc_note :: "reconciler \<Rightarrow> metric list \<Rightarrow> reconciler" where
  "rc_note r ms = (if rc_has_metrics r then r\<lparr>rc_metrics := rc_metrics r @ ms\<rparr> else r)"

definition location_value :: "cache_location \<Rightarrow> json" where
  "location_value l = JObj
     [(''instance_id'', JStr (cl_instance_id l)), (''instance_epoch'', JStr (cl_instance_epoch l)),
      (''namespace'', JStr (cl_namespace l)), (''kv_compatibility_id'', JStr (cl_kv_compatibility_id l)),
      (''request_context_digest'', JStr (cl_request_context_digest l)), (''chain_hash'', JInt (cl_chain_hash l)),
      (''block_index'', JInt (cl_block_index l)), (''block_id'', JInt (cl_block_id l)),
      (''prefix_tokens'', JInt (cl_prefix_tokens l))]"

definition report_digest :: "reco_env \<Rightarrow> prefix_report \<Rightarrow> string" where
  "report_digest env p = digest (re_sha env) (JObj
     [(''instance_id'', JStr (rp_instance_id p)), (''instance_epoch'', JStr (rp_instance_epoch p)),
      (''snapshot_seq_no'', JInt (rp_snapshot_seq_no p)),
      (''locations'', JArr (sort_key (re_text env) (map location_value (rp_locations p))))])"

definition owner_epochs :: "reconciler \<Rightarrow> (string, string) dict" where
  "owner_epochs r = map (\<lambda>(i, v). (i, fst v)) (rc_owners r)"

definition world_ready :: "reconciler \<Rightarrow> (string, string) dict \<Rightarrow> bool" where
  "world_ready r expected_epochs \<longleftrightarrow>
     dict_eq (owner_epochs r) expected_epochs \<and>
     (case rc_world_publication r of None \<Rightarrow> False | Some p \<Rightarrow> publication_matches p expected_epochs)"

subsection \<open>Rebuilding\<close>

fun gather_reports :: "(string \<Rightarrow> rpc_failure + prefix_report) \<Rightarrow> string list \<Rightarrow> reco_error + prefix_report list" where
  "gather_reports full [] = Inr []"
| "gather_reports full (i # is) =
     (case full i of
        Inl x \<Rightarrow> Inl (RpcFailed x)
      | Inr p \<Rightarrow> (case gather_reports full is of Inl x \<Rightarrow> Inl x | Inr ps \<Rightarrow> Inr (p # ps)))"

fun check_reports ::
  "(string, string) dict \<Rightarrow> (string \<times> prefix_report) list \<Rightarrow> (string, prefix_report) dict \<Rightarrow> reco_error + (string, prefix_report) dict" where
  "check_reports expected [] by_instance = Inr by_instance"
| "check_reports expected ((requested, p) # ps) by_instance =
     (if rp_instance_id p \<noteq> requested then Inl AnotherInstance
      else if dget expected requested \<noteq> Some (rp_instance_epoch p) then Inl ReportEpochMismatch
      else if dhas by_instance (rp_instance_id p) then Inl DuplicateReport
      else check_reports expected ps (dput by_instance (rp_instance_id p) p))"

definition evidence_of :: "reco_env \<Rightarrow> prefix_report \<Rightarrow> world_report_evidence" where
  "evidence_of env p = \<lparr>we_instance_id = rp_instance_id p, we_instance_epoch = rp_instance_epoch p,
     we_snapshot_seq_no = rp_snapshot_seq_no p, we_location_count = length (rp_locations p),
     we_content_digest = report_digest env p\<rparr>"

definition world_reports :: "(string, prefix_report) dict \<Rightarrow> (owner \<times> int \<times> cache_location list) list" where
  "world_reports by_instance =
     map (\<lambda>p. ((rp_instance_id p, rp_instance_epoch p), rp_snapshot_seq_no p, rp_locations p)) (dvals by_instance)"

definition rebuild_world ::
  "reco_env \<Rightarrow> reconciler \<Rightarrow> reco_answers \<Rightarrow> (string, string) dict \<Rightarrow> (reconciler, reco_error, world_publication) outcome" where
  "rebuild_world env r ans expected_epochs =
     (if expected_epochs = [] then (r, Inl EmptyWorld)
      else let instances = sort (dkeys expected_epochs)
        in case gather_reports (an_full ans) instances of
             Inl x \<Rightarrow> (r, Inl x)
           | Inr reports \<Rightarrow>
               (case check_reports expected_epochs (zip instances reports) [] of
                  Inl x \<Rightarrow> (r, Inl x)
                | Inr by_instance \<Rightarrow>
                    (case install_world_full_reports (rc_index r) (world_reports by_instance) (set expected_epochs) of
                       (ix, Inl x) \<Rightarrow> (r\<lparr>rc_index := ix\<rparr>, Inl (IndexFailed x))
                     | (ix, Inr _) \<Rightarrow>
                         let publication = \<lparr>wp_consumer_id = rc_consumer_id r, wp_generation = rc_generation r,
                               wp_reports = map (\<lambda>i. evidence_of env (the (dget by_instance i))) instances\<rparr>;
                             r1 = rc_note (r\<lparr>rc_index := ix,
                               rc_owners := map (\<lambda>(i, p). (i, rp_instance_epoch p, rp_snapshot_seq_no p)) by_instance,
                               rc_expected_epochs := expected_epochs\<rparr>)
                               (map (\<lambda>_. Increment ''prefix_full_report_total'' 1 [(''reason'', ''startup_world'')]) reports)
                         in (r1\<lparr>rc_world_publication := Some publication\<rparr>, Inr publication))))"

definition rebuild :: "reco_env \<Rightarrow> reconciler \<Rightarrow> reco_answers \<Rightarrow> string \<Rightarrow> (reconciler, reco_error, int) outcome" where
  "rebuild env r ans instance_id =
     (case an_full ans instance_id of
        Inl x \<Rightarrow> (r, Inl (RpcFailed x))
      | Inr p \<Rightarrow>
          if rp_instance_id p \<noteq> instance_id then (r, Inl AnotherInstance)
          else case install_full_report (re_keys env) (remove_instance (re_keys env) (rc_index r) instance_id)
                      (rp_instance_id p, rp_instance_epoch p) (rp_snapshot_seq_no p) (rp_locations p) of
            (ix, Inl x) \<Rightarrow> (r\<lparr>rc_index := ix\<rparr>, Inl (IndexFailed x))
          | (ix, Inr _) \<Rightarrow>
              (rc_note (r\<lparr>rc_index := ix,
                  rc_owners := dput (rc_owners r) instance_id (rp_instance_epoch p, rp_snapshot_seq_no p),
                  rc_expected_epochs := dput (rc_expected_epochs r) instance_id (rp_instance_epoch p)\<rparr>)
                [Increment ''prefix_full_report_total'' 1 [(''reason'', ''startup_or_rebuild'')]],
               Inr (rp_snapshot_seq_no p)))"

subsection \<open>One step of the loop\<close>

definition published_seq :: "world_publication \<Rightarrow> string \<Rightarrow> reco_error + int" where
  "published_seq p instance_id =
     (case find (\<lambda>v. we_instance_id v = instance_id) (wp_reports p) of
        None \<Rightarrow> Inl NotInWorld | Some v \<Rightarrow> Inr (we_snapshot_seq_no v))"

definition rebuild_world_for ::
  "reco_env \<Rightarrow> reconciler \<Rightarrow> reco_answers \<Rightarrow> (string, string) dict \<Rightarrow> string \<Rightarrow> (reconciler, reco_error, int) outcome" where
  "rebuild_world_for env r ans expected_epochs instance_id =
     (case rebuild_world env r ans expected_epochs of
        (r1, Inl x) \<Rightarrow> (r1, Inl x)
      | (r1, Inr p) \<Rightarrow> (r1, published_seq p instance_id))"

fun sum_counts :: "string \<Rightarrow> (string, int) dict list \<Rightarrow> int option" where
  "sum_counts key [] = Some 0"
| "sum_counts key (c # cs) =
     (case (dget c key, sum_counts key cs) of (Some n, Some m) \<Rightarrow> Some (n + m) | _ \<Rightarrow> None)"

text \<open>The gauges of the pins and pending allocations, when there are metrics and the call exists.\<close>

definition note_counts :: "reconciler \<Rightarrow> reco_answers \<Rightarrow> string \<Rightarrow> (reconciler, reco_error, unit) outcome" where
  "note_counts r ans instance_id =
     (if \<not> rc_has_metrics r then (r, Inr ())
      else case an_counts ans of
        None \<Rightarrow> (r, Inr ())
      | Some (Inl x) \<Rightarrow> (r, Inl (RpcFailed x))
      | Some (Inr counts) \<Rightarrow>
          (let r1 = r\<lparr>rc_resource_counts := dput (rc_resource_counts r) instance_id counts\<rparr>;
               all = dvals (rc_resource_counts r1)
           in case sum_counts ''transfer_pins'' all of
                None \<Rightarrow> (r1, Inl MissingCount)
              | Some pins \<Rightarrow>
                  (let r2 = rc_note r1 [Gauge ''prefix_transfer_pins'' (of_int pins) []]
                   in case sum_counts ''pending_allocations'' all of
                        None \<Rightarrow> (r2, Inl MissingCount)
                      | Some pending \<Rightarrow> (rc_note r2 [Gauge ''prefix_pending_allocations'' (of_int pending) []], Inr ()))))"

text \<open>The body of the \<open>try\<close>: peek, apply, acknowledge, and only then advance the cursor.\<close>

definition sync_events :: "reconciler \<Rightarrow> reco_answers \<Rightarrow> string \<Rightarrow> string \<Rightarrow> (reconciler, reco_error, int) outcome" where
  "sync_events r ans instance_id epoch =
     (case an_peek ans of
        Inl x \<Rightarrow> (r, Inl (RpcFailed x))
      | Inr events \<Rightarrow>
          (case apply_events (rc_index r) (instance_id, epoch) events of
             (ix, Inl x) \<Rightarrow> (r\<lparr>rc_index := ix\<rparr>, Inl (IndexFailed x))
           | (ix, Inr applied) \<Rightarrow>
               (case an_ack ans of
                  Inl x \<Rightarrow> (r\<lparr>rc_index := ix\<rparr>, Inl (RpcFailed x))
                | Inr _ \<Rightarrow>
                    (r\<lparr>rc_index := ix, rc_owners := dput (rc_owners r) instance_id (epoch, applied)\<rparr>, Inr applied))))"

definition caught :: "reco_error \<Rightarrow> bool" where
  "caught x = (case x of IndexFailed _ \<Rightarrow> True | RpcFailed f \<Rightarrow> fst f | _ \<Rightarrow> False)"

definition recover_gap :: "reco_env \<Rightarrow> reconciler \<Rightarrow> reco_answers \<Rightarrow> string \<Rightarrow> (reconciler, reco_error, int) outcome" where
  "recover_gap env r ans instance_id =
     (let expected = (if rc_expected_epochs r \<noteq> [] then rc_expected_epochs r else owner_epochs r);
          gap = [Increment ''prefix_event_gap_total'' 1 [(''reason'', ''gap_or_epoch'')]]
      in if length expected > 1
         then rebuild_world_for env
                (rc_note (r\<lparr>rc_index := clear (rc_index r), rc_owners := [], rc_world_publication := None,
                            rc_generation := an_token ans\<rparr>) gap) ans expected instance_id
         else rebuild env
                (rc_note (r\<lparr>rc_index := remove_instance (re_keys env) (rc_index r) instance_id,
                            rc_owners := dpop (rc_owners r) instance_id, rc_world_publication := None,
                            rc_generation := an_token ans\<rparr>) gap) ans instance_id)"

definition sync_once :: "reco_env \<Rightarrow> reconciler \<Rightarrow> reco_answers \<Rightarrow> string \<Rightarrow> (reconciler, reco_error, int) outcome" where
  "sync_once env r ans instance_id =
     (if rc_world_publication r = None \<and> length (rc_expected_epochs r) > 1
      then rebuild_world_for env r ans (rc_expected_epochs r) instance_id
      else case note_counts r ans instance_id of
        (r1, Inl x) \<Rightarrow> (r1, Inl x)
      | (r1, Inr _) \<Rightarrow>
          (case dget (rc_owners r1) instance_id of
             None \<Rightarrow> rebuild env r1 ans instance_id
           | Some (epoch, cursor) \<Rightarrow>
               (case sync_events r1 ans instance_id epoch of
                  (r2, Inr applied) \<Rightarrow> (r2, Inr applied)
                | (r2, Inl x) \<Rightarrow> if caught x then recover_gap env r2 ans instance_id else (r2, Inl x))))"

text \<open>The body of \<open>run\<close> for one instance, with its handler.\<close>

definition drop_uncertain :: "reco_env \<Rightarrow> reconciler \<Rightarrow> string \<Rightarrow> reconciler" where
  "drop_uncertain env r instance_id =
     (if length (rc_expected_epochs r) > 1
      then r\<lparr>rc_index := clear (rc_index r), rc_owners := [], rc_world_publication := None\<rparr>
      else r\<lparr>rc_index := remove_instance (re_keys env) (rc_index r) instance_id, rc_owners := dpop (rc_owners r) instance_id\<rparr>)"

definition run_step :: "reco_env \<Rightarrow> reconciler \<Rightarrow> reco_answers \<Rightarrow> string \<Rightarrow> reconciler" where
  "run_step env r ans instance_id =
     (case sync_once env r ans instance_id of
        (r1, Inr _) \<Rightarrow> r1
      | (r1, Inl _) \<Rightarrow> drop_uncertain env r1 instance_id)"

definition run_round :: "reco_env \<Rightarrow> reconciler \<Rightarrow> (string \<times> reco_answers) list \<Rightarrow> reconciler" where
  "run_round env r instances = foldl (\<lambda>r (i, ans). run_step env r ans i) r instances"

subsection \<open>What the cursors cover\<close>

text \<open>
  An instance is covered when the index holds only locations of the incarnation in the owner table, and
  the cursor of the table is the cursor of the index.
\<close>

definition covers_at :: "prefix_spec \<Rightarrow> (string, string \<times> int) dict \<Rightarrow> string \<Rightarrow> bool" where
  "covers_at sp owners i \<longleftrightarrow>
     (\<forall>l \<in> ps_locs sp. cl_instance_id l = i \<longrightarrow> (\<exists>c. dget owners i = Some (cl_instance_epoch l, c))) \<and>
     (\<forall>e c. dget owners i = Some (e, c) \<longrightarrow> ps_cursor sp (i, e) = Some c)"

definition covered_but :: "string set \<Rightarrow> reconciler \<Rightarrow> bool" where
  "covered_but S r \<longleftrightarrow> px_inv (rc_index r) \<and> wf_dict (rc_owners r) \<and>
     (\<forall>i. i \<notin> S \<longrightarrow> covers_at (prefix_abs (rc_index r)) (rc_owners r) i)"

text \<open>A publication belongs to the current generation.\<close>

definition published_now :: "reconciler \<Rightarrow> bool" where
  "published_now r = (case rc_world_publication r of
     None \<Rightarrow> True | Some p \<Rightarrow> wp_consumer_id p = rc_consumer_id r \<and> wp_generation p = rc_generation r)"

definition reco_inv :: "reconciler \<Rightarrow> bool" where
  "reco_inv r \<longleftrightarrow> covered_but {} r \<and> published_now r"

lemma covers_at_cong:
  assumes "covers_at sp owners j"
    and "\<And>l. l \<in> ps_locs sp' \<Longrightarrow> cl_instance_id l = j \<Longrightarrow> l \<in> ps_locs sp"
    and "\<And>e. ps_cursor sp' (j, e) = ps_cursor sp (j, e)" and "dget owners' j = dget owners j"
  shows "covers_at sp' owners' j"
  using assms by (auto simp: covers_at_def)

lemma abs_step:
  assumes "px_inv ix" "enumerates keys"
  shows "px_inv (px_exec keys ix op)" "prefix_abs (px_exec keys ix op) = spec_exec (prefix_abs ix) op"
  using simulates_step [of ix "prefix_abs ix" keys op] assms by (simp_all add: simulates_iff)

lemma spec_events_frame:
  "spec_events sp w n es = (sp', r) \<Longrightarrow>
     ps_locs sp' \<subseteq> ps_locs sp \<union> {l. owner_of l = w} \<and> ps_cursor sp' = ps_cursor sp"
proof (induction sp w n es rule: spec_events.induct)
  case (2 sp owner cursor e es)
  then show ?case by (auto split: if_splits)
qed simp

lemma spec_apply_frame:
  assumes "spec_apply sp w es = (sp', r)"
  shows "ps_locs sp' \<subseteq> ps_locs sp \<union> {l. owner_of l = w}"
    "ps_cursor sp' = (case r of Inl _ \<Rightarrow> ps_cursor sp | Inr n \<Rightarrow> (ps_cursor sp)(w \<mapsto> n))"
  using assms spec_events_frame [of sp w "case ps_cursor sp w of None \<Rightarrow> 0 | Some n \<Rightarrow> n" es]
  by (auto simp: spec_apply_def split: prod.splits sum.splits)

lemma apply_events_covers:
  assumes "px_inv ix" "apply_events ix (i, e) es = (h, r)"
  shows "px_inv h" "j \<noteq> i \<Longrightarrow> covers_at (prefix_abs ix) owners j \<Longrightarrow> dget owners' j = dget owners j \<Longrightarrow> covers_at (prefix_abs h) owners' j"
    "r = Inr n \<Longrightarrow> dget owners i = Some (e, c) \<Longrightarrow> covers_at (prefix_abs ix) owners i \<Longrightarrow>
       covers_at (prefix_abs h) (dput owners i (e, n)) i"
proof -
  have "simulates ix (prefix_abs ix)" using assms(1) by (simp add: simulates_iff)
  from simulates_apply [OF this, of "(i, e)" es] assms(2) have
    h: "px_inv h" "spec_apply (prefix_abs ix) (i, e) es = (prefix_abs h, r)" by (auto simp: simulates_iff)
  note f = spec_apply_frame [OF h(2)]
  show "px_inv h" by (rule h(1))
  show "covers_at (prefix_abs h) owners' j" if "j \<noteq> i" "covers_at (prefix_abs ix) owners j" "dget owners' j = dget owners j"
    by (rule covers_at_cong [OF that(2)]) (use f that in \<open>auto simp: owner_of_def split: sum.splits\<close>)
  show "covers_at (prefix_abs h) (dput owners i (e, n)) i"
    if "r = Inr n" "dget owners i = Some (e, c)" "covers_at (prefix_abs ix) owners i"
    using f that by (auto simp: covers_at_def owner_of_def dict_simps subset_iff)
qed

lemma install_world_abs:
  assumes "px_inv ix" "install_world_full_reports ix rs owners = (h, r)"
  shows "px_inv h"
    "r = Inr () \<Longrightarrow> reports_ok rs \<and> prefix_abs h = \<lparr>ps_locs = report_locs rs, ps_known = owners, ps_cursor = report_cursors rs\<rparr>"
    "r = Inl x \<Longrightarrow> h = ix"
proof -
  have s: "simulates ix (prefix_abs ix)" using assms(1) by (simp add: simulates_iff)
  from simulates_world [OF s, of rs owners] assms(2)
  have h: "px_inv h" "prefix_abs h = spec_exec (prefix_abs ix) (WorldReports rs owners)" by (simp_all add: simulates_iff)
  show "px_inv h" by (rule h(1))
  show "r = Inl x \<Longrightarrow> h = ix"
    using assms(2) by (auto simp: install_world_full_reports_def split: sum.splits if_splits)
  assume r: "r = Inr ()"
  let ?c = "spec_exec (prefix_abs ix) ClearIndex"
  have ok: "stageable (ps_cursor ?c) rs \<longleftrightarrow> reports_ok rs" by (simp add: stageable_iff reports_ok_def)
  from assms(2) r have st: "stage_reports (clear ix) rs = Inr h" "set (dkeys (px_last_seq h)) = owners"
    by (auto simp: install_world_full_reports_def split: sum.splits if_splits)
  from stage_simulates [OF simulates_clear [of ix "prefix_abs ix"], of rs] st(1)
  have k: "reports_ok rs" "simulates h \<lparr>ps_locs = report_locs rs, ps_known = fst ` set rs,
        ps_cursor = staged_cursors (ps_cursor ?c) rs\<rparr>" unfolding ok by auto
  have d: "distinct (map fst rs)" using k(1) by (simp add: reports_ok_def)
  have c: "staged_cursors (ps_cursor ?c) rs = report_cursors rs"
    by (rule ext) (simp add: staged_cursors_at [OF d] split: option.split)
  have "dom (report_cursors rs) = fst ` set rs"
    by (force simp: report_cursors_def dom_map_of_conv_image_fst)
  moreover have "dget (px_last_seq h) = report_cursors rs" using k(2) unfolding c by (simp add: simulates_def)
  ultimately have "fst ` set rs = owners" using st(2) by (metis dom_map_of_conv_image_fst set_map)
  with k c show "reports_ok rs \<and> prefix_abs h = \<lparr>ps_locs = report_locs rs, ps_known = owners, ps_cursor = report_cursors rs\<rparr>"
    by (simp add: simulates_iff)
qed

subsection \<open>Every step keeps the cover\<close>

lemma rc_note_fields [simp]:
  "rc_index (rc_note r ms) = rc_index r" "rc_owners (rc_note r ms) = rc_owners r"
  "rc_world_publication (rc_note r ms) = rc_world_publication r" "rc_generation (rc_note r ms) = rc_generation r"
  "rc_consumer_id (rc_note r ms) = rc_consumer_id r" "rc_expected_epochs (rc_note r ms) = rc_expected_epochs r"
  by (simp_all add: rc_note_def)

lemma covered_but_mono: "covered_but S r \<Longrightarrow> S \<subseteq> T \<Longrightarrow> covered_but T r"
  by (auto simp: covered_but_def)

lemma same_cover:
  "rc_index r' = rc_index r \<Longrightarrow> rc_owners r' = rc_owners r \<Longrightarrow> covered_but S r' = covered_but S r"
  by (simp add: covered_but_def)

lemma same_publication:
  "rc_world_publication r' = rc_world_publication r \<Longrightarrow> rc_generation r' = rc_generation r \<Longrightarrow>
     rc_consumer_id r' = rc_consumer_id r \<Longrightarrow> published_now r' = published_now r"
  by (simp add: published_now_def split: option.split)

lemma publication_frame [simp]:
  "published_now (r\<lparr>rc_index := ix\<rparr>) = published_now r" "published_now (r\<lparr>rc_owners := d\<rparr>) = published_now r"
  "published_now (r\<lparr>rc_expected_epochs := d'\<rparr>) = published_now r" "published_now (r\<lparr>rc_resource_counts := d''\<rparr>) = published_now r"
  "published_now (rc_note r ms) = published_now r"
  by (rule same_publication; simp)+

lemma check_reports_sound:
  assumes "check_reports expected ps acc = Inr by_instance" "wf_dict acc"
    "\<forall>(i, p) \<in> set acc. rp_instance_id p = i \<and> dget expected i = Some (rp_instance_epoch p)"
  shows "wf_dict by_instance \<and>
    (\<forall>(i, p) \<in> set by_instance. rp_instance_id p = i \<and> dget expected i = Some (rp_instance_epoch p))"
  using assms
proof (induction expected ps acc rule: check_reports.induct)
  case (2 expected requested p ps acc)
  then have ok: "rp_instance_id p = requested" "dget expected requested = Some (rp_instance_epoch p)"
    and rest: "check_reports expected ps (dput acc (rp_instance_id p) p) = Inr by_instance"
    by (auto split: if_splits)
  have "\<forall>(i, q) \<in> set (dput acc (rp_instance_id p) p). rp_instance_id q = i \<and> dget expected i = Some (rp_instance_epoch q)"
    using 2(4) ok set_dput_subset [of "rp_instance_id p" p acc] by auto
  with 2 ok rest show ?case by (auto split: if_splits)
qed simp

definition world_owners :: "(string, prefix_report) dict \<Rightarrow> (string, string \<times> int) dict" where
  "world_owners by_instance = map (\<lambda>(i, p). (i, rp_instance_epoch p, rp_snapshot_seq_no p)) by_instance"

lemma world_owners_get:
  "dget (world_owners d) i = map_option (\<lambda>p. (rp_instance_epoch p, rp_snapshot_seq_no p)) (dget d i)"
  by (induction d) (auto simp: world_owners_def)

lemma world_owners_wf: "wf_dict (world_owners d) \<longleftrightarrow> wf_dict d"
  by (simp add: world_owners_def comp_def case_prod_beta)

lemma world_reports_mem:
  "(i, p) \<in> set d \<Longrightarrow> ((rp_instance_id p, rp_instance_epoch p), rp_snapshot_seq_no p, rp_locations p) \<in> set (world_reports d)"
  unfolding world_reports_def by (auto intro!: image_eqI [where x = "(i, p)"])

lemma reports_okD: "reports_ok rs \<Longrightarrow> (w, n, ls) \<in> set rs \<Longrightarrow> owned w ls = ls"
  unfolding reports_ok_def by blast

lemma owned_owner: "owned w ls = ls \<Longrightarrow> l \<in> set ls \<Longrightarrow> owner_of l = w"
  unfolding owned_def by (metis set_takeWhileD)

lemma report_cursors_get:
  assumes "reports_ok rs" "(w, n, ls) \<in> set rs"
  shows "report_cursors rs w = Some n"
proof -
  have "distinct (map fst (map (\<lambda>(w, n, ls). (w, n)) rs))"
    using assms(1) by (simp add: reports_ok_def comp_def case_prod_beta)
  moreover have "(w, n) \<in> set (map (\<lambda>(w, n, ls). (w, n)) rs)"
    unfolding set_map by (rule image_eqI [OF _ assms(2)]) simp
  ultimately show ?thesis unfolding report_cursors_def by (rule map_of_is_SomeI)
qed

lemma world_covers:
  assumes wf: "wf_dict d" and ids: "\<forall>(i, p) \<in> set d. rp_instance_id p = i" and ok: "reports_ok (world_reports d)"
  shows "covers_at \<lparr>ps_locs = report_locs (world_reports d), ps_known = K, ps_cursor = report_cursors (world_reports d)\<rparr>
    (world_owners d) j"
  unfolding covers_at_def
proof (intro conjI ballI impI allI)
  fix l
  assume "l \<in> ps_locs \<lparr>ps_locs = report_locs (world_reports d), ps_known = K, ps_cursor = report_cursors (world_reports d)\<rparr>"
    and j: "cl_instance_id l = j"
  then obtain i p where p: "(i, p) \<in> set d" "l \<in> set (rp_locations p)"
    by (auto simp: report_locs_def world_reports_def)
  have "owner_of l = (rp_instance_id p, rp_instance_epoch p)"
    by (rule owned_owner [OF reports_okD [OF ok world_reports_mem [OF p(1)]] p(2)])
  moreover have "rp_instance_id p = i" using p(1) ids by blast
  ultimately have "cl_instance_epoch l = rp_instance_epoch p" "(j, p) \<in> set d"
    using p(1) j by (simp_all add: owner_of_def)
  with wf show "\<exists>c. dget (world_owners d) j = Some (cl_instance_epoch l, c)"
    by (auto simp: world_owners_get dict_items)
next
  fix e c
  assume "dget (world_owners d) j = Some (e, c)"
  then obtain p where p: "(j, p) \<in> set d" "e = rp_instance_epoch p" "c = rp_snapshot_seq_no p"
    using wf by (auto simp: world_owners_get dict_items)
  have "rp_instance_id p = j" using p(1) ids by blast
  with report_cursors_get [OF ok world_reports_mem [OF p(1)]] p(2,3)
  show "ps_cursor \<lparr>ps_locs = report_locs (world_reports d), ps_known = K, ps_cursor = report_cursors (world_reports d)\<rparr> (j, e) = Some c"
    by simp
qed

lemma rebuild_world_keeps:
  assumes "covered_but S r" "published_now r" "rebuild_world env r ans expected = (r', res)"
  shows "covered_but (if isl res then S else {}) r' \<and> published_now r'"
proof -
  have inv: "px_inv (rc_index r)" using assms(1) by (simp add: covered_but_def)
  have same: ?thesis if "r' = r" "isl res" using that assms(1,2) by simp
  show ?thesis
  proof (cases "\<exists>reports d. expected \<noteq> [] \<and> gather_reports (an_full ans) (sort (dkeys expected)) = Inr reports \<and>
      check_reports expected (zip (sort (dkeys expected)) reports) [] = Inr d")
    case False
    with assms(3) show ?thesis by (intro same) (auto simp: rebuild_world_def Let_def split: sum.splits if_splits)
  next
    case True
    then obtain reports d where c: "expected \<noteq> []" "gather_reports (an_full ans) (sort (dkeys expected)) = Inr reports"
      "check_reports expected (zip (sort (dkeys expected)) reports) [] = Inr d" by blast
    obtain ix r0 where i: "install_world_full_reports (rc_index r) (world_reports d) (set expected) = (ix, r0)" by fastforce
    note w = install_world_abs [OF inv i]
    have d: "wf_dict d" "\<forall>(i, p) \<in> set d. rp_instance_id p = i" using check_reports_sound [OF c(3)] by auto
    show ?thesis
    proof (cases r0)
      case (Inl x)
      with w(3) i c assms(3) show ?thesis by (intro same) (auto simp: rebuild_world_def Let_def)
    next
      case (Inr u)
      with w(2) have ok: "reports_ok (world_reports d)" and a: "prefix_abs ix =
        \<lparr>ps_locs = report_locs (world_reports d), ps_known = set expected, ps_cursor = report_cursors (world_reports d)\<rparr>" by auto
      from Inr i c assms(3) have r': "rc_index r' = ix" "rc_owners r' = world_owners d" "\<not> isl res" "published_now r'"
        by (auto simp: rebuild_world_def Let_def world_owners_def published_now_def)
      with w(1) d world_covers [OF d ok] show ?thesis by (simp add: covered_but_def a world_owners_wf)
    qed
  qed
qed

lemma rebuild_world_for_keeps:
  assumes "covered_but {} r" "published_now r" "rebuild_world_for env r ans expected i = (r', res)"
  shows "covered_but {} r' \<and> published_now r'"
proof -
  obtain r1 res1 where w: "rebuild_world env r ans expected = (r1, res1)" by fastforce
  with assms(3) have "r' = r1" by (auto simp: rebuild_world_for_def split: sum.splits)
  with rebuild_world_keeps [OF assms(1,2) w] show ?thesis by simp
qed

lemma remove_instance_covers:
  assumes "px_inv ix" "enumerates keys"
  shows "px_inv (remove_instance keys ix i)"
    "\<forall>l \<in> ps_locs (prefix_abs (remove_instance keys ix i)). cl_instance_id l \<noteq> i"
    "covers_at (prefix_abs ix) owners j \<Longrightarrow> j \<noteq> i \<Longrightarrow> dget owners' j = dget owners j \<Longrightarrow>
       covers_at (prefix_abs (remove_instance keys ix i)) owners' j"
proof -
  note h = abs_step [OF assms, of "RemoveInstance i", simplified]
  show "px_inv (remove_instance keys ix i)" by (rule h(1))
  show "\<forall>l \<in> ps_locs (prefix_abs (remove_instance keys ix i)). cl_instance_id l \<noteq> i"
    by (simp add: h(2))
  show "covers_at (prefix_abs (remove_instance keys ix i)) owners' j"
    if "covers_at (prefix_abs ix) owners j" "j \<noteq> i" "dget owners' j = dget owners j"
    by (rule covers_at_cong [OF that(1)]) (use that in \<open>simp_all add: h(2)\<close>)
qed

lemma full_report_covers:
  assumes "px_inv ix" "enumerates keys" "install_full_report keys ix (i, e) n ls = (h, res)"
    "\<forall>l \<in> ps_locs (prefix_abs ix). cl_instance_id l \<noteq> i"
  shows "px_inv h"
    "covers_at (prefix_abs ix) owners j \<Longrightarrow> j \<noteq> i \<Longrightarrow> dget owners' j = dget owners j \<Longrightarrow> covers_at (prefix_abs h) owners' j"
    "\<not> isl res \<Longrightarrow> covers_at (prefix_abs h) (dput owners i (e, n)) i"
proof -
  have fst: "fst (install_full_report keys ix (i, e) n ls) = h" by (simp add: assms(3))
  have h: "px_inv h" "prefix_abs h = spec_report (prefix_abs ix) (i, e) n ls"
    using abs_step [OF assms(1,2), of "FullReport (i, e) n ls"] by (simp_all add: fst)
  show "px_inv h" by (rule h(1))
  have own: "owner_of l = (i, e)" if "l \<in> set (owned (i, e) ls)" for l
    using that unfolding owned_def by (rule set_takeWhileD [THEN conjunct2])
  show "covers_at (prefix_abs h) owners' j"
    if "covers_at (prefix_abs ix) owners j" "j \<noteq> i" "dget owners' j = dget owners j"
    by (rule covers_at_cong [OF that(1)]) (use that own in \<open>auto simp: h(2) spec_report_def owner_of_def\<close>)
  assume "\<not> isl res"
  moreover have "simulates ix (prefix_abs ix)" using assms(1) by (simp add: simulates_iff)
  from add_locations_owned [OF simulates_remove_owner [OF this assms(2), of "(i, e)"], of "(i, e)" ls]
  obtain k where "add_locations (remove_owner keys ix (i, e)) (i, e) ls =
      (k, if owned (i, e) ls = ls then Inr () else Inl OwnerMismatch)" by blast
  ultimately have "owned (i, e) ls = ls"
    using assms(3) by (auto simp: install_full_report_def split: if_splits)
  with own assms(4) show "covers_at (prefix_abs h) (dput owners i (e, n)) i"
    by (auto simp: covers_at_def h(2) spec_report_def dict_simps owner_of_def)
qed

lemma rebuild_keeps:
  assumes "enumerates (re_keys env)" "covered_but {i} r" "published_now r" "rebuild env r ans i = (r', res)"
  shows "covered_but (if isl res then {i} else {}) r' \<and> published_now r'"
proof -
  have inv: "px_inv (rc_index r)" "wf_dict (rc_owners r)" "\<And>j. j \<noteq> i \<Longrightarrow> covers_at (prefix_abs (rc_index r)) (rc_owners r) j"
    using assms(2) by (simp_all add: covered_but_def)
  have same: ?thesis if "r' = r" "isl res" using that assms(2,3) by simp
  show ?thesis
  proof (cases "\<exists>p. an_full ans i = Inr p \<and> rp_instance_id p = i")
    case False
    with assms(4) show ?thesis by (intro same) (auto simp: rebuild_def split: sum.splits if_splits)
  next
    case True
    then obtain p where p: "an_full ans i = Inr p" "rp_instance_id p = i" by blast
    let ?ix = "remove_instance (re_keys env) (rc_index r) i"
    obtain h x where f: "install_full_report (re_keys env) ?ix (i, rp_instance_epoch p)
        (rp_snapshot_seq_no p) (rp_locations p) = (h, x)" by fastforce
    note rm = remove_instance_covers [OF inv(1) assms(1), where i = i]
    note fr = full_report_covers [OF rm(1) assms(1) f rm(2)]
    let ?o = "dput (rc_owners r) i (rp_instance_epoch p, rp_snapshot_seq_no p)"
    have others: "covers_at (prefix_abs h) owners' j" if "j \<noteq> i" "dget owners' j = dget (rc_owners r) j" for j owners'
      using fr(2) [OF rm(3) [OF inv(3)]] that by simp
    show ?thesis
    proof (cases x)
      case (Inl y)
      with p f assms(4) have "r' = r\<lparr>rc_index := h\<rparr>" "isl res" by (auto simp: rebuild_def)
      with others fr(1) inv(2) assms(3) show ?thesis by (simp add: covered_but_def)
    next
      case (Inr u)
      with p f assms(4) have r': "rc_index r' = h" "rc_owners r' = ?o" "\<not> isl res" "published_now r' = published_now r"
        by (auto simp: rebuild_def)
      have "covers_at (prefix_abs h) ?o j" for j
        using fr(3) [of "rc_owners r"] others [of j ?o] Inr by (cases "j = i") (simp_all add: dict_simps)
      with r' fr(1) inv(2) assms(3) show ?thesis by (simp add: covered_but_def)
    qed
  qed
qed

lemma sync_events_keeps:
  assumes "covered_but {} r" "published_now r" "dget (rc_owners r) i = Some (e, c)" "sync_events r ans i e = (r', res)"
  shows "covered_but (if isl res then {i} else {}) r' \<and> published_now r' \<and>
    rc_expected_epochs r' = rc_expected_epochs r"
proof -
  have inv: "px_inv (rc_index r)" "wf_dict (rc_owners r)" "\<And>j. covers_at (prefix_abs (rc_index r)) (rc_owners r) j"
    using assms(1) by (simp_all add: covered_but_def)
  show ?thesis
  proof (cases "an_peek ans")
    case (Inl x)
    with assms show ?thesis by (auto simp: sync_events_def intro: covered_but_mono)
  next
    case (Inr events)
    obtain h a where h: "apply_events (rc_index r) (i, e) events = (h, a)" by fastforce
    note ap = apply_events_covers [OF inv(1) h]
    have weak: "covered_but {i} (r\<lparr>rc_index := h\<rparr>)"
      using ap(1) ap(2) [OF _ inv(3)] inv(2) by (simp add: covered_but_def)
    consider "r' = r\<lparr>rc_index := h\<rparr>" "isl res"
      | n where "a = Inr n" "r' = r\<lparr>rc_index := h, rc_owners := dput (rc_owners r) i (e, n)\<rparr>" "\<not> isl res"
      using assms(4) Inr h by (auto simp: sync_events_def split: sum.splits)
    then show ?thesis
    proof cases
      case 1
      with weak assms(2) show ?thesis by simp
    next
      case 2
      have "covers_at (prefix_abs h) (dput (rc_owners r) i (e, n)) j" for j
        using ap(2) [OF _ inv(3), of j "dput (rc_owners r) i (e, n)"] ap(3) [OF 2(1) assms(3) inv(3)]
        by (cases "j = i") (simp_all add: dict_simps)
      with 2 ap(1) inv(2) assms(2) show ?thesis by (simp add: covered_but_def)
    qed
  qed
qed

lemma note_counts_same:
  assumes "note_counts r ans i = (r', res)"
  shows "covered_but S r' = covered_but S r" "published_now r' = published_now r"
    "rc_owners r' = rc_owners r" "rc_expected_epochs r' = rc_expected_epochs r"
  using assms
  by (auto simp: note_counts_def Let_def split: if_splits option.splits sum.splits intro!: same_cover same_publication)

lemma empty_cover: "covered_but S (r\<lparr>rc_index := clear (rc_index r), rc_owners := []\<rparr>)"
  using simulates_clear [of "rc_index r" "prefix_abs (rc_index r)"]
  by (simp add: covered_but_def covers_at_def simulates_iff)

lemma dropped_cover:
  assumes "enumerates keys" "covered_but {i} r"
  shows "covered_but {} (r\<lparr>rc_index := remove_instance keys (rc_index r) i, rc_owners := dpop (rc_owners r) i\<rparr>)"
proof -
  have inv: "px_inv (rc_index r)" "wf_dict (rc_owners r)" "\<And>j. j \<noteq> i \<Longrightarrow> covers_at (prefix_abs (rc_index r)) (rc_owners r) j"
    using assms(2) by (simp_all add: covered_but_def)
  note rm = remove_instance_covers [OF inv(1) assms(1), where i = i]
  have "covers_at (prefix_abs (remove_instance keys (rc_index r) i)) (dpop (rc_owners r) i) j" for j
  proof (cases "j = i")
    case True
    with rm(2) show ?thesis by (auto simp: covers_at_def dict_simps)
  next
    case False
    with rm(3) [OF inv(3)] show ?thesis by (simp add: dict_simps)
  qed
  with rm(1) inv(2) show ?thesis by (simp add: covered_but_def)
qed

lemma recover_gap_keeps:
  assumes "enumerates (re_keys env)" "covered_but {i} r" "recover_gap env r ans i = (r', res)"
  shows "covered_but (if isl res then {i} else {}) r' \<and> published_now r'"
proof -
  let ?gap = "[Increment ''prefix_event_gap_total'' 1 [(''reason'', ''gap_or_epoch'')]]"
  let ?w = "rc_note (r\<lparr>rc_index := clear (rc_index r), rc_owners := [], rc_world_publication := None,
    rc_generation := an_token ans\<rparr>) ?gap"
  let ?s = "rc_note (r\<lparr>rc_index := remove_instance (re_keys env) (rc_index r) i, rc_owners := dpop (rc_owners r) i,
    rc_world_publication := None, rc_generation := an_token ans\<rparr>) ?gap"
  have pub: "published_now ?w" "published_now ?s" by (simp_all add: published_now_def)
  have "covered_but {} ?w" using empty_cover [of "{}" r] by (simp add: covered_but_def)
  note w = rebuild_world_for_keeps [OF this pub(1)]
  have "covered_but {i} ?s"
    using dropped_cover [OF assms(1,2)] by (simp add: covered_but_def)
  note s = rebuild_keeps [OF assms(1) this pub(2)]
  from assms(3) consider expected where "rebuild_world_for env ?w ans expected i = (r', res)"
    | "rebuild env ?s ans i = (r', res)"
    unfolding recover_gap_def Let_def by (simp only: split: if_splits)
  then show ?thesis using w s covered_but_mono [of "{}" r' "{i}"] by cases auto
qed

lemma sync_once_keeps:
  assumes "enumerates (re_keys env)" "reco_inv r" "sync_once env r ans i = (r', res)"
  shows "covered_but (if isl res then {i} else {}) r' \<and> published_now r'"
proof -
  have inv: "covered_but {} r" "published_now r" using assms(2) by (simp_all add: reco_inv_def)
  have weak: "covered_but {} q \<Longrightarrow> covered_but (if b then {i} else {}) q" for q b
    using covered_but_mono by simp
  show ?thesis
  proof (cases "rc_world_publication r = None \<and> length (rc_expected_epochs r) > 1")
    case True
    with assms(3) have "rebuild_world_for env r ans (rc_expected_epochs r) i = (r', res)" by (simp add: sync_once_def)
    from rebuild_world_for_keeps [OF inv this] weak show ?thesis by blast
  next
    case no_world: False
    obtain r1 n where n: "note_counts r ans i = (r1, n)" by fastforce
    have inv1: "covered_but {} r1" "published_now r1" using note_counts_same [OF n] inv by simp_all
    show ?thesis
    proof (cases n)
      case (Inl x)
      with assms(3) have "r' = r1" unfolding sync_once_def if_not_P [OF no_world] n by simp
      with inv1 weak show ?thesis by blast
    next
      case (Inr u)
      show ?thesis
      proof (cases "dget (rc_owners r1) i")
        case None
        with assms(3) have "rebuild env r1 ans i = (r', res)" unfolding sync_once_def if_not_P [OF no_world] n Inr by simp
        moreover have "covered_but {i} r1" using covered_but_mono [OF inv1(1)] by simp
        ultimately show ?thesis using rebuild_keeps [OF assms(1) _ inv1(2)] by blast
      next
        case (Some ec)
        obtain e c where ec: "ec = (e, c)" by fastforce
        obtain r2 res2 where s: "sync_events r1 ans i e = (r2, res2)" by fastforce
        note k = sync_events_keeps [OF inv1 Some [unfolded ec] s]
        have "sync_once env r ans i = (case res2 of Inr applied \<Rightarrow> (r2, Inr applied)
            | Inl x \<Rightarrow> if caught x then recover_gap env r2 ans i else (r2, Inl x))"
          unfolding sync_once_def if_not_P [OF no_world] n Inr
          by (simp add: Some ec s split: sum.split)
        then have "sync_once env r ans i \<in> {(r2, res2), recover_gap env r2 ans i}" by (cases res2) simp_all
        with assms(3) consider "(r', res) = (r2, res2)" | "recover_gap env r2 ans i = (r', res)" by (metis insertE singletonD)
        then show ?thesis
        proof cases
          case 2
          have "covered_but {i} r2" using k covered_but_mono [of "if isl res2 then {i} else {}" r2 "{i}"] by simp
          from recover_gap_keeps [OF assms(1) this 2] show ?thesis .
        qed (use k in simp)
      qed
    qed
  qed
qed

lemma run_step_keeps [inv_intros]:
  assumes "enumerates (re_keys env)" "reco_inv r"
  shows "reco_inv (run_step env r ans i)"
proof -
  obtain r1 res where s: "sync_once env r ans i = (r1, res)" by fastforce
  note k = sync_once_keeps [OF assms s]
  show ?thesis
  proof (cases res)
    case (Inr n)
    with s k show ?thesis by (simp add: run_step_def reco_inv_def)
  next
    case (Inl x)
    with k have c: "covered_but {i} r1" "published_now r1" by simp_all
    note d = dropped_cover [OF assms(1) c(1)]
    have "published_now (drop_uncertain env r1 i)" "covered_but {} (drop_uncertain env r1 i)"
      using c(2) d empty_cover [of "{}" r1]
      by (simp_all add: drop_uncertain_def covered_but_def) (simp add: published_now_def)
    with s Inl show ?thesis by (simp add: run_step_def reco_inv_def)
  qed
qed

subsection \<open>Runs of the reconciler\<close>

datatype reco_op =
  RunStep string reco_answers
| RebuildWorld "(string, string) dict" reco_answers

fun reco_exec :: "reco_env \<Rightarrow> reconciler \<Rightarrow> reco_op \<Rightarrow> reconciler" where
  "reco_exec env r (RunStep i ans) = run_step env r ans i"
| "reco_exec env r (RebuildWorld expected ans) = fst (rebuild_world env r ans expected)"

lemma reco_init_inv: "prefix_index_init a = Inr ix \<Longrightarrow> reco_inv (reconciler_init ix cid gen m)"
  using init_simulates [of a ix]
  by (simp add: reco_inv_def covered_but_def covers_at_def published_now_def reconciler_init_def simulates_iff)

lemma reco_exec_inv:
  assumes "enumerates (re_keys env)" "reco_inv r"
  shows "reco_inv (reco_exec env r op)"
proof (cases op)
  case (RebuildWorld expected ans)
  obtain r' res where w: "rebuild_world env r ans expected = (r', res)" by fastforce
  with rebuild_world_keeps [OF _ _ w, of "{}"] assms(2) RebuildWorld show ?thesis by (simp add: reco_inv_def)
qed (use assms run_step_keeps in simp)

interpretation reco_ops: op_system "reco_exec env" "\<lambda>_ _. enumerates (re_keys env)" reco_inv for env
  by unfold_locales (rule reco_exec_inv)

lemma reco_run_inv:
  assumes "enumerates (re_keys env)" "reco_inv r"
  shows "reco_inv (foldl (reco_exec env) r ops)"
proof (rule reco_ops.run_inv [OF _ assms(2)])
  show "ok_run (reco_exec env) (\<lambda>_ _. enumerates (re_keys env)) r ops"
    by (rule ok_run_mono [OF ok_run_True assms(1)])
qed

lemma run_round_inv:
  assumes "enumerates (re_keys env)" "reco_inv r"
  shows "reco_inv (run_round env r instances)"
  using assms(2) unfolding run_round_def
  by (induction instances arbitrary: r) (auto simp: run_step_keeps [OF assms(1)])

lemma world_ready_owners:
  assumes "world_ready r expected"
  shows "dget expected i = map_option fst (dget (rc_owners r) i)"
proof -
  have "dget (owner_epochs r) i = dget expected i"
    using assms unfolding world_ready_def dict_eq_def by (metis dkeys_iff)
  moreover have "dget (owner_epochs r) i = map_option fst (dget (rc_owners r) i)"
    unfolding owner_epochs_def by (induction "rc_owners r") (auto simp: map_of_map)
  ultimately show ?thesis by simp
qed

subsection \<open>Property\<close>

text \<open>
  C27.  What \<open>world_ready\<close> promises to the router.  After any sequence of world rebuilds and loop steps, with any
  answers and failures of the workers, if the reconciler says it is ready for a set of incarnations then
  a lookup returns locations of those incarnations only, each of them has one cursor on which the
  reconciler and the index agree, and the publication is of the current consumer and generation.
\<close>

theorem world_ready_sound:
  assumes "enumerates (re_keys env)" and "prefix_index_init max_age_s = Inr ix"
    and "r = foldl (reco_exec env) (reconciler_init ix consumer_id generation has_metrics) ops"
    and "world_ready r expected"
  shows "((b, fresh) \<in> set (iter_matches (rc_index r) fp now) \<longrightarrow> l \<in> fresh \<longrightarrow>
      dget expected (cl_instance_id l) = Some (cl_instance_epoch l)) \<and>
    (dget expected i = Some e \<longrightarrow>
      (\<exists>c. dget (rc_owners r) i = Some (e, c) \<and> dget (px_last_seq (rc_index r)) (i, e) = Some c)) \<and>
    (\<exists>p. rc_world_publication r = Some p \<and> publication_matches p expected \<and>
      wp_consumer_id p = rc_consumer_id r \<and> wp_generation p = rc_generation r)"
proof -
  have inv: "reco_inv r" unfolding assms(3) by (rule reco_run_inv [OF assms(1) reco_init_inv [OF assms(2)]])
  then have ix: "px_inv (rc_index r)" and cov: "\<And>j. covers_at (prefix_abs (rc_index r)) (rc_owners r) j"
    by (simp_all add: reco_inv_def covered_but_def)
  note ow = world_ready_owners [OF assms(4)]
  have "dget expected (cl_instance_id l) = Some (cl_instance_epoch l)"
    if "(b, fresh) \<in> set (iter_matches (rc_index r) fp now)" "l \<in> fresh"
  proof -
    have "l \<in> ps_locs (prefix_abs (rc_index r))"
      using that simulates_matches [of "rc_index r" "prefix_abs (rc_index r)"] ix
      by (auto simp: iter_matches_def simulates_iff)
    with cov [of "cl_instance_id l"] show ?thesis by (auto simp: covers_at_def ow)
  qed
  moreover have "\<exists>c. dget (rc_owners r) i = Some (e, c) \<and> dget (px_last_seq (rc_index r)) (i, e) = Some c"
    if "dget expected i = Some e"
    using that cov [of i] by (auto simp: ow covers_at_def prefix_abs_def)
  moreover have "\<exists>p. rc_world_publication r = Some p \<and> publication_matches p expected \<and>
      wp_consumer_id p = rc_consumer_id r \<and> wp_generation p = rc_generation r"
    using inv assms(4) by (auto simp: world_ready_def reco_inv_def published_now_def split: option.splits)
  ultimately show ?thesis by blast
qed

text \<open>A prefill and a decode worker report, and the prefill worker then caches one more block.\<close>

definition reco_env_sample :: reco_env where
  "reco_env_sample = \<lparr>re_text = (\<lambda>_. []), re_sha = (\<lambda>_. []), re_keys = sorted_list_of_set\<rparr>"

definition reco_answers_sample :: reco_answers where
  "reco_answers_sample =
     \<lparr>an_full = (\<lambda>i. Inr \<lparr>rp_instance_id = i, rp_instance_epoch = ''e'', rp_snapshot_seq_no = 4, rp_locations = []\<rparr>),
      an_counts = None, an_peek = Inr [example_event ''hash_added'' 5 9], an_ack = Inr (), an_token = ''g2''\<rparr>"

definition reco_world_sample :: "(string, string) dict" where
  "reco_world_sample = [(''P0'', ''e''), (''D0'', ''e'')]"

definition reco_run_sample :: reconciler where
  "reco_run_sample = foldl (reco_exec reco_env_sample) (reconciler_init empty_index ''gateway'' ''g1'' False)
     [RebuildWorld reco_world_sample reco_answers_sample, RunStep ''P0'' reco_answers_sample]"

lemma reco_rebuilt_sample:
  "rebuild_world reco_env_sample (reconciler_init empty_index ''gateway'' ''g1'' False) reco_answers_sample reco_world_sample =
     (\<lparr>rc_index = \<lparr>px_max_age_s = 600, px_index = [], px_forward = [((''D0'', ''e''), {}), ((''P0'', ''e''), {})],
          px_last_seq = [((''D0'', ''e''), 4), ((''P0'', ''e''), 4)]\<rparr>,
       rc_consumer_id = ''gateway'', rc_generation = ''g1'', rc_has_metrics = False, rc_metrics = [],
       rc_owners = [(''D0'', ''e'', 4), (''P0'', ''e'', 4)], rc_resource_counts = [], rc_expected_epochs = reco_world_sample,
       rc_world_publication = Some \<lparr>wp_consumer_id = ''gateway'', wp_generation = ''g1'',
         wp_reports = map (\<lambda>i. \<lparr>we_instance_id = i, we_instance_epoch = ''e'', we_snapshot_seq_no = 4,
           we_location_count = 0, we_content_digest = ''sha256:''\<rparr>) [''D0'', ''P0'']\<rparr>\<rparr>,
      Inr \<lparr>wp_consumer_id = ''gateway'', wp_generation = ''g1'',
         wp_reports = map (\<lambda>i. \<lparr>we_instance_id = i, we_instance_epoch = ''e'', we_snapshot_seq_no = 4,
           we_location_count = 0, we_content_digest = ''sha256:''\<rparr>) [''D0'', ''P0'']\<rparr>)"
  by (simp add: rebuild_world_def reco_world_sample_def reco_answers_sample_def reconciler_init_def Let_def
      world_reports_def install_world_full_reports_def clear_def empty_index_def evidence_of_def report_digest_def
      digest_def reco_env_sample_def rc_note_def dsetdefault_def
      insert_commute)

lemma reco_answers_sample_fields:
  "an_peek reco_answers_sample = Inr [example_event ''hash_added'' 5 9]" "an_ack reco_answers_sample = Inr ()"
  by (simp_all add: reco_answers_sample_def)

lemma reco_run_sample_fields:
  "rc_owners reco_run_sample = [(''D0'', ''e'', 4), (''P0'', ''e'', 5)]"
  "world_ready reco_run_sample reco_world_sample"
proof -
  note step = reco_run_sample_def run_step_def sync_once_def note_counts_def sync_events_def reco_rebuilt_sample
    reco_answers_sample_fields apply_events_def dget_or_def Let_def
  show o: "rc_owners reco_run_sample = [(''D0'', ''e'', 4), (''P0'', ''e'', 5)]"
    by (simp add: step)
  have p: "map_option published_epochs (rc_world_publication reco_run_sample) = Some [(''D0'', ''e''), (''P0'', ''e'')]"
    by (simp add: step published_epochs_def)
  then show "world_ready reco_run_sample reco_world_sample"
    by (auto simp: world_ready_def owner_epochs_def o dict_eq_def publication_matches_def reco_world_sample_def)
qed

theorem world_ready_sound_witness:
  "world_ready reco_run_sample reco_world_sample \<and>
   (\<exists>c. dget (rc_owners reco_run_sample) ''P0'' = Some (''e'', c) \<and>
     dget (px_last_seq (rc_index reco_run_sample)) (''P0'', ''e'') = Some c \<and> c = 5)"
proof -
  have e: "enumerates (re_keys reco_env_sample)" by (simp add: reco_env_sample_def sorted_enumerates)
  have "dget reco_world_sample ''P0'' = Some ''e''" by (simp add: reco_world_sample_def)
  with world_ready_sound [OF e empty_index_init reco_run_sample_def reco_run_sample_fields(2), where i = "''P0''" and e = "''e''"]
  show ?thesis using reco_run_sample_fields by auto
qed

end
