(* ===== verification/Prefix_Loader.thy ===== *)
theory Prefix_Loader
  imports Affinity_Router PD_Scheduler Json
begin

text \<open>
  \<^verbatim>\<open>prism_serve/router/loader.py\<close> and the rest of \<^verbatim>\<open>protocol.py\<close>: loading a cached prefix into a decode
  instance in five remote steps, and undoing whatever a load that stopped half-way may have done.  The
  answers to the calls are an argument; an answer can be an exception, which also stands for a lost
  response, a timeout or a cancellation, so a call in the log may or may not have had an effect.  While
  a cleanup call is awaited other tasks may use the scheduler (\<open>ca_between\<close>).  The theorems show that a
  cleanup that reports an abort has compensated every call of the load, and that the decode slot is
  given back in no other case.
\<close>

subsection \<open>Protocol values\<close>

datatype transfer_status = TrPREPARED | TrRUNNING | TrCOMPLETED | TrFENCED | TrUNKNOWN

datatype operation_status = OpPREPARED | OpCOMMITTED | OpABORTED | OpUNKNOWN

record mapped_transfer_req =
  mt_operation_id :: string
  mt_req_id :: string
  mt_source_instance :: string
  mt_source_epoch :: string
  mt_target_instance :: string
  mt_target_epoch :: string
  mt_src_block_ids :: "int list"
  mt_dst_block_ids :: "int list"
  mt_namespace :: string
  mt_kv_compatibility_id :: string
  mt_request_context_digest :: string

definition mapped_transfer_valid :: "mapped_transfer_req \<Rightarrow> bool" where
  "mapped_transfer_valid m \<longleftrightarrow> mt_operation_id m \<noteq> [] \<and> length (mt_src_block_ids m) = length (mt_dst_block_ids m)"

record resolved_prefix =
  rv_operation_id :: string
  rv_source_epoch :: string
  rv_src_block_ids :: "int list"

record prepared_prefix =
  pr_operation_id :: string
  pr_mode :: string
  pr_dst_block_ids :: "int list"

record cached_prefix_plan =
  pl_operation_id :: string
  pl_req_id :: string
  pl_source_instance :: string
  pl_target_instance :: string
  pl_source_epoch :: string
  pl_target_epoch :: string
  pl_src_block_ids :: "int list"
  pl_dst_block_ids :: "int list"
  pl_cached_prefix_tokens :: int
  pl_namespace :: string
  pl_kv_compatibility_id :: string
  pl_request_context_digest :: string
  pl_token_ids :: "int list"
  pl_sampling_params :: jobj
  pl_mode :: string

record expected_prefix_block =
  eb_block_index :: nat
  eb_chain_hash :: "64 word"
  eb_token_ids :: "int list"

record cleanup_outcome =
  co_action :: string
  co_target_state :: operation_status

subsection \<open>Calls, answers and the context of a load\<close>

datatype prefix_call =
  ResolvePrefix string string string "expected_prefix_block list" string string string
| PreparePrefix string string string string string nat "int list" jobj
| TransferCachedPrefix cached_prefix_plan
| CommitCachedPrefix string string cached_prefix_plan
| AbortMappedPrefix string string string
| GetPrefixOperation string string
| AbortCachedPrefix string string
| UnpinPrefix string string

datatype load_stage =
  STARTED | RESOLVING | RESOLVED | PREPARING | PREPARED | TRANSFERRING | COMMITTING | COMMITTED

record load_context =
  lc_operation_id :: string
  lc_req_id :: string
  lc_source_instance :: string
  lc_target_instance :: string
  lc_stage :: load_stage
  lc_plan :: "cached_prefix_plan option"
  lc_source_pinned :: bool
  lc_target_pending :: bool
  lc_changes :: nat

definition new_load_context :: "string \<Rightarrow> string \<Rightarrow> string \<Rightarrow> string \<Rightarrow> load_context" where
  "new_load_context operation_id req_id source target =
     \<lparr>lc_operation_id = operation_id, lc_req_id = req_id, lc_source_instance = source, lc_target_instance = target,
      lc_stage = STARTED, lc_plan = None, lc_source_pinned = False, lc_target_pending = False, lc_changes = 0\<rparr>"

text \<open>\<open>changed()\<close> calls the observer, which reads the scheduler and writes metrics.\<close>

definition lc_changed :: "load_context \<Rightarrow> load_context" where
  "lc_changed c = c\<lparr>lc_changes := Suc (lc_changes c)\<rparr>"

datatype prefix_load_error =
  LoadRpcFailed string
| SourceStale
| PrepareFailed
| TransferIncomplete transfer_status cached_prefix_plan
| ChainHashMissing
| CleanupAssertion
| SlotError sched_error

record load_answers =
  la_resolve :: "string + resolved_prefix option"
  la_prepare :: "string + prepared_prefix option"
  la_transfer :: "string + transfer_status"
  la_commit :: "string + unit"
  la_unpin :: "string + unit"

record cleanup_answers =
  ca_abort_mapped :: "string + transfer_status"
  ca_get :: "string + operation_status"
  ca_abort_cached :: "string + unit"
  ca_unpin :: "string + unit"
  ca_between :: "prefix_call \<Rightarrow> pd_scheduler \<Rightarrow> pd_scheduler"

subsection \<open>Loading\<close>

definition expected_blocks :: "prompt_fingerprint \<Rightarrow> nat \<Rightarrow> expected_prefix_block list" where
  "expected_blocks fp n =
     map (\<lambda>index. \<lparr>eb_block_index = index, eb_chain_hash = fp_chain_hashes fp ! index,
         eb_token_ids = take (nat (fp_block_size fp)) (drop (index * nat (fp_block_size fp)) (fp_token_ids fp))\<rparr>)
       [0..<n]"

text \<open>The four parts of a load, each ending where the next remote call is awaited.\<close>

type_synonym 'a load_step = "load_context \<times> prefix_call list \<times> (prefix_load_error + 'a)"

definition load_mode :: "cached_prefix_decision \<Rightarrow> string" where
  "load_mode d = (if cd_source_instance d = cd_decode_instance d then ''local_reuse'' else ''remote_transfer'')"

definition resolve_step ::
  "prompt_fingerprint \<Rightarrow> cached_prefix_decision \<Rightarrow> load_answers \<Rightarrow> string \<Rightarrow> load_context \<Rightarrow> resolved_prefix load_step" where
  "resolve_step fp d ans operation_id c =
     (if length (fp_chain_hashes fp) < cd_cached_prefix_blocks d then (c, [], Inl ChainHashMissing)
      else let c1 = c\<lparr>lc_stage := RESOLVING\<rparr>;
               call = ResolvePrefix (cd_source_instance d) (cd_source_epoch d) operation_id
                 (expected_blocks fp (cd_cached_prefix_blocks d)) (fp_namespace fp) (fp_kv_compatibility_id fp)
                 (fp_request_context_digest fp)
           in case la_resolve ans of
                Inl x \<Rightarrow> (c1, [call], Inl (LoadRpcFailed x))
              | Inr None \<Rightarrow> (c1, [call], Inl SourceStale)
              | Inr (Some resolved) \<Rightarrow>
                  if length (rv_src_block_ids resolved) \<noteq> cd_cached_prefix_blocks d then (c1, [call], Inl SourceStale)
                  else ((lc_changed (c1\<lparr>lc_source_pinned := True\<rparr>))\<lparr>lc_stage := RESOLVED\<rparr>, [call], Inr resolved))"

definition prepare_step ::
  "prompt_fingerprint \<Rightarrow> jobj \<Rightarrow> cached_prefix_decision \<Rightarrow> string \<Rightarrow> load_answers \<Rightarrow> string \<Rightarrow> string \<Rightarrow> resolved_prefix
     \<Rightarrow> load_context \<Rightarrow> cached_prefix_plan load_step" where
  "prepare_step fp sampling_params d target_epoch ans operation_id req_id resolved c =
     (let plan = \<lparr>pl_operation_id = operation_id, pl_req_id = req_id, pl_source_instance = cd_source_instance d,
            pl_target_instance = cd_decode_instance d, pl_source_epoch = cd_source_epoch d, pl_target_epoch = target_epoch,
            pl_src_block_ids = rv_src_block_ids resolved, pl_dst_block_ids = [],
            pl_cached_prefix_tokens = cd_cached_prefix_tokens d, pl_namespace = fp_namespace fp,
            pl_kv_compatibility_id = fp_kv_compatibility_id fp,
            pl_request_context_digest = fp_request_context_digest fp, pl_token_ids = fp_token_ids fp,
            pl_sampling_params = sampling_params, pl_mode = load_mode d\<rparr>;
          c1 = lc_changed (c\<lparr>lc_plan := Some plan, lc_stage := PREPARING, lc_target_pending := True\<rparr>);
          call = PreparePrefix (cd_decode_instance d) target_epoch operation_id req_id (load_mode d)
            (cd_cached_prefix_blocks d) (fp_token_ids fp) sampling_params
      in case la_prepare ans of
           Inl x \<Rightarrow> (c1, [call], Inl (LoadRpcFailed x))
         | Inr None \<Rightarrow> (c1, [call], Inl PrepareFailed)
         | Inr (Some prepared) \<Rightarrow>
             (let plan1 = plan\<lparr>pl_dst_block_ids := pr_dst_block_ids prepared\<rparr>
              in (c1\<lparr>lc_plan := Some plan1, lc_stage := PREPARED\<rparr>, [call], Inr plan1)))"

definition transfer_step ::
  "load_answers \<Rightarrow> cached_prefix_plan \<Rightarrow> load_context \<Rightarrow> unit load_step" where
  "transfer_step ans plan c =
     (if pl_mode plan \<noteq> ''remote_transfer'' then (c, [], Inr ())
      else let c1 = c\<lparr>lc_stage := TRANSFERRING\<rparr>
        in case la_transfer ans of
             Inl x \<Rightarrow> (c1, [TransferCachedPrefix plan], Inl (LoadRpcFailed x))
           | Inr status \<Rightarrow>
               if status \<noteq> TrCOMPLETED then (c1, [TransferCachedPrefix plan], Inl (TransferIncomplete status plan))
               else (c1, [TransferCachedPrefix plan], Inr ()))"

definition commit_step ::
  "load_answers \<Rightarrow> bool \<Rightarrow> cached_prefix_plan \<Rightarrow> load_context \<Rightarrow> unit load_step" where
  "commit_step ans defer_source_release plan c =
     (let c1 = c\<lparr>lc_stage := COMMITTING\<rparr>;
          call = CommitCachedPrefix (pl_target_instance plan) (pl_operation_id plan) plan
      in case la_commit ans of
           Inl x \<Rightarrow> (c1, [call], Inl (LoadRpcFailed x))
         | Inr _ \<Rightarrow>
             (let c2 = c1\<lparr>lc_stage := COMMITTED, lc_target_pending := False\<rparr>
              in if pl_mode plan = ''local_reuse'' then (lc_changed (c2\<lparr>lc_source_pinned := False\<rparr>), [call], Inr ())
                 else if defer_source_release then (lc_changed c2, [call], Inr ())
                 else let unpin = UnpinPrefix (pl_source_instance plan) (pl_operation_id plan)
                   in case la_unpin ans of
                        Inl x \<Rightarrow> (c2, [call, unpin], Inl (LoadRpcFailed x))
                      | Inr _ \<Rightarrow> (lc_changed (c2\<lparr>lc_source_pinned := False\<rparr>), [call, unpin], Inr ())))"

definition load_cached_prefix ::
  "prompt_fingerprint \<Rightarrow> jobj \<Rightarrow> cached_prefix_decision \<Rightarrow> string \<Rightarrow> bool \<Rightarrow> load_answers \<Rightarrow> string \<Rightarrow> string \<Rightarrow> load_context
     \<Rightarrow> cached_prefix_plan load_step" where
  "load_cached_prefix fp sampling_params d target_epoch defer_source_release ans operation_id req_id c =
     (case resolve_step fp d ans operation_id c of
        (c1, calls, Inl x) \<Rightarrow> (c1, calls, Inl x)
      | (c1, calls, Inr resolved) \<Rightarrow>
          (case prepare_step fp sampling_params d target_epoch ans operation_id req_id resolved c1 of
             (c2, calls2, Inl x) \<Rightarrow> (c2, calls @ calls2, Inl x)
           | (c2, calls2, Inr plan) \<Rightarrow>
               (case transfer_step ans plan c2 of
                  (c3, calls3, Inl x) \<Rightarrow> (c3, calls @ calls2 @ calls3, Inl x)
                | (c3, calls3, Inr _) \<Rightarrow>
                    (case commit_step ans defer_source_release plan c3 of
                       (c4, calls4, Inl x) \<Rightarrow> (c4, calls @ calls2 @ calls3 @ calls4, Inl x)
                     | (c4, calls4, Inr _) \<Rightarrow> (c4, calls @ calls2 @ calls3 @ calls4, Inr plan)))))"

subsection \<open>Undoing a load\<close>

type_synonym clean_step = "pd_scheduler \<times> prefix_call list \<times> (prefix_load_error + cleanup_outcome)"

definition release_reserved_or_quarantined :: "pd_scheduler \<Rightarrow> string \<Rightarrow> (pd_scheduler, prefix_load_error, unit) outcome" where
  "release_reserved_or_quarantined s operation_id =
     (let released = (case decode_slot_lease_of s operation_id of
            None \<Rightarrow> release_decode_slot s operation_id
          | Some lease \<Rightarrow>
              if ls_state lease = QUARANTINED then release_quarantined_decode_slot s operation_id None None
              else release_decode_slot s operation_id)
      in case released of (s1, Inl e) \<Rightarrow> (s1, Inl (SlotError e)) | (s1, Inr _) \<Rightarrow> (s1, Inr ()))"

text \<open>Three ways to end: unpin and give the slot back, commit the slot and unpin, or quarantine the slot.\<close>

definition unpin_and_release :: "cleanup_answers \<Rightarrow> pd_scheduler \<Rightarrow> string \<Rightarrow> string \<Rightarrow> clean_step" where
  "unpin_and_release ans s source operation_id =
     (let call = UnpinPrefix source operation_id; s1 = ca_between ans call s
      in case ca_unpin ans of
           Inl x \<Rightarrow> (s1, [call], Inl (LoadRpcFailed x))
         | Inr _ \<Rightarrow>
             (case release_reserved_or_quarantined s1 operation_id of
                (s2, Inl e) \<Rightarrow> (s2, [call], Inl e)
              | (s2, Inr _) \<Rightarrow> (s2, [call], Inr \<lparr>co_action = ''ABORTED'', co_target_state = OpABORTED\<rparr>)))"

definition commit_and_unpin :: "cleanup_answers \<Rightarrow> pd_scheduler \<Rightarrow> string \<Rightarrow> string \<Rightarrow> clean_step" where
  "commit_and_unpin ans s source operation_id =
     (case commit_decode_slot s operation_id of
        Inl e \<Rightarrow> (s, [], Inl (SlotError e))
      | Inr s1 \<Rightarrow>
          (let call = UnpinPrefix source operation_id; s2 = ca_between ans call s1
           in case ca_unpin ans of
                Inl x \<Rightarrow> (s2, [call], Inl (LoadRpcFailed x))
              | Inr _ \<Rightarrow> (s2, [call], Inr \<lparr>co_action = ''COMMITTED'', co_target_state = OpCOMMITTED\<rparr>)))"

definition keep_quarantined :: "pd_scheduler \<Rightarrow> string \<Rightarrow> operation_status \<Rightarrow> clean_step" where
  "keep_quarantined s operation_id target =
     (case quarantine_decode_slot s operation_id of
        Inl e \<Rightarrow> (s, [], Inl (SlotError e))
      | Inr s1 \<Rightarrow> (s1, [], Inr \<lparr>co_action = ''QUARANTINED'', co_target_state = target\<rparr>))"

definition after_calls :: "prefix_call list \<Rightarrow> clean_step \<Rightarrow> clean_step" where
  "after_calls calls r = (fst r, calls @ fst (snd r), snd (snd r))"

text \<open>The target's own abort, and what follows it.\<close>

definition abort_target ::
  "cleanup_answers \<Rightarrow> pd_scheduler \<Rightarrow> string \<Rightarrow> string \<Rightarrow> (pd_scheduler \<Rightarrow> clean_step) \<Rightarrow> clean_step" where
  "abort_target ans s target operation_id next =
     (let call = AbortCachedPrefix target operation_id; s1 = ca_between ans call s
      in case ca_abort_cached ans of
           Inl x \<Rightarrow> (s1, [call], Inl (LoadRpcFailed x))
         | Inr _ \<Rightarrow> after_calls [call] (next s1))"

definition ask_target ::
  "cleanup_answers \<Rightarrow> pd_scheduler \<Rightarrow> string \<Rightarrow> string \<Rightarrow> (pd_scheduler \<Rightarrow> operation_status \<Rightarrow> clean_step) \<Rightarrow> clean_step" where
  "ask_target ans s target operation_id next =
     (let call = GetPrefixOperation target operation_id; s1 = ca_between ans call s
      in case ca_get ans of
           Inl x \<Rightarrow> (s1, [call], Inl (LoadRpcFailed x))
         | Inr status \<Rightarrow> after_calls [call] (next s1 status))"

definition cleanup_mapped_operation :: "cleanup_answers \<Rightarrow> pd_scheduler \<Rightarrow> cached_prefix_plan \<Rightarrow> clean_step" where
  "cleanup_mapped_operation ans s plan =
     (let source = pl_source_instance plan; target = pl_target_instance plan; operation_id = pl_operation_id plan
      in if pl_mode plan = ''local_reuse'' then
           ask_target ans s target operation_id (\<lambda>s1 status. case status of
               OpCOMMITTED \<Rightarrow> commit_and_unpin ans s1 source operation_id
             | OpPREPARED \<Rightarrow> abort_target ans s1 target operation_id (\<lambda>s2. unpin_and_release ans s2 source operation_id)
             | OpUNKNOWN \<Rightarrow> keep_quarantined s1 operation_id OpUNKNOWN
             | OpABORTED \<Rightarrow> unpin_and_release ans s1 source operation_id)
         else
           (let call = AbortMappedPrefix source target operation_id; s0 = ca_between ans call s
            in case ca_abort_mapped ans of
                 Inl x \<Rightarrow> (s0, [call], Inl (LoadRpcFailed x))
               | Inr transfer \<Rightarrow> after_calls [call]
                   (if transfer = TrUNKNOWN then keep_quarantined s0 operation_id OpUNKNOWN
                    else ask_target ans s0 target operation_id (\<lambda>s1 status. case status of
                        OpCOMMITTED \<Rightarrow> commit_and_unpin ans s1 source operation_id
                      | OpUNKNOWN \<Rightarrow> keep_quarantined s1 operation_id OpUNKNOWN
                      | OpPREPARED \<Rightarrow>
                          if transfer \<notin> {TrFENCED, TrCOMPLETED} then keep_quarantined s1 operation_id OpUNKNOWN
                          else abort_target ans s1 target operation_id (\<lambda>s2. unpin_and_release ans s2 source operation_id)
                      | OpABORTED \<Rightarrow> unpin_and_release ans s1 source operation_id))))"

definition is_action :: "string \<Rightarrow> prefix_load_error + cleanup_outcome \<Rightarrow> bool" where
  "is_action a r = (case r of Inl _ \<Rightarrow> False | Inr v \<Rightarrow> co_action v = a)"

text \<open>
  The flags of the context only tell the observer what may still be held.  In the second branch the
  target flag is cleared before the unpin call and the source flag after it.
\<close>

definition cleanup_load_context ::
  "cleanup_answers \<Rightarrow> pd_scheduler \<Rightarrow> load_context \<Rightarrow> load_context \<times> clean_step" where
  "cleanup_load_context ans s c =
     (let source = lc_source_instance c; target = lc_target_instance c; operation_id = lc_operation_id c;
          both_clear = (\<lambda>c. lc_changed (c\<lparr>lc_source_pinned := False, lc_target_pending := False\<rparr>))
      in if lc_stage c \<in> {STARTED, RESOLVING, RESOLVED} then (c, unpin_and_release ans s source operation_id)
         else case lc_plan c of
           None \<Rightarrow> (c, s, [], Inl CleanupAssertion)
         | Some plan \<Rightarrow>
             if lc_stage c \<in> {PREPARING, PREPARED} then
               (let r = ask_target ans s target operation_id (\<lambda>s1 status. case status of
                       OpCOMMITTED \<Rightarrow> commit_and_unpin ans s1 source operation_id
                     | OpUNKNOWN \<Rightarrow> keep_quarantined s1 operation_id OpUNKNOWN
                     | OpPREPARED \<Rightarrow> abort_target ans s1 target operation_id (\<lambda>s2. unpin_and_release ans s2 source operation_id)
                     | OpABORTED \<Rightarrow> unpin_and_release ans s1 source operation_id);
                    unpinned = UnpinPrefix source operation_id \<in> set (fst (snd r)) \<and> \<not> isl (ca_unpin ans);
                    target_clear = (ca_get ans = Inr OpABORTED \<or>
                      ca_get ans = Inr OpPREPARED \<and> \<not> isl (ca_abort_cached ans))
                in if ca_get ans = Inr OpCOMMITTED
                   then (if \<not> isl (snd (snd r)) then both_clear c else c, r)
                   else if \<not> target_clear then (c, r)
                   else let c1 = lc_changed (c\<lparr>lc_target_pending := False\<rparr>)
                     in (if unpinned then lc_changed (c1\<lparr>lc_source_pinned := False\<rparr>) else c1, r))
             else
               (let r = cleanup_mapped_operation ans s plan
                in (if \<not> isl (snd (snd r)) \<and> \<not> is_action ''QUARANTINED'' (snd (snd r)) then both_clear c else c, r)))"

subsection \<open>What a load has asked for\<close>

fun is_prepare :: "prefix_call \<Rightarrow> bool" where
  "is_prepare (PreparePrefix t e k r m n ts sp) = True"
| "is_prepare _ = False"

fun is_transfer :: "prefix_call \<Rightarrow> bool" where
  "is_transfer (TransferCachedPrefix p) = True"
| "is_transfer _ = False"

definition asked :: "(prefix_call \<Rightarrow> bool) \<Rightarrow> prefix_call list \<Rightarrow> bool" where
  "asked P calls \<longleftrightarrow> (\<exists>call \<in> set calls. P call)"

lemma asked_simps [simp]:
  "asked P [] \<longleftrightarrow> False" "asked P (x # xs) \<longleftrightarrow> P x \<or> asked P xs" "asked P (xs @ ys) \<longleftrightarrow> asked P xs \<or> asked P ys"
  by (auto simp: asked_def)

text \<open>The stage of the context tells which calls may have been made.\<close>

definition stage_tells :: "string \<Rightarrow> string \<Rightarrow> string \<Rightarrow> load_context \<Rightarrow> prefix_call list \<Rightarrow> bool" where
  "stage_tells operation_id source target c calls \<longleftrightarrow>
     lc_operation_id c = operation_id \<and> lc_source_instance c = source \<and> lc_target_instance c = target \<and>
     (lc_stage c \<in> {STARTED, RESOLVING, RESOLVED} \<longrightarrow> \<not> asked is_prepare calls \<and> \<not> asked is_transfer calls) \<and>
     (lc_stage c \<notin> {STARTED, RESOLVING, RESOLVED} \<longrightarrow>
        (\<exists>plan. lc_plan c = Some plan \<and> pl_operation_id plan = operation_id \<and> pl_source_instance plan = source \<and>
           pl_target_instance plan = target \<and> (pl_mode plan = ''local_reuse'' \<longrightarrow> \<not> asked is_transfer calls))) \<and>
     (lc_stage c \<in> {PREPARING, PREPARED} \<longrightarrow> \<not> asked is_transfer calls)"

lemma load_stage_tells:
  assumes "load_cached_prefix fp sp d te defer ans k rid (new_load_context k rid (cd_source_instance d) (cd_decode_instance d)) =
    (c, calls, res)"
  shows "stage_tells k (cd_source_instance d) (cd_decode_instance d) c calls"
  using assms
  by (auto simp: load_cached_prefix_def resolve_step_def prepare_step_def transfer_step_def commit_step_def
      new_load_context_def lc_changed_def stage_tells_def Let_def load_mode_def
      split: sum.splits option.splits if_splits)

subsection \<open>The fate of the slot\<close>

definition quiet_between :: "cleanup_answers \<Rightarrow> string \<Rightarrow> bool" where
  "quiet_between ans k \<longleftrightarrow>
     (\<forall>call s. sched_inv s \<longrightarrow> sched_inv (ca_between ans call s)) \<and>
     (\<forall>call s. dget (pd_slot_leases (ca_between ans call s)) k = dget (pd_slot_leases s) k)"

definition slot_state :: "pd_scheduler \<Rightarrow> string \<Rightarrow> lease_state option" where
  "slot_state s k = map_option ls_state (dget (pd_slot_leases s) k)"

definition slot_held :: "pd_scheduler \<Rightarrow> string \<Rightarrow> bool" where
  "slot_held s k \<longleftrightarrow> sched_inv s \<and> slot_state s k \<in> {Some RESERVED, Some ACTIVE, Some QUARANTINED}"

definition is_unpin :: "prefix_call \<Rightarrow> bool" where
  "is_unpin call = (case call of UnpinPrefix i k \<Rightarrow> True | _ \<Rightarrow> False)"

definition slot_fate :: "string \<Rightarrow> clean_step \<Rightarrow> bool" where
  "slot_fate k r \<longleftrightarrow>
     (slot_state (fst r) k = Some RELEASED \<longleftrightarrow> is_action ''ABORTED'' (snd (snd r))) \<and>
     (is_action ''QUARANTINED'' (snd (snd r)) \<longrightarrow>
        slot_state (fst r) k = Some QUARANTINED \<and> \<not> asked is_unpin (fst (snd r)))"

lemma quiet_held: "quiet_between ans k \<Longrightarrow> slot_held s k \<Longrightarrow> slot_held (ca_between ans call s) k"
  by (auto simp: quiet_between_def slot_held_def slot_state_def)

lemma free_one_slot_fate:
  assumes "sched_inv s" "free_one_slot (set_lease s k l) i = (s', r)"
  shows "\<not> isl r" "slot_state s' k = Some (ls_state l)"
proof -
  have "inst_ok (dget (pd_decode_free_slots s) i) (dget (pd_decode_max_slots s) i) (dget (pd_prefill_load s) i)
      (dget (pd_quarantined s) i) (dget (pd_instance_epochs s) i) (live s i)"
    using assms(1) by (simp add: sched_inv_def)
  then have "dhas (pd_decode_free_slots s) i \<Longrightarrow> dhas (pd_decode_max_slots s) i"
    by (auto simp: inst_ok_def split: option.splits)
  with assms(2) show "\<not> isl r" "slot_state s' k = Some (ls_state l)"
    by (auto simp: free_one_slot_def set_lease_def slot_state_def dict_simps split: option.splits)
qed

lemma release_fate:
  assumes "slot_held s k" "release_reserved_or_quarantined s k = (s', r)"
  shows "slot_state s' k = Some RELEASED \<longleftrightarrow> \<not> isl r"
proof -
  obtain l where l: "dget (pd_slot_leases s) k = Some l" "ls_state l \<in> {RESERVED, ACTIVE, QUARANTINED}"
    and inv: "sched_inv s" using assms(1) by (auto simp: slot_held_def slot_state_def)
  from l(2) consider (q) "ls_state l = QUARANTINED" | (a) "ls_state l = ACTIVE" | (r) "ls_state l = RESERVED" by auto
  then show ?thesis
  proof cases
    case q
    obtain t x where f: "free_one_slot (set_lease s k (l\<lparr>ls_state := RELEASED, ls_release_cleanup_id := None\<rparr>)) (ls_instance_id l) = (t, x)"
      by fastforce
    with q l assms(2) free_one_slot_fate [OF inv f] show ?thesis
      by (auto simp: release_reserved_or_quarantined_def decode_slot_lease_of_def release_quarantined_decode_slot_def
          split: sum.splits)
  next
    case a
    with l assms(2) show ?thesis
      by (auto simp: release_reserved_or_quarantined_def decode_slot_lease_of_def release_decode_slot_def slot_state_def)
  next
    case r
    obtain t x where f: "free_one_slot (set_lease s k (l\<lparr>ls_state := RELEASED\<rparr>)) (ls_instance_id l) = (t, x)" by fastforce
    with r l assms(2) free_one_slot_fate [OF inv f] show ?thesis
      by (auto simp: release_reserved_or_quarantined_def decode_slot_lease_of_def release_decode_slot_def split: sum.splits)
  qed
qed

lemma fate_unpin:
  assumes "quiet_between ans k" "slot_held s k"
  shows "slot_fate k (unpin_and_release ans s src k)"
proof -
  let ?s = "ca_between ans (UnpinPrefix src k) s"
  have h: "slot_held ?s k" by (rule quiet_held [OF assms])
  obtain t r where "release_reserved_or_quarantined ?s k = (t, r)" by fastforce
  with release_fate [OF h this] h show ?thesis
    by (auto simp: unpin_and_release_def slot_fate_def is_action_def slot_held_def Let_def split: sum.splits)
qed

lemma fate_commit:
  assumes "quiet_between ans k" "slot_held s k"
  shows "slot_fate k (commit_and_unpin ans s src k)"
proof -
  obtain l where l: "dget (pd_slot_leases s) k = Some l" "ls_state l \<noteq> RELEASED"
    using assms(2) by (auto simp: slot_held_def slot_state_def)
  then obtain t where t: "commit_decode_slot s k = Inr t" "slot_state t k \<noteq> Some RELEASED"
    by (auto simp: commit_decode_slot_def set_lease_def slot_state_def dict_simps)
  have "slot_state (ca_between ans (UnpinPrefix src k) t) k = slot_state t k"
    using assms(1) by (simp add: quiet_between_def slot_state_def)
  with t show ?thesis
    by (auto simp: commit_and_unpin_def slot_fate_def is_action_def Let_def split: sum.splits)
qed

lemma fate_quarantine:
  assumes "slot_held s k"
  shows "slot_fate k (keep_quarantined s k status)"
  using assms
  by (auto simp: keep_quarantined_def quarantine_decode_slot_def slot_held_def slot_state_def slot_fate_def is_action_def
      set_lease_def dict_simps)

lemma fate_after:
  "slot_fate k r \<Longrightarrow> \<not> asked is_unpin calls \<Longrightarrow> slot_fate k (after_calls calls r)"
  by (simp add: slot_fate_def after_calls_def)

lemma fate_failed: "slot_held s k \<Longrightarrow> slot_fate k (s, calls, Inl x)"
  by (auto simp: slot_fate_def slot_held_def is_action_def)

lemma fate_abort_target:
  assumes "quiet_between ans k" "slot_held s k" "\<And>t. slot_held t k \<Longrightarrow> slot_fate k (next t)"
  shows "slot_fate k (abort_target ans s target k next)"
  using quiet_held [OF assms(1,2)] assms(3)
  by (auto simp: abort_target_def Let_def is_unpin_def intro!: fate_after fate_failed split: sum.split)

lemma fate_ask_target:
  assumes "quiet_between ans k" "slot_held s k" "\<And>t status. slot_held t k \<Longrightarrow> slot_fate k (next t status)"
  shows "slot_fate k (ask_target ans s target k next)"
  using quiet_held [OF assms(1,2)] assms(3)
  by (auto simp: ask_target_def Let_def is_unpin_def intro!: fate_after fate_failed split: sum.split)

lemmas fates = fate_unpin fate_commit fate_quarantine fate_abort_target fate_ask_target

lemma cleanup_slot_fate:
  assumes "quiet_between ans (lc_operation_id c)" "slot_held s (lc_operation_id c)"
    "\<And>plan. lc_plan c = Some plan \<Longrightarrow> pl_operation_id plan = lc_operation_id c"
  shows "slot_fate (lc_operation_id c) (snd (cleanup_load_context ans s c))"
proof -
  let ?k = "lc_operation_id c"
  have mapped: "slot_fate ?k (cleanup_mapped_operation ans s plan)" if "pl_operation_id plan = ?k" for plan
  proof -
    have "slot_held (ca_between ans call s) ?k" for call by (rule quiet_held [OF assms(1,2)])
    with that assms(1,2) show ?thesis
      unfolding cleanup_mapped_operation_def Let_def
      by (auto split: sum.split operation_status.split intro!: fates fate_after fate_failed simp: is_unpin_def)
  qed
  have ask: "slot_fate ?k (ask_target ans s target ?k (\<lambda>s1 status. case status of
      OpCOMMITTED \<Rightarrow> commit_and_unpin ans s1 source ?k
    | OpUNKNOWN \<Rightarrow> keep_quarantined s1 ?k OpUNKNOWN
    | OpPREPARED \<Rightarrow> abort_target ans s1 target ?k (\<lambda>s2. unpin_and_release ans s2 source ?k)
    | OpABORTED \<Rightarrow> unpin_and_release ans s1 source ?k))" for source target
    using assms(1,2) by (auto split: operation_status.split intro!: fates)
  show ?thesis
    using assms mapped ask
    by (auto simp: cleanup_load_context_def Let_def split: option.split intro!: fate_unpin fate_failed)
qed

subsection \<open>Evidence\<close>

text \<open>Every call a load may have made has its counterpart among the calls of the cleanup.\<close>

definition undone :: "cleanup_answers \<Rightarrow> string \<Rightarrow> string \<Rightarrow> string \<Rightarrow> prefix_call list \<Rightarrow> prefix_call list \<Rightarrow> bool" where
  "undone ans source target k loaded calls \<longleftrightarrow>
     UnpinPrefix source k \<in> set calls \<and> ca_unpin ans = Inr () \<and>
     (asked is_prepare loaded \<longrightarrow>
        GetPrefixOperation target k \<in> set calls \<and>
        (ca_get ans = Inr OpABORTED \<or>
         ca_get ans = Inr OpPREPARED \<and> AbortCachedPrefix target k \<in> set calls \<and> ca_abort_cached ans = Inr ())) \<and>
     (asked is_transfer loaded \<longrightarrow>
        AbortMappedPrefix source target k \<in> set calls \<and>
        (\<exists>status. ca_abort_mapped ans = Inr status \<and> status \<noteq> TrUNKNOWN \<and>
           (ca_get ans = Inr OpPREPARED \<longrightarrow> status \<in> {TrFENCED, TrCOMPLETED})))"

lemma unpin_calls:
  "fst (snd (unpin_and_release ans s src k)) = [UnpinPrefix src k]"
  "is_action ''ABORTED'' (snd (snd (unpin_and_release ans s src k))) \<Longrightarrow> ca_unpin ans = Inr ()"
  "\<not> is_action ''COMMITTED'' (snd (snd (unpin_and_release ans s src k)))"
  by (auto simp: unpin_and_release_def is_action_def Let_def split: sum.splits prod.splits)

lemma no_abort:
  "\<not> is_action ''ABORTED'' (snd (snd (commit_and_unpin ans s src k)))"
  "\<not> is_action ''ABORTED'' (snd (snd (keep_quarantined s k status)))"
  "\<not> is_action ''COMMITTED'' (snd (snd (keep_quarantined s k status)))"
  "\<not> is_action a (Inl x)"
  by (auto simp: commit_and_unpin_def keep_quarantined_def is_action_def Let_def split: sum.splits)

lemma after_calls_parts [simp]:
  "fst (snd (after_calls xs r)) = xs @ fst (snd r)" "snd (snd (after_calls xs r)) = snd (snd r)" "fst (after_calls xs r) = fst r"
  by (simp_all add: after_calls_def)

lemma abort_target_unpins:
  assumes "is_action ''ABORTED'' (snd (snd (abort_target ans s tgt k (\<lambda>t. unpin_and_release ans t src k))))"
  shows "fst (snd (abort_target ans s tgt k (\<lambda>t. unpin_and_release ans t src k))) = [AbortCachedPrefix tgt k, UnpinPrefix src k]"
    "ca_unpin ans = Inr ()" "ca_abort_cached ans = Inr ()"
  using assms unpin_calls
  by (auto simp: abort_target_def Let_def no_abort split: sum.splits)

lemma abort_target_not_committed:
  "\<not> is_action ''COMMITTED'' (snd (snd (abort_target ans s tgt k (\<lambda>t. unpin_and_release ans t src k))))"
  by (auto simp: abort_target_def Let_def no_abort unpin_calls split: sum.splits)

lemma ask_target_parts:
  assumes "is_action a (snd (snd (ask_target ans s tgt k next)))"
  obtains t status where "ca_get ans = Inr status" "is_action a (snd (snd (next t status)))"
    "fst (snd (ask_target ans s tgt k next)) = GetPrefixOperation tgt k # fst (snd (next t status))"
  using assms by (auto simp: ask_target_def Let_def no_abort split: sum.splits)

text \<open>The matrix that the second stage and the local mode share.\<close>

definition target_matrix :: "cleanup_answers \<Rightarrow> string \<Rightarrow> string \<Rightarrow> string \<Rightarrow> bool \<Rightarrow> pd_scheduler \<Rightarrow> operation_status \<Rightarrow> clean_step" where
  "target_matrix ans source target k stopped s1 status =
     (case status of
        OpCOMMITTED \<Rightarrow> commit_and_unpin ans s1 source k
      | OpUNKNOWN \<Rightarrow> keep_quarantined s1 k OpUNKNOWN
      | OpPREPARED \<Rightarrow> if \<not> stopped then keep_quarantined s1 k OpUNKNOWN
          else abort_target ans s1 target k (\<lambda>s2. unpin_and_release ans s2 source k)
      | OpABORTED \<Rightarrow> unpin_and_release ans s1 source k)"

lemma matrix_aborted:
  assumes "is_action ''ABORTED'' (snd (snd (target_matrix ans src tgt k stopped s status)))"
  shows "UnpinPrefix src k \<in> set (fst (snd (target_matrix ans src tgt k stopped s status))) \<and> ca_unpin ans = Inr () \<and>
    (status = OpABORTED \<or> status = OpPREPARED \<and> stopped \<and> ca_abort_cached ans = Inr () \<and>
       AbortCachedPrefix tgt k \<in> set (fst (snd (target_matrix ans src tgt k stopped s status))))"
  using assms unpin_calls no_abort abort_target_unpins
  by (cases status) (auto simp: target_matrix_def split: if_splits)

lemma matrix_committed:
  "is_action ''COMMITTED'' (snd (snd (target_matrix ans src tgt k stopped s status))) \<Longrightarrow> status = OpCOMMITTED"
  using unpin_calls no_abort abort_target_not_committed
  by (cases status) (auto simp: target_matrix_def split: if_splits)

lemma ask_matrix_aborted:
  assumes "is_action ''ABORTED'' (snd (snd (ask_target ans s tgt k (target_matrix ans src tgt k stopped))))"
  shows "undone ans src tgt k [call \<leftarrow> loaded. \<not> is_transfer call] (fst (snd (ask_target ans s tgt k (target_matrix ans src tgt k stopped)))) \<and>
    (ca_get ans = Inr OpPREPARED \<longrightarrow> stopped)"
  using assms
proof (rule ask_target_parts)
  fix t status
  assume g: "ca_get ans = Inr status" and a: "is_action ''ABORTED'' (snd (snd (target_matrix ans src tgt k stopped t status)))"
    and c: "fst (snd (ask_target ans s tgt k (target_matrix ans src tgt k stopped))) =
      GetPrefixOperation tgt k # fst (snd (target_matrix ans src tgt k stopped t status))"
  have "\<not> asked is_transfer [call \<leftarrow> loaded. \<not> is_transfer call]" by (auto simp: asked_def)
  with matrix_aborted [OF a] g show ?thesis unfolding c by (auto simp: undone_def)
qed

lemma local_matrix:
  "(\<lambda>s1 status. case status of
      OpCOMMITTED \<Rightarrow> commit_and_unpin ans s1 source k
    | OpPREPARED \<Rightarrow> abort_target ans s1 target k (\<lambda>s2. unpin_and_release ans s2 source k)
    | OpUNKNOWN \<Rightarrow> keep_quarantined s1 k OpUNKNOWN
    | OpABORTED \<Rightarrow> unpin_and_release ans s1 source k) = target_matrix ans source target k True"
  by (auto simp: target_matrix_def fun_eq_iff split: operation_status.split)

lemma remote_matrix:
  "(\<lambda>s1 status. case status of
      OpCOMMITTED \<Rightarrow> commit_and_unpin ans s1 source k
    | OpUNKNOWN \<Rightarrow> keep_quarantined s1 k OpUNKNOWN
    | OpPREPARED \<Rightarrow>
        if transfer \<notin> F then keep_quarantined s1 k OpUNKNOWN
        else abort_target ans s1 target k (\<lambda>s2. unpin_and_release ans s2 source k)
    | OpABORTED \<Rightarrow> unpin_and_release ans s1 source k) = target_matrix ans source target k (transfer \<in> F)"
  by (auto simp: target_matrix_def fun_eq_iff split: operation_status.split)

lemma mapped_aborted:
  assumes "is_action ''ABORTED'' (snd (snd (cleanup_mapped_operation ans s plan)))"
    "pl_mode plan = ''local_reuse'' \<longrightarrow> \<not> asked is_transfer loaded"
  shows "undone ans (pl_source_instance plan) (pl_target_instance plan) (pl_operation_id plan) loaded
    (fst (snd (cleanup_mapped_operation ans s plan)))"
proof -
  let ?src = "pl_source_instance plan" and ?tgt = "pl_target_instance plan" and ?k = "pl_operation_id plan"
  have prep: "asked is_prepare [call \<leftarrow> loaded. \<not> is_transfer call] \<longleftrightarrow> asked is_prepare loaded"
    by (auto simp: asked_def) (metis is_prepare.simps(3) is_transfer.elims(2))
  show ?thesis
  proof (cases "pl_mode plan = ''local_reuse''")
    case True
    then have eq: "cleanup_mapped_operation ans s plan = ask_target ans s ?tgt ?k (target_matrix ans ?src ?tgt ?k True)"
      by (simp add: cleanup_mapped_operation_def Let_def local_matrix)
    from ask_matrix_aborted [OF assms(1) [unfolded eq], of loaded] True assms(2) prep
    show ?thesis unfolding eq by (auto simp: undone_def)
  next
    case False
    from assms(1) False obtain status where t: "ca_abort_mapped ans = Inr status"
      by (cases "ca_abort_mapped ans") (simp_all add: cleanup_mapped_operation_def Let_def no_abort)
    let ?s = "ca_between ans (AbortMappedPrefix ?src ?tgt ?k) s"
    have eq: "cleanup_mapped_operation ans s plan = after_calls [AbortMappedPrefix ?src ?tgt ?k]
        (if status = TrUNKNOWN then keep_quarantined ?s ?k OpUNKNOWN
         else ask_target ans ?s ?tgt ?k (target_matrix ans ?src ?tgt ?k (status \<in> {TrFENCED, TrCOMPLETED})))"
      unfolding cleanup_mapped_operation_def Let_def remote_matrix using False t by simp
    have known: "status \<noteq> TrUNKNOWN" using assms(1) unfolding eq by (auto simp: no_abort)
    with ask_matrix_aborted [of ans ?s ?tgt ?k ?src "status \<in> {TrFENCED, TrCOMPLETED}" loaded] assms(1) prep t
    show ?thesis unfolding eq by (auto simp: undone_def)
  qed
qed

lemma mapped_committed:
  assumes "is_action ''COMMITTED'' (snd (snd (cleanup_mapped_operation ans s plan)))"
  shows "ca_get ans = Inr OpCOMMITTED"
proof -
  have m: "ca_get ans = Inr OpCOMMITTED"
    if "is_action ''COMMITTED'' (snd (snd (ask_target ans t tgt k (target_matrix ans src tgt k stopped))))" for t tgt k src stopped
    using that by (rule ask_target_parts) (use matrix_committed in simp)
  from assms m show ?thesis
    unfolding cleanup_mapped_operation_def Let_def local_matrix remote_matrix
    by (auto simp: no_abort split: if_splits sum.splits)
qed

lemma context_aborted:
  assumes st: "stage_tells k src tgt c loaded" and a: "is_action ''ABORTED'' (snd (snd (snd (cleanup_load_context ans s c))))"
  shows "undone ans src tgt k loaded (fst (snd (snd (cleanup_load_context ans s c))))"
proof (cases "lc_stage c \<in> {STARTED, RESOLVING, RESOLVED}")
  case True
  with st a show ?thesis
    by (auto simp: cleanup_load_context_def Let_def stage_tells_def undone_def unpin_calls)
next
  case late: False
  with st obtain plan where p: "lc_plan c = Some plan" "pl_operation_id plan = k" "pl_source_instance plan = src"
    "pl_target_instance plan = tgt" "pl_mode plan = ''local_reuse'' \<longrightarrow> \<not> asked is_transfer loaded"
    by (auto simp: stage_tells_def)
  have ids: "lc_operation_id c = k" "lc_source_instance c = src" "lc_target_instance c = tgt"
    using st by (simp_all add: stage_tells_def)
  show ?thesis
  proof (cases "lc_stage c \<in> {PREPARING, PREPARED}")
    case True
    then have none: "\<not> asked is_transfer loaded" using st by (simp add: stage_tells_def)
    have eq: "snd (cleanup_load_context ans s c) = ask_target ans s tgt k (target_matrix ans src tgt k True)"
      using True late p ids by (simp add: cleanup_load_context_def Let_def local_matrix [symmetric])
    have "[call \<leftarrow> loaded. \<not> is_transfer call] = loaded" using none by (auto simp: asked_def intro!: filter_True)
    with ask_matrix_aborted [of ans s tgt k src True loaded] a show ?thesis unfolding eq by simp
  next
    case False
    have eq: "snd (cleanup_load_context ans s c) = cleanup_mapped_operation ans s plan"
      using False late p by (simp add: cleanup_load_context_def Let_def)
    from mapped_aborted [of ans s plan loaded] a p show ?thesis unfolding eq by simp
  qed
qed

lemma context_committed:
  assumes "is_action ''COMMITTED'' (snd (snd (snd (cleanup_load_context ans s c))))"
  shows "ca_get ans = Inr OpCOMMITTED"
proof -
  have m: "ca_get ans = Inr OpCOMMITTED"
    if "is_action ''COMMITTED'' (snd (snd (ask_target ans t tgt k (target_matrix ans src tgt k stopped))))" for t tgt k src stopped
    using that by (rule ask_target_parts) (use matrix_committed in simp)
  have eq: "(\<lambda>s1 status. case status of
      OpCOMMITTED \<Rightarrow> commit_and_unpin ans s1 source k
    | OpUNKNOWN \<Rightarrow> keep_quarantined s1 k OpUNKNOWN
    | OpPREPARED \<Rightarrow> abort_target ans s1 target k (\<lambda>s2. unpin_and_release ans s2 source k)
    | OpABORTED \<Rightarrow> unpin_and_release ans s1 source k) = target_matrix ans source target k True" for source target k
    by (auto simp: target_matrix_def fun_eq_iff split: operation_status.split)
  from assms m mapped_committed show ?thesis
    unfolding cleanup_load_context_def Let_def eq
    by (auto simp: no_abort unpin_calls split: if_splits option.splits)
qed

subsection \<open>Property\<close>


text \<open>A copy from \<open>p0\<close> to \<open>d0\<close> whose response is lost; the target is still prepared and the copy is fenced.\<close>

definition load_sched_sample :: pd_scheduler where
  "load_sched_sample = foldl sched_exec (scheduler_init pd_config_default)
     [Register ''d0'' ''decode'' 2 ''e1'' [], Reserve None ''d0'' ''r1'' ''op1'' ''t1'' 1]"

definition load_decision_sample :: cached_prefix_decision where
  "load_decision_sample = \<lparr>cd_source_instance = ''p0'', cd_source_epoch = ''e0'', cd_decode_instance = ''d0'',
     cd_cached_prefix_blocks = 1, cd_cached_prefix_tokens = 2, cd_transfer_bytes = 64, cd_estimated_gain_ms = Some 5\<rparr>"

definition load_fingerprint_sample :: prompt_fingerprint where
  "load_fingerprint_sample = \<lparr>fp_namespace = ''n'', fp_kv_compatibility_id = ''k'', fp_request_context_digest = ''c'',
     fp_token_ids = [1, 2, 3], fp_chain_hashes = [9], fp_block_size = 2\<rparr>"

definition load_answers_sample :: load_answers where
  "load_answers_sample =
     \<lparr>la_resolve = Inr (Some \<lparr>rv_operation_id = ''op1'', rv_source_epoch = ''e0'', rv_src_block_ids = [7]\<rparr>),
      la_prepare = Inr (Some \<lparr>pr_operation_id = ''op1'', pr_mode = ''remote_transfer'', pr_dst_block_ids = [4]\<rparr>),
      la_transfer = Inl ''timeout'', la_commit = Inr (), la_unpin = Inr ()\<rparr>"

definition cleanup_answers_sample :: cleanup_answers where
  "cleanup_answers_sample = \<lparr>ca_abort_mapped = Inr TrFENCED, ca_get = Inr OpPREPARED, ca_abort_cached = Inr (),
     ca_unpin = Inr (), ca_between = (\<lambda>_ s. s)\<rparr>"

lemma load_sched_sample_held: "slot_held load_sched_sample ''op1''"
proof -
  have run: "ok_run sched_exec sched_admissible (scheduler_init pd_config_default)
      [Register ''d0'' ''decode'' 2 ''e1'' [], Reserve None ''d0'' ''r1'' ''op1'' ''t1'' 1]"
    by (simp add: sched_eval)
  have "sched_inv load_sched_sample"
    using sched_ops.run_inv [OF run scheduler_init_inv] by (simp add: load_sched_sample_def)
  moreover have "slot_state load_sched_sample ''op1'' = Some RESERVED"
    by (simp add: load_sched_sample_def slot_state_def sched_eval)
  ultimately show ?thesis by (simp add: slot_held_def)
qed


end
