(* ===== verification/Nats_Queue.thy ===== *)
theory Nats_Queue
  imports Json
begin

text \<open>
  \<^verbatim>\<open>prism_serve/scheduler/queue.py\<close>: the NATS transport of one gateway.  The client library is not part of the
  repository: whether a connection can be opened, is open or has been closed for good are arguments,
  and so is the decoding of a message (\<^term>\<open>None\<close> when it is not JSON).  Subjects are strings of Latin-1
  characters.
\<close>

subsection \<open>Subjects\<close>

datatype nats_error =
  NatsAssertion
| NatsValueError string
| NatsUnavailable string
| NatsClientRaised

definition isspace :: "char \<Rightarrow> bool" where
  "isspace c \<longleftrightarrow> of_char c \<in> {9, 10, 11, 12, 13, 28, 29, 30, 31, 32, 133, 160 :: nat}"

definition valid_token :: "string \<Rightarrow> bool" where
  "valid_token value \<longleftrightarrow> value \<noteq> [] \<and> \<not> list_ex isspace value \<and> \<not> list_ex (\<lambda>c. c \<in> set ''.*>'') value"

definition validate_subject_token :: "string \<Rightarrow> nats_error + unit" where
  "validate_subject_token value = (if valid_token value then Inr () else Inl NatsAssertion)"

definition completion_events :: "string list" where
  "completion_events = [''prefill_done'', ''decode_done'', ''recompute_done'', ''first_token'', ''suffix_prefill_done'', ''decode_progress'']"

subsection \<open>The queue\<close>

record nats_config =
  nc_scheduler_id :: "string option"
  nc_scheduler_generation :: "string option"
  nc_nats_required :: bool

record nats_client =
  cl_connected :: bool
  cl_closed :: bool

text \<open>An \<open>asyncio.Queue\<close> is the list of its items, oldest first; \<open>nq_sent\<close> logs what reached the client.\<close>

record nats_queue =
  nq_owner_id :: string
  nq_use_mock :: bool
  nq_nc :: "nats_client option"
  nq_inbox :: "(string, json list) dict"
  nq_subscriptions :: "(string \<times> string) list"
  nq_sent :: "(string \<times> jobj) list"

definition missing_text :: "string option \<Rightarrow> bool" where
  "missing_text x = (case x of None \<Rightarrow> True | Some s \<Rightarrow> s = [])"

definition queue_init :: "nats_config \<Rightarrow> bool \<Rightarrow> nats_error + nats_queue" where
  "queue_init c use_mock =
     (if \<not> use_mock \<and> nc_nats_required c \<and> missing_text (nc_scheduler_id c)
      then Inl (NatsValueError ''scheduler_id must be injected from Kubernetes metadata.uid'')
      else if \<not> use_mock \<and> nc_nats_required c \<and> missing_text (nc_scheduler_generation c)
      then Inl (NatsValueError ''scheduler_generation must identify this process start'')
      else
        (let pod_uid = (case nc_scheduler_id c of None \<Rightarrow> ''serve-local'' | Some s \<Rightarrow> s);
             generation = (if missing_text (nc_scheduler_generation c) then ''test-generation'' else the (nc_scheduler_generation c));
             owner_id = pod_uid @ ''--'' @ generation
         in case validate_subject_token pod_uid of
              Inl e \<Rightarrow> Inl e
            | Inr _ \<Rightarrow>
                (case validate_subject_token generation of
                   Inl e \<Rightarrow> Inl e
                 | Inr _ \<Rightarrow>
                     (case validate_subject_token owner_id of
                        Inl e \<Rightarrow> Inl e
                      | Inr _ \<Rightarrow> Inr \<lparr>nq_owner_id = owner_id, nq_use_mock = use_mock, nq_nc = None, nq_inbox = [],
                          nq_subscriptions = [], nq_sent = []\<rparr>))))"

definition dispatch_subject :: "string \<Rightarrow> nats_error + string" where
  "dispatch_subject instance_id = map_sum id (\<lambda>_. ''dispatch_prefill.'' @ instance_id) (validate_subject_token instance_id)"

definition dispatch_suffix_subject :: "string \<Rightarrow> nats_error + string" where
  "dispatch_suffix_subject instance_id = map_sum id (\<lambda>_. ''dispatch_suffix.'' @ instance_id) (validate_subject_token instance_id)"

definition reply_subject :: "nats_queue \<Rightarrow> string \<Rightarrow> nats_error + string" where
  "reply_subject q event =
     (if event \<in> set completion_events then Inr (event @ ''.'' @ nq_owner_id q) else Inl NatsAssertion)"

definition is_connected :: "nats_queue \<Rightarrow> bool" where
  "is_connected q = (if nq_use_mock q then True else case nq_nc q of None \<Rightarrow> False | Some nc \<Rightarrow> cl_connected nc)"

definition is_permanently_closed :: "nats_queue \<Rightarrow> bool" where
  "is_permanently_closed q = (if nq_use_mock q then False else case nq_nc q of None \<Rightarrow> True | Some nc \<Rightarrow> cl_closed nc)"

text \<open>
  \<open>connect\<close>; \<open>subscribed\<close> is the number of subscriptions the client accepts before one raises.
\<close>

definition wanted_subscriptions :: "nats_queue \<Rightarrow> (string \<times> string) list" where
  "wanted_subscriptions q = map (\<lambda>e. (e @ ''.'' @ nq_owner_id q, e)) completion_events @ [(''kv_usage.*'', ''kv_usage'')]"

definition connect_queue :: "nats_client option \<Rightarrow> nat \<Rightarrow> nats_queue \<Rightarrow> (nats_queue, nats_error, unit) outcome" where
  "connect_queue client subscribed q =
     (if nq_use_mock q then (q, Inr ())
      else case client of
        None \<Rightarrow> (q, Inl NatsClientRaised)
      | Some nc \<Rightarrow>
          (let q1 = q\<lparr>nq_nc := Some nc, nq_subscriptions := nq_subscriptions q @ take subscribed (wanted_subscriptions q)\<rparr>
           in (q1, if subscribed < length (wanted_subscriptions q) then Inl NatsClientRaised else Inr ())))"

definition close_queue :: "nats_queue \<Rightarrow> nats_queue" where
  "close_queue q = q\<lparr>nq_nc := None\<rparr>"

definition publish :: "bool \<Rightarrow> nats_queue \<Rightarrow> string \<Rightarrow> jobj \<Rightarrow> (nats_queue, nats_error, unit) outcome" where
  "publish client_ok q subject data =
     (if nq_use_mock q then (q, Inr ())
      else if \<not> is_connected q then (q, Inl (NatsUnavailable subject))
      else if client_ok then (q\<lparr>nq_sent := nq_sent q @ [(subject, data)]\<rparr>, Inr ())
      else (q, Inl NatsClientRaised))"

definition poll :: "nats_queue \<Rightarrow> string \<Rightarrow> nats_queue \<times> json list" where
  "poll q subject =
     (case dget (nq_inbox q) subject of
        None \<Rightarrow> (q, [])
      | Some msgs \<Rightarrow> (q\<lparr>nq_inbox := dput (nq_inbox q) subject []\<rparr>, msgs))"

text \<open>The callback \<open>_make_handler\<close> returns, and \<open>_put_mock\<close>.\<close>

definition put_inbox :: "nats_queue \<Rightarrow> string \<Rightarrow> json \<Rightarrow> nats_queue" where
  "put_inbox q subject data =
     q\<lparr>nq_inbox := dput (nq_inbox q) subject (dget_or (nq_inbox q) subject [] @ [data])\<rparr>"

definition handle_message :: "nats_queue \<Rightarrow> string \<Rightarrow> json option \<Rightarrow> nats_queue" where
  "handle_message q subject decoded = (case decoded of None \<Rightarrow> q | Some data \<Rightarrow> put_inbox q subject data)"

subsection \<open>Sequences of operations\<close>

datatype queue_op =
  Arrive string "json option"
| Poll string
| Publish bool string jobj
| Connect "nats_client option" nat
| CloseQueue

text \<open>The second component is what polls have returned, each message with its inbox.\<close>

fun queue_exec :: "nats_queue \<times> (string \<times> json) list \<Rightarrow> queue_op \<Rightarrow> nats_queue \<times> (string \<times> json) list" where
  "queue_exec (q, out) (Arrive t m) = (handle_message q t m, out)"
| "queue_exec (q, out) (Poll t) = (case poll q t of (q1, msgs) \<Rightarrow> (q1, out @ map (Pair t) msgs))"
| "queue_exec (q, out) (Publish b s d) = (fst (publish b q s d), out)"
| "queue_exec (q, out) (Connect c n) = (fst (connect_queue c n q), out)"
| "queue_exec (q, out) CloseQueue = (close_queue q, out)"

definition on_topic :: "string \<Rightarrow> (string \<times> json) list \<Rightarrow> json list" where
  "on_topic t xs = map snd (filter (\<lambda>p. fst p = t) xs)"

fun arrived :: "string \<Rightarrow> queue_op \<Rightarrow> json list" where
  "arrived t (Arrive t' (Some m)) = (if t' = t then [m] else [])"
| "arrived t _ = []"

definition pending :: "nats_queue \<Rightarrow> string \<Rightarrow> json list" where
  "pending q t = dget_or (nq_inbox q) t []"

lemma on_topic_simps [simp]:
  "on_topic t [] = []" "on_topic t (xs @ ys) = on_topic t xs @ on_topic t ys"
  "on_topic t (map (Pair t') ms) = (if t' = t then ms else [])"
  by (simp_all add: on_topic_def) (induction ms; simp)

lemma queue_exec_balance:
  "on_topic t (snd (queue_exec s op)) @ pending (fst (queue_exec s op)) t =
   on_topic t (snd s) @ pending (fst s) t @ arrived t op"
proof (cases s)
  case (Pair q out)
  show ?thesis
  proof (cases op)
    case (Arrive t' m)
    then show ?thesis by (cases m) (simp_all add: Pair handle_message_def put_inbox_def pending_def dget_or_def dict_simps)
  next
    case (Poll t')
    then show ?thesis by (auto simp: Pair poll_def pending_def dget_or_def dict_simps split: option.split)
  qed (simp_all add: Pair publish_def connect_queue_def close_queue_def pending_def Let_def split: option.split)
qed

text \<open>
  C30.  The inboxes lose, repeat and reorder nothing: whatever the gateway does in between, what polls of an inbox
  have returned, followed by what still waits there, is exactly the messages that arrived for it and could
  be decoded, in the order they arrived.
\<close>

theorem inbox_delivers:
  "on_topic t (snd (foldl queue_exec (q, []) ops)) @ pending (fst (foldl queue_exec (q, []) ops)) t =
   pending q t @ concat (map (arrived t) ops)"
proof (induction ops rule: rev_induct)
  case (snoc op ops)
  then show ?case by (simp add: queue_exec_balance)
qed (simp add: on_topic_def)

lemma subject_parts:
  assumes "CHR ''.'' \<notin> set e"
  shows "takeWhile (\<lambda>c. c \<noteq> CHR ''.'') (e @ ''.'' @ o') = e" "drop (Suc (length e)) (e @ ''.'' @ o') = o'"
  using assms by (auto simp: takeWhile_append)

lemma events_have_no_dot: "e \<in> set completion_events \<Longrightarrow> CHR ''.'' \<notin> set e"
  by (auto simp: completion_events_def)



end
