(* ===== verification/Canonical_Cleanup.thy ===== *)
theory Canonical_Cleanup
  imports Transfer_Governor Gateway_Output
begin

text \<open>
  The second half of \<^verbatim>\<open>prism_serve/scheduler/main_loop.py\<close>: ending a request.  One cleanup per request stops
  what may still run for it on its P and D instances, collects what the instances acknowledged in a
  \<open>cleanup_proof\<close>, and gives capacity back only where the proof allows it; otherwise the instance goes into
  quarantine.  The operations work on the tracker, the scheduler, the governor and the output buffer
  together (\<open>loop_world\<close>).  The answers of the instances are an argument, and so is what other tasks do to
  that world while a call is awaited (\<open>le_between\<close>).  A request object held across an await is the entry
  of the tracker under its id, or the last value of an entry that was removed (\<open>lw_removed\<close>).
\<close>

subsection \<open>The world of the loop\<close>

datatype loop_call =
  AbortRequestCall string string string
| AbortTransferCall string string string string string
| CleanupRequestCall string bool
| TriggerRecomputeCall string string
| RequestOutputCall string string nat

datatype abort_reply = ReplyRaised | ReplyDict jobj | ReplyValue bool

record loop_world =
  lw_sched :: pd_scheduler
  lw_gov :: governor
  lw_tracker :: tracker
  lw_removed :: "(string, request_info) dict"
  lw_out :: "output_buffer option"
  lw_metrics :: "metric list"
  lw_calls :: "loop_call list"

record loop_env =
  le_network :: bool
  le_owner :: string
  le_has_abort_transfer :: bool
  le_reply :: "loop_call \<Rightarrow> abort_reply"
  le_output :: "string \<Rightarrow> string \<Rightarrow> nat \<Rightarrow> output_value"
  le_between :: "loop_call \<Rightarrow> loop_world \<Rightarrow> loop_world"
  le_token :: string
  le_now :: time

datatype loop_error =
  InvalidCleanupProof
| LoopSched sched_error
| LoopTracker tracker_error
| LoopGov gov_error
| LoopOutput output_error
| OutputQueryNotReady
| OutputIdentityChanged
| LoopRpcRaised
| LoopFuel

type_synonym 'a loop_result = "(loop_world, loop_error, 'a) outcome"

text \<open>A call is sent, other tasks run, the answer arrives.\<close>

definition await_call :: "loop_env \<Rightarrow> loop_call \<Rightarrow> loop_world \<Rightarrow> loop_world" where
  "await_call env call w = le_between env call (w\<lparr>lw_calls := lw_calls w @ [call]\<rparr>)"

text \<open>
  The request object a coroutine holds, as it is now: the entry of the tracker, or the last value of an
  object that was removed from it.
\<close>

definition now_req :: "loop_world \<Rightarrow> request_info \<Rightarrow> request_info" where
  "now_req w req =
     (case tracker_get (lw_tracker w) (rq_req_id req) of
        Some r \<Rightarrow> r | None \<Rightarrow> dget_or (lw_removed w) (rq_req_id req) req)"

definition or_none :: "string \<Rightarrow> string option" where
  "or_none x = (if x = [] then None else Some x)"

text \<open>\<open>bool(v)\<close> of a JSON value.\<close>

definition truthy :: "json \<Rightarrow> bool" where
  "truthy v = (case v of JNull \<Rightarrow> False | JBool b \<Rightarrow> b | JInt n \<Rightarrow> n \<noteq> 0 | JFloat x \<Rightarrow> x \<noteq> 0
     | JStr s \<Rightarrow> s \<noteq> [] | JArr xs \<Rightarrow> xs \<noteq> [] | JObj kvs \<Rightarrow> kvs \<noteq> [])"

definition reply_ok :: "abort_reply \<Rightarrow> bool" where
  "reply_ok r = (case r of ReplyRaised \<Rightarrow> False | ReplyDict d \<Rightarrow> truthy (jget d ''success'') | ReplyValue b \<Rightarrow> b)"

definition abort_remote_request :: "loop_env \<Rightarrow> loop_world \<Rightarrow> string \<Rightarrow> string \<Rightarrow> loop_world \<times> bool" where
  "abort_remote_request env w instance_id req_id =
     (let call = AbortRequestCall instance_id (le_owner env) req_id
      in (await_call env call w, reply_ok (le_reply env call)))"

definition abort_remote_transfer ::
  "loop_env \<Rightarrow> loop_world \<Rightarrow> string \<Rightarrow> string \<Rightarrow> string \<Rightarrow> string \<Rightarrow> loop_world \<times> bool" where
  "abort_remote_transfer env w src_instance dst_instance req_id operation_id =
     (if \<not> le_has_abort_transfer env then (w, False)
      else let call = AbortTransferCall src_instance dst_instance (le_owner env) req_id operation_id
        in (await_call env call w, reply_ok (le_reply env call)))"

abbreviation with_sched :: "loop_world \<Rightarrow> pd_scheduler \<Rightarrow> loop_world" where
  "with_sched w s \<equiv> w\<lparr>lw_sched := s\<rparr>"

abbreviation with_gov :: "loop_world \<Rightarrow> governor \<Rightarrow> loop_world" where
  "with_gov w g \<equiv> w\<lparr>lw_gov := g\<rparr>"

definition quarantine_in :: "loop_env \<Rightarrow> loop_world \<Rightarrow> string \<Rightarrow> uncertain_op option \<Rightarrow> uncertain_op option \<Rightarrow> loop_world" where
  "quarantine_in env w instance_id uncertain_transfer uncertain_dispatch =
     with_sched w (fst (quarantine_instance (lw_sched w) instance_id uncertain_transfer uncertain_dispatch (le_token env) (le_now env)))"

definition prefill_done_in :: "loop_world \<Rightarrow> string \<Rightarrow> string option \<Rightarrow> loop_world" where
  "prefill_done_in w instance_id epoch = with_sched w (fst (on_prefill_done (lw_sched w) instance_id epoch))"

definition decode_finished_in :: "loop_world \<Rightarrow> string \<Rightarrow> string option \<Rightarrow> string option \<Rightarrow> bool loop_result" where
  "decode_finished_in w instance_id epoch operation_id =
     (case on_decode_finished (lw_sched w) instance_id epoch operation_id of
        (s, Inl e) \<Rightarrow> (with_sched w s, Inl (LoopSched e)) | (s, Inr b) \<Rightarrow> (with_sched w s, Inr b))"

definition cancel_in :: "loop_world \<Rightarrow> string \<Rightarrow> string option \<Rightarrow> loop_world" where
  "cancel_in w req_id operation_id = with_gov w (fst (cancel (lw_gov w) req_id operation_id))"

definition finish_in :: "loop_world \<Rightarrow> string \<Rightarrow> loop_world" where
  "finish_in w req_id = with_gov w (gov_finish_request (lw_gov w) req_id)"

subsection \<open>Abort and release\<close>

fun abort_and_release_loop ::
  "loop_env \<Rightarrow> loop_world \<Rightarrow> request_info \<Rightarrow> (bool \<times> string) list \<Rightarrow> unit loop_result" where
  "abort_and_release_loop env w req [] = (w, Inr ())"
| "abort_and_release_loop env w req ((is_prefill, instance_id) # rest) =
     (let r = now_req w req;
          epoch = (if is_prefill then rq_prefill_instance_epoch r else rq_decode_instance_epoch r)
      in if \<not> epoch_matches (lw_sched w) instance_id epoch then abort_and_release_loop env w req rest
         else case abort_remote_request env w instance_id (rq_req_id req) of
           (w1, False) \<Rightarrow> abort_and_release_loop env (quarantine_in env w1 instance_id None None) req rest
         | (w1, True) \<Rightarrow>
             if is_prefill then abort_and_release_loop env (prefill_done_in w1 instance_id (Some epoch)) req rest
             else case decode_finished_in w1 instance_id (Some epoch) None of
               (w2, Inl e) \<Rightarrow> (w2, Inl e)
             | (w2, Inr _) \<Rightarrow> abort_and_release_loop env w2 req rest)"

definition abort_and_release :: "loop_env \<Rightarrow> loop_world \<Rightarrow> request_info \<Rightarrow> bool \<Rightarrow> unit loop_result" where
  "abort_and_release env w req include_prefill =
     (let instances = (if include_prefill \<and> rq_prefill_instance req \<noteq> [] then [(True, rq_prefill_instance req)] else []) @
            (if rq_decode_instance req \<noteq> [] then [(False, rq_decode_instance req)] else [])
      in case abort_and_release_loop env w req instances of
           (w1, Inl e) \<Rightarrow> (w1, Inl e) | (w1, Inr _) \<Rightarrow> (finish_in w1 (rq_req_id req), Inr ()))"

subsection \<open>Cleanup proofs\<close>

datatype remote_request_state = NOT_OWNED | NEVER_DISPATCHED | ABORT_ACK | UNCERTAIN | ALREADY_COMPLETED

datatype transfer_cleanup_state = TcNONE | TcDEFERRED_CANCELLED | TcFENCED_ACK | TcUNCERTAIN

datatype transfer_epoch_result = BOTH_CURRENT | SOURCE_CHANGED_TARGET_CURRENT | TARGET_CHANGED

definition classify_transfer_epochs :: "request_info \<Rightarrow> pd_scheduler \<Rightarrow> transfer_epoch_result" where
  "classify_transfer_epochs req s =
     (if \<not> epoch_matches s (rq_decode_instance req) (rq_decode_instance_epoch req) then TARGET_CHANGED
      else if \<not> epoch_matches s (rq_prefill_instance req) (rq_prefill_instance_epoch req) then SOURCE_CHANGED_TARGET_CURRENT
      else BOTH_CURRENT)"

definition quarantine_source_changed_transfer :: "loop_env \<Rightarrow> loop_world \<Rightarrow> request_info \<Rightarrow> loop_world" where
  "quarantine_source_changed_transfer env w req =
     cancel_in (quarantine_in env w (rq_decode_instance req)
       (Some (le_owner env, rq_req_id req, rq_transfer_operation_id req, rq_decode_instance_epoch req)) None)
       (rq_req_id req) (Some (rq_transfer_operation_id req))"

record cleanup_proof =
  cpf_request_state :: seq_state
  cpf_p_remote_request_state :: remote_request_state
  cpf_d_remote_request_state :: remote_request_state
  cpf_transfer_state :: transfer_cleanup_state
  cpf_transfer_mode :: task_state_name
  cpf_publish_outcome :: string
  cpf_request_owns_p_load :: bool
  cpf_request_owns_original_d_slot :: bool
  cpf_d_epoch_changed :: bool

definition p_load_releasable :: "cleanup_proof \<Rightarrow> bool" where
  "p_load_releasable proof \<longleftrightarrow>
     \<not> cpf_request_owns_p_load proof \<or>
     cpf_p_remote_request_state proof \<in> {NOT_OWNED, ALREADY_COMPLETED} \<or>
     cpf_publish_outcome proof = ''NOT_STARTED'' \<and> cpf_p_remote_request_state proof = NEVER_DISPATCHED \<or>
     cpf_publish_outcome proof = ''ACKED'' \<and> cpf_p_remote_request_state proof = ABORT_ACK"

definition validate_cleanup_proof :: "cleanup_proof \<Rightarrow> bool" where
  "validate_cleanup_proof proof \<longleftrightarrow>
     (let p = cpf_p_remote_request_state proof; d = cpf_d_remote_request_state proof;
          t = cpf_transfer_state proof; mode = cpf_transfer_mode proof; publish = cpf_publish_outcome proof;
          owns_p = cpf_request_owns_p_load proof; owns_d = cpf_request_owns_original_d_slot proof
      in case cpf_request_state proof of
           WAITING \<Rightarrow> \<not> owns_p \<and> \<not> owns_d \<and> p = NOT_OWNED \<and> d = NEVER_DISPATCHED \<and> t = TcNONE \<and> mode = NoTask
         | PREFILLING \<Rightarrow>
             owns_p \<and> owns_d \<and>
             (publish = ''NOT_STARTED'' \<and> p = NEVER_DISPATCHED \<or>
              publish = ''ACKED'' \<and> p \<in> {ABORT_ACK, UNCERTAIN} \<or>
              publish = ''UNKNOWN'' \<and> p \<in> {NEVER_DISPATCHED, ABORT_ACK, UNCERTAIN}) \<and>
             d = NEVER_DISPATCHED \<and> t = TcNONE \<and> mode = NoTask
         | KV_PENDING \<Rightarrow>
             \<not> owns_p \<and> owns_d \<and> p = ALREADY_COMPLETED \<and> d \<in> {ABORT_ACK, UNCERTAIN} \<and>
             (mode = Deferred \<and> t = TcDEFERRED_CANCELLED \<or> mode = Inflight \<and> t \<in> {TcFENCED_ACK, TcUNCERTAIN})
         | DECODING \<Rightarrow>
             \<not> owns_p \<and> owns_d \<and> p = ALREADY_COMPLETED \<and> d \<in> {ABORT_ACK, UNCERTAIN} \<and> t = TcNONE \<and> mode = NoTask
         | RECOMPUTING \<Rightarrow>
             \<not> owns_p \<and> owns_d \<and> p = ALREADY_COMPLETED \<and> d \<in> {ABORT_ACK, UNCERTAIN} \<and> t = TcFENCED_ACK \<and> mode = NoTask
         | _ \<Rightarrow> False)"

definition d_slot_releasable :: "cleanup_proof \<Rightarrow> bool" where
  "d_slot_releasable proof \<longleftrightarrow>
     (let d = cpf_d_remote_request_state proof; t = cpf_transfer_state proof
      in if \<not> cpf_request_owns_original_d_slot proof \<or> cpf_d_epoch_changed proof then False
         else case cpf_request_state proof of
           PREFILLING \<Rightarrow> d = NEVER_DISPATCHED \<and> t = TcNONE
         | KV_PENDING \<Rightarrow> d = ABORT_ACK \<and> t \<in> {TcDEFERRED_CANCELLED, TcFENCED_ACK}
         | DECODING \<Rightarrow> d = ABORT_ACK \<and> t = TcNONE
         | RECOMPUTING \<Rightarrow> d = ABORT_ACK \<and> t = TcFENCED_ACK
         | _ \<Rightarrow> False)"

subsection \<open>Collecting the evidence\<close>

text \<open>The local variables of \<open>_fence_and_abort_request\<close> that the awaits change.\<close>

record fence =
  fe_world :: loop_world
  fe_p_epoch_changed :: bool
  fe_target_epoch_changed :: bool
  fe_source_changed :: bool
  fe_p_state :: remote_request_state
  fe_d_state :: remote_request_state
  fe_transfer_state :: transfer_cleanup_state
  fe_task_state :: task_state_name

definition owns_p :: "request_info \<Rightarrow> bool" where
  "owns_p req \<longleftrightarrow> rq_state req = PREFILLING \<and> rq_prefill_instance req \<noteq> []"

definition owns_d :: "request_info \<Rightarrow> bool" where
  "owns_d req \<longleftrightarrow> rq_decode_instance req \<noteq> [] \<and> rq_state req \<noteq> WAITING"

definition fence_start :: "loop_world \<Rightarrow> request_info \<Rightarrow> fence" where
  "fence_start w req =
     \<lparr>fe_world = w,
      fe_p_epoch_changed = (owns_p req \<and> \<not> epoch_matches (lw_sched w) (rq_prefill_instance req) (rq_prefill_instance_epoch req)),
      fe_target_epoch_changed = (owns_d req \<and> \<not> epoch_matches (lw_sched w) (rq_decode_instance req) (rq_decode_instance_epoch req)),
      fe_source_changed = False,
      fe_p_state = (if owns_p req then NEVER_DISPATCHED else if rq_state req = WAITING then NOT_OWNED else ALREADY_COMPLETED),
      fe_d_state = NEVER_DISPATCHED, fe_transfer_state = TcNONE,
      fe_task_state = task_state (lw_gov w) (rq_req_id req) (or_none (rq_transfer_operation_id req))\<rparr>"

text \<open>What the epochs say about a transfer in flight; \<open>fenced\<close> is the answer of the abort, if it was asked.\<close>

definition fence_by_epochs :: "loop_env \<Rightarrow> fence \<Rightarrow> request_info \<Rightarrow> (fence \<Rightarrow> fence) \<Rightarrow> fence" where
  "fence_by_epochs env f req both_current =
     (case classify_transfer_epochs req (lw_sched (fe_world f)) of
        BOTH_CURRENT \<Rightarrow> both_current f
      | TARGET_CHANGED \<Rightarrow>
          f\<lparr>fe_target_epoch_changed := True,
            fe_world := cancel_in (fe_world f) (rq_req_id req) (Some (rq_transfer_operation_id req))\<rparr>
      | SOURCE_CHANGED_TARGET_CURRENT \<Rightarrow>
          f\<lparr>fe_source_changed := True, fe_transfer_state := TcUNCERTAIN,
            fe_world := quarantine_source_changed_transfer env (fe_world f) req\<rparr>)"

definition fence_transfer :: "loop_env \<Rightarrow> fence \<Rightarrow> request_info \<Rightarrow> fence" where
  "fence_transfer env f req =
     (if fe_target_epoch_changed f \<and> rq_state req = KV_PENDING then f\<lparr>fe_transfer_state := TcFENCED_ACK\<rparr>
      else if rq_state req = KV_PENDING \<and> fe_task_state f = Deferred
      then f\<lparr>fe_world := cancel_in (fe_world f) (rq_req_id req) (Some (rq_transfer_operation_id req)),
             fe_transfer_state := TcDEFERRED_CANCELLED\<rparr>
      else if rq_state req = KV_PENDING \<and> fe_task_state f = Inflight
      then fence_by_epochs env f req (\<lambda>f.
             let (w1, stopped) = abort_remote_transfer env (fe_world f) (rq_prefill_instance req) (rq_decode_instance req)
                   (rq_req_id req) (rq_transfer_operation_id req)
             in fence_by_epochs env (f\<lparr>fe_world := w1\<rparr>) (now_req w1 req)
                  (\<lambda>f. f\<lparr>fe_transfer_state := if stopped then TcFENCED_ACK else TcUNCERTAIN\<rparr>))
      else if rq_state req = RECOMPUTING then f\<lparr>fe_transfer_state := TcFENCED_ACK\<rparr>
      else if rq_state req = KV_PENDING \<and> fe_task_state f = NoTask
      then f\<lparr>fe_task_state := Inflight, fe_transfer_state := TcUNCERTAIN\<rparr>
      else f)"

definition fence_prefill :: "loop_env \<Rightarrow> bool \<Rightarrow> fence \<Rightarrow> request_info \<Rightarrow> fence" where
  "fence_prefill env owned f req =
     (if owned \<and> \<not> fe_p_epoch_changed f
      then let (w1, acknowledged) = abort_remote_request env (fe_world f) (rq_prefill_instance req) (rq_req_id req);
               r1 = now_req w1 req
           in if epoch_matches (lw_sched w1) (rq_prefill_instance r1) (rq_prefill_instance_epoch r1)
              then f\<lparr>fe_world := w1, fe_p_state := if acknowledged then ABORT_ACK else UNCERTAIN\<rparr>
              else f\<lparr>fe_world := w1, fe_p_epoch_changed := True\<rparr>
      else f)"

definition fence_decode :: "loop_env \<Rightarrow> fence \<Rightarrow> request_info \<Rightarrow> fence" where
  "fence_decode env f req =
     (if \<not> fe_target_epoch_changed f \<and> \<not> fe_source_changed f \<and> rq_state req \<in> {KV_PENDING, RECOMPUTING, DECODING}
      then let (w1, acknowledged) = abort_remote_request env (fe_world f) (rq_decode_instance req) (rq_req_id req);
               r1 = now_req w1 req
           in if epoch_matches (lw_sched w1) (rq_decode_instance r1) (rq_decode_instance_epoch r1)
              then f\<lparr>fe_world := w1, fe_d_state := if acknowledged then ABORT_ACK else UNCERTAIN\<rparr>
              else f\<lparr>fe_target_epoch_changed := True,
                     fe_world := cancel_in w1 (rq_req_id r1) (or_none (rq_transfer_operation_id r1))\<rparr>
      else f)"

definition collect_evidence :: "loop_env \<Rightarrow> loop_world \<Rightarrow> request_info \<Rightarrow> fence" where
  "collect_evidence env w req =
     (let f1 = fence_transfer env (fence_start w req) req;
          f2 = fence_prefill env (owns_p req) f1 (now_req (fe_world f1) req)
      in fence_decode env f2 (now_req (fe_world f2) req))"

definition proof_of :: "fence \<Rightarrow> request_info \<Rightarrow> bool \<Rightarrow> bool \<Rightarrow> cleanup_proof" where
  "proof_of f r owned_p owned_d =
     \<lparr>cpf_request_state = rq_state r, cpf_p_remote_request_state = fe_p_state f, cpf_d_remote_request_state = fe_d_state f,
      cpf_transfer_state = fe_transfer_state f,
      cpf_transfer_mode = (if rq_state r = KV_PENDING then fe_task_state f else NoTask),
      cpf_publish_outcome = rq_publish_outcome r, cpf_request_owns_p_load = owned_p,
      cpf_request_owns_original_d_slot = owned_d, cpf_d_epoch_changed = fe_target_epoch_changed f\<rparr>"

subsection \<open>Acting on the evidence\<close>

definition settle_prefill :: "loop_env \<Rightarrow> fence \<Rightarrow> request_info \<Rightarrow> cleanup_proof \<Rightarrow> loop_world" where
  "settle_prefill env f r proof =
     (if cpf_request_owns_p_load proof \<and> \<not> fe_p_epoch_changed f
      then if p_load_releasable proof
           then prefill_done_in (fe_world f) (rq_prefill_instance r) (Some (rq_prefill_instance_epoch r))
           else quarantine_in env (fe_world f) (rq_prefill_instance r) None None
      else fe_world f)"

definition settle_decode :: "loop_env \<Rightarrow> fence \<Rightarrow> loop_world \<Rightarrow> request_info \<Rightarrow> cleanup_proof \<Rightarrow> bool loop_result" where
  "settle_decode env f w r proof =
     (if cpf_request_owns_original_d_slot proof \<and> \<not> fe_target_epoch_changed f \<and> \<not> fe_source_changed f
      then if d_slot_releasable proof
           then decode_finished_in w (rq_decode_instance r) (Some (rq_decode_instance_epoch r)) None
           else (quarantine_in env w (rq_decode_instance r)
                   (if fe_transfer_state f = TcUNCERTAIN
                    then Some (le_owner env, rq_req_id r, rq_transfer_operation_id r, instance_epoch_of (lw_sched w) (rq_decode_instance r))
                    else None) None, Inr False)
      else (w, Inr False))"

definition fence_and_abort_request :: "loop_env \<Rightarrow> loop_world \<Rightarrow> request_info \<Rightarrow> cleanup_proof loop_result" where
  "fence_and_abort_request env w req =
     (let f = collect_evidence env w req;
          r = now_req (fe_world f) req;
          proof = proof_of f r (owns_p req) (owns_d req)
      in if \<not> fe_p_epoch_changed f \<and> \<not> fe_target_epoch_changed f \<and> \<not> fe_source_changed f \<and> \<not> validate_cleanup_proof proof
         then (fe_world f, Inl InvalidCleanupProof)
         else case settle_decode env f (settle_prefill env f r proof) r proof of
           (w1, Inl e) \<Rightarrow> (w1, Inl e)
         | (w1, Inr _) \<Rightarrow> (finish_in w1 (rq_req_id req), Inr proof))"

subsection \<open>The canonical cleanup\<close>

definition tracker_note :: "loop_world \<Rightarrow> metric list \<Rightarrow> loop_world" where
  "tracker_note w ms = w\<lparr>lw_tracker := (lw_tracker w)\<lparr>tk_metrics := tk_metrics (lw_tracker w) @ ms\<rparr>\<rparr>"

definition transition_in ::
  "loop_env \<Rightarrow> loop_world \<Rightarrow> string \<Rightarrow> seq_state \<Rightarrow> (request_info \<Rightarrow> request_info) \<Rightarrow> unit loop_result" where
  "transition_in env w req_id state kwargs =
     (case transition (lw_tracker w) req_id state (le_now env) kwargs of
        Inl e \<Rightarrow> (w, Inl (LoopTracker e)) | Inr t \<Rightarrow> (w\<lparr>lw_tracker := t\<rparr>, Inr ()))"

definition remove_in :: "loop_world \<Rightarrow> string \<Rightarrow> loop_world" where
  "remove_in w req_id =
     (case tracker_remove (lw_tracker w) req_id of
        (t, None) \<Rightarrow> w\<lparr>lw_tracker := t\<rparr>
      | (t, Some r) \<Rightarrow> w\<lparr>lw_tracker := t, lw_removed := dput (lw_removed w) req_id r\<rparr>)"

text \<open>\<open>if tracker.get(req.req_id) is req: ... transition(ABORTED) ... remove\<close>.\<close>

definition end_request :: "loop_env \<Rightarrow> loop_world \<Rightarrow> string \<Rightarrow> bool \<Rightarrow> unit loop_result" where
  "end_request env w req_id removed =
     (case tracker_get (lw_tracker w) req_id of
        None \<Rightarrow> (w, Inr ())
      | Some r \<Rightarrow>
          (case (if rq_state r \<in> {FINISHED, ABORTED} then (w, Inr ()) else transition_in env w req_id ABORTED (\<lambda>x. x)) of
             (w1, Inl e) \<Rightarrow> (w1, Inl e)
           | (w1, Inr _) \<Rightarrow> (if removed then remove_in w1 req_id else w1, Inr ())))"

definition clear_task_in :: "loop_world \<Rightarrow> string \<Rightarrow> nat \<Rightarrow> loop_world" where
  "clear_task_in w req_id handle = w\<lparr>lw_tracker := clear_cleanup_task (lw_tracker w) req_id handle\<rparr>"

definition then_clear :: "string \<Rightarrow> nat \<Rightarrow> unit loop_result \<Rightarrow> unit loop_result" where
  "then_clear req_id handle r = (case r of (w, Inl e) \<Rightarrow> (w, Inl e) | (w, Inr _) \<Rightarrow> (clear_task_in w req_id handle, Inr ()))"

definition network_cleanup :: "loop_env \<Rightarrow> loop_world \<Rightarrow> request_info \<Rightarrow> unit loop_result" where
  "network_cleanup env w req =
     (let w1 = (if rq_prefill_instance req \<noteq> []
                then prefill_done_in w (rq_prefill_instance req) (Some (rq_prefill_instance_epoch req)) else w);
          call = CleanupRequestCall (rq_req_id req) True;
          w2 = await_call env call w1;
          released = reply_ok (le_reply env call)
      in if le_reply env call = ReplyRaised then (w2, Inl LoopRpcRaised)
         else end_request env (if released then finish_in w2 (rq_req_id req) else w2) (rq_req_id req) released)"

definition unknown_dispatch_cleanup :: "loop_env \<Rightarrow> loop_world \<Rightarrow> request_info \<Rightarrow> unit loop_result" where
  "unknown_dispatch_cleanup env w req =
     (let current = epoch_matches (lw_sched w) (rq_prefill_instance req) (rq_prefill_instance_epoch req);
          w1 = (if current then quarantine_in env w (rq_prefill_instance req) None
                  (Some (le_owner env, rq_req_id req, rq_command_id req, rq_prefill_instance_epoch req)) else w)
      in case decode_finished_in w1 (rq_decode_instance req) (Some (rq_decode_instance_epoch req)) None of
           (w2, Inl e) \<Rightarrow> (w2, Inl e)
         | (w2, Inr _) \<Rightarrow>
             (let w3 = (if current then fst (abort_remote_request env w2 (rq_prefill_instance req) (rq_req_id req)) else w2)
              in (finish_in w3 (rq_req_id req), Inr ())))"

definition undispatched_cleanup :: "loop_env \<Rightarrow> loop_world \<Rightarrow> request_info \<Rightarrow> unit loop_result" where
  "undispatched_cleanup env w req =
     (let w1 = prefill_done_in w (rq_prefill_instance req) (Some (rq_prefill_instance_epoch req))
      in case decode_finished_in w1 (rq_decode_instance req) (Some (rq_decode_instance_epoch req)) None of
           (w2, Inl e) \<Rightarrow> (w2, Inl e)
         | (w2, Inr _) \<Rightarrow> (finish_in w2 (rq_req_id req), Inr ()))"

definition canonical_cleanup :: "loop_env \<Rightarrow> loop_world \<Rightarrow> string \<Rightarrow> nat \<Rightarrow> unit loop_result" where
  "canonical_cleanup env w req_id handle =
     (case tracker_get (lw_tracker w) req_id of
        None \<Rightarrow> (w, Inr ())
      | Some req \<Rightarrow>
          (let w0 = (if rq_state req = PREFILLING \<and> rq_publish_outcome req \<in> {''UNKNOWN'', ''NOT_STARTED''}
                 then tracker_note w [Increment ''operation_cancelled_before_arrival_total'' 1
                   [(''endpoint'', ''dispatch.prefill''), (''publish_outcome'', rq_publish_outcome req)]] else w)
           in if le_network env then then_clear req_id handle (network_cleanup env w0 req)
              else
                (let r = (if rq_state req = PREFILLING \<and> rq_publish_outcome req = ''UNKNOWN'' then unknown_dispatch_cleanup env w0 req
                      else if rq_state req = PREFILLING \<and> rq_publish_outcome req = ''NOT_STARTED'' then undispatched_cleanup env w0 req
                      else case fence_and_abort_request env w0 req of (w1, Inl e) \<Rightarrow> (w1, Inl e) | (w1, Inr _) \<Rightarrow> (w1, Inr ()))
                 in case r of
                      (w1, Inl e) \<Rightarrow> (w1, Inl e)
                    | (w1, Inr _) \<Rightarrow> then_clear req_id handle (end_request env w1 req_id True))))"

subsection \<open>What the other tasks may do\<close>

text \<open>
  While a call is awaited, other tasks do not route the request to other instances, and do not erase
  the record of calls.  They may finish, move or remove it.
\<close>

definition routing :: "request_info \<Rightarrow> string list" where
  "routing r = [rq_req_id r, rq_prefill_instance r, rq_prefill_instance_epoch r, rq_decode_instance r,
     rq_decode_instance_epoch r, rq_transfer_operation_id r]"

definition same_route :: "loop_world \<Rightarrow> request_info \<Rightarrow> bool" where
  "same_route w req \<longleftrightarrow> routing (now_req w req) = routing req"

definition routes_stable :: "loop_env \<Rightarrow> request_info \<Rightarrow> bool" where
  "routes_stable env req \<longleftrightarrow> (\<forall>call u. same_route u req \<longrightarrow>
     same_route (le_between env call u) req \<and> set (lw_calls u) \<subseteq> set (lw_calls (le_between env call u)))"

lemma same_routeD:
  assumes "same_route w req"
  shows "rq_req_id (now_req w req) = rq_req_id req" "rq_prefill_instance (now_req w req) = rq_prefill_instance req"
    "rq_prefill_instance_epoch (now_req w req) = rq_prefill_instance_epoch req"
    "rq_decode_instance (now_req w req) = rq_decode_instance req"
    "rq_decode_instance_epoch (now_req w req) = rq_decode_instance_epoch req"
    "rq_transfer_operation_id (now_req w req) = rq_transfer_operation_id req"
  using assms by (simp_all add: same_route_def routing_def)

lemma now_req_frame [simp]:
  "now_req (w\<lparr>lw_sched := s\<rparr>) req = now_req w req" "now_req (w\<lparr>lw_gov := g\<rparr>) req = now_req w req"
  "now_req (w\<lparr>lw_calls := c\<rparr>) req = now_req w req" "now_req (cancel_in w i k) req = now_req w req"
  "now_req (quarantine_in env w i u v) req = now_req w req"
  "now_req (quarantine_source_changed_transfer env w r) req = now_req w req"
  "now_req (prefill_done_in w i e) req = now_req w req" "now_req (finish_in w i) req = now_req w req"
  by (simp_all add: now_req_def cancel_in_def quarantine_in_def quarantine_source_changed_transfer_def prefill_done_in_def finish_in_def split: option.split)

lemma lw_calls_frame [simp]:
  "lw_calls (cancel_in w i k) = lw_calls w" "lw_calls (quarantine_in env w i u v) = lw_calls w"
  "lw_calls (quarantine_source_changed_transfer env w r) = lw_calls w" "lw_calls (prefill_done_in w i e) = lw_calls w"
  "lw_calls (finish_in w i) = lw_calls w"
  by (simp_all add: cancel_in_def quarantine_in_def quarantine_source_changed_transfer_def prefill_done_in_def finish_in_def)

lemma same_route_frame [simp]:
  "same_route (w\<lparr>lw_calls := c\<rparr>) req = same_route w req" "same_route (cancel_in w i k) req = same_route w req"
  "same_route (quarantine_source_changed_transfer env w r) req = same_route w req"
  by (simp_all add: same_route_def)

lemma await_stable:
  assumes "routes_stable env req" "same_route w req"
  shows "same_route (await_call env call w) req" "call \<in> set (lw_calls (await_call env call w))"
    "set (lw_calls w) \<subseteq> set (lw_calls (await_call env call w))"
proof -
  have "same_route (w\<lparr>lw_calls := lw_calls w @ [call]\<rparr>) req" using assms(2) by simp
  with assms(1) have "same_route (await_call env call w) req \<and>
      set (lw_calls (w\<lparr>lw_calls := lw_calls w @ [call]\<rparr>)) \<subseteq> set (lw_calls (await_call env call w))"
    unfolding routes_stable_def await_call_def by blast
  then show "same_route (await_call env call w) req" "call \<in> set (lw_calls (await_call env call w))"
    "set (lw_calls w) \<subseteq> set (lw_calls (await_call env call w))" by auto
qed

subsection \<open>What the evidence stands for\<close>

definition answered :: "loop_env \<Rightarrow> loop_world \<Rightarrow> loop_call \<Rightarrow> bool" where
  "answered env w call \<longleftrightarrow> call \<in> set (lw_calls w) \<and> reply_ok (le_reply env call)"

abbreviation d_abort :: "loop_env \<Rightarrow> request_info \<Rightarrow> loop_call" where
  "d_abort env req \<equiv> AbortRequestCall (rq_decode_instance req) (le_owner env) (rq_req_id req)"

abbreviation t_abort :: "loop_env \<Rightarrow> request_info \<Rightarrow> loop_call" where
  "t_abort env req \<equiv> AbortTransferCall (rq_prefill_instance req) (rq_decode_instance req) (le_owner env) (rq_req_id req)
     (rq_transfer_operation_id req)"

definition evidence_ok :: "loop_env \<Rightarrow> loop_world \<Rightarrow> request_info \<Rightarrow> fence \<Rightarrow> bool" where
  "evidence_ok env w req f \<longleftrightarrow>
     same_route (fe_world f) req \<and>
     (fe_d_state f = ABORT_ACK \<longrightarrow> answered env (fe_world f) (d_abort env req)) \<and>
     (fe_transfer_state f = TcFENCED_ACK \<longrightarrow>
        fe_target_epoch_changed f \<or> rq_state req = RECOMPUTING \<or> answered env (fe_world f) (t_abort env req)) \<and>
     (fe_transfer_state f = TcDEFERRED_CANCELLED \<longrightarrow>
        task_state (lw_gov w) (rq_req_id req) (or_none (rq_transfer_operation_id req)) = Deferred) \<and>
     (fe_source_changed f \<longrightarrow> dhas (pd_quarantined (lw_sched (fe_world f))) (rq_decode_instance req))"

lemma quarantined_in: "dhas (pd_quarantined (lw_sched (quarantine_in env w i u v))) i"
  by (auto simp: quarantine_in_def quarantine_instance_def Let_def dict_simps split: option.splits)

lemma source_changed_quarantined:
  "dhas (pd_quarantined (lw_sched (quarantine_source_changed_transfer env w req))) (rq_decode_instance req)"
  using quarantined_in by (simp add: quarantine_source_changed_transfer_def cancel_in_def)

lemma start_evidence:
  assumes "tracker_get (lw_tracker w) (rq_req_id req) = Some req"
  shows "evidence_ok env w req (fence_start w req)"
  using assms by (simp add: evidence_ok_def fence_start_def same_route_def now_req_def)

lemma answered_frame [simp]:
  "answered env (cancel_in u i k) call = answered env u call"
  "answered env (quarantine_source_changed_transfer env' u r) call = answered env u call"
  by (simp_all add: answered_def)

lemma by_epochs_evidence:
  assumes "evidence_ok env w req f" "routing r = routing req" "evidence_ok env w req (both f)"
  shows "evidence_ok env w req (fence_by_epochs env f r both)"
proof -
  have r: "rq_decode_instance r = rq_decode_instance req" using assms(2) by (simp add: routing_def)
  have src: "dhas (pd_quarantined (lw_sched (quarantine_source_changed_transfer env (fe_world f) r))) (rq_decode_instance req)"
    using source_changed_quarantined [of env "fe_world f" r] unfolding r .
  have can: "pd_quarantined (lw_sched (cancel_in u i k)) = pd_quarantined (lw_sched u)" for u i k by (simp add: cancel_in_def)
  note ev = assms(1) [unfolded evidence_ok_def]
  show ?thesis
  proof (cases "classify_transfer_epochs r (lw_sched (fe_world f))")
    case BOTH_CURRENT
    with assms(3) show ?thesis by (simp add: fence_by_epochs_def)
  next
    case SOURCE_CHANGED_TARGET_CURRENT
    with ev src show ?thesis by (simp add: fence_by_epochs_def evidence_ok_def)
  next
    case TARGET_CHANGED
    with ev show ?thesis by (simp add: fence_by_epochs_def evidence_ok_def can)
  qed
qed

lemma transfer_evidence:
  assumes "routes_stable env req" "evidence_ok env w req f" "fe_transfer_state f = TcNONE" "\<not> fe_source_changed f"
    "fe_d_state f = NEVER_DISPATCHED"
    "fe_task_state f = task_state (lw_gov w) (rq_req_id req) (or_none (rq_transfer_operation_id req))"
  shows "evidence_ok env w req (fence_transfer env f req)"
proof -
  have sr: "same_route (fe_world f) req" using assms(2) by (simp add: evidence_ok_def)
  have inner: "evidence_ok env w req (let (w1, stopped) = abort_remote_transfer env (fe_world f) (rq_prefill_instance req)
        (rq_decode_instance req) (rq_req_id req) (rq_transfer_operation_id req)
      in fence_by_epochs env (f\<lparr>fe_world := w1\<rparr>) (now_req w1 req)
        (\<lambda>f. f\<lparr>fe_transfer_state := if stopped then TcFENCED_ACK else TcUNCERTAIN\<rparr>))"
  proof -
    let ?w1 = "await_call env (t_abort env req) (fe_world f)"
    note aw = await_stable [OF assms(1) sr, of "t_abort env req"]
    have base: "evidence_ok env w req (f\<lparr>fe_world := u\<rparr>)" if "same_route u req" for u
      using that assms(3-5) by (simp add: evidence_ok_def)
    have u: "evidence_ok env w req (f\<lparr>fe_world := u, fe_transfer_state := if stopped then TcFENCED_ACK else TcUNCERTAIN\<rparr>)"
      if "same_route u req" "stopped \<longrightarrow> answered env u (t_abort env req)" for u stopped
      using that assms(3-5) by (simp add: evidence_ok_def)
    have go: "evidence_ok env w req (fence_by_epochs env (f\<lparr>fe_world := u\<rparr>) (now_req u req)
        (\<lambda>f. f\<lparr>fe_transfer_state := if stopped then TcFENCED_ACK else TcUNCERTAIN\<rparr>))"
      if "same_route u req" "stopped \<longrightarrow> answered env u (t_abort env req)" for u stopped
      by (rule by_epochs_evidence) (use that base u in \<open>simp_all add: same_route_def\<close>)
    show ?thesis
      using go [OF sr, of False] go [OF aw(1), of "reply_ok (le_reply env (t_abort env req))"] aw(2)
      by (auto simp: abort_remote_transfer_def answered_def Let_def)
  qed
  note outer = by_epochs_evidence [OF assms(2) refl, where both = "\<lambda>f.
    let (w1, stopped) = abort_remote_transfer env (fe_world f) (rq_prefill_instance req)
        (rq_decode_instance req) (rq_req_id req) (rq_transfer_operation_id req)
      in fence_by_epochs env (f\<lparr>fe_world := w1\<rparr>) (now_req w1 req)
        (\<lambda>f. f\<lparr>fe_transfer_state := if stopped then TcFENCED_ACK else TcUNCERTAIN\<rparr>)", OF inner]
  have calls: "same_route (cancel_in (fe_world f) i k) req" for i k using sr by simp
  consider "rq_state req = KV_PENDING \<and> \<not> fe_target_epoch_changed f \<and> fe_task_state f = Inflight"
    | "\<not> (rq_state req = KV_PENDING \<and> \<not> fe_target_epoch_changed f \<and> fe_task_state f = Inflight)" by blast
  then show ?thesis
  proof cases
    case 1
    with outer show ?thesis by (simp add: fence_transfer_def)
  next
    case 2
    with assms(2-6) calls show ?thesis
      by (auto simp: fence_transfer_def evidence_ok_def answered_def cancel_in_def)
  qed
qed

lemma prefill_evidence:
  assumes "routes_stable env req" "evidence_ok env w req f" "owned \<longrightarrow> \<not> fe_source_changed f"
  shows "evidence_ok env w req (fence_prefill env owned f r)"
proof (cases "owned \<and> \<not> fe_p_epoch_changed f")
  case False
  with assms(2) show ?thesis by (simp only: fence_prefill_def if_False)
next
  case True
  let ?call = "AbortRequestCall (rq_prefill_instance r) (le_owner env) (rq_req_id r)"
  have sr: "same_route (fe_world f) req" using assms(2) by (simp add: evidence_ok_def)
  note aw = await_stable [OF assms(1) sr, of ?call]
  have mono: "answered env (fe_world f) call \<Longrightarrow> answered env (await_call env ?call (fe_world f)) call" for call
    using aw(3) by (auto simp: answered_def)
  from True assms(2,3) aw(1) mono show ?thesis
    by (auto simp: fence_prefill_def abort_remote_request_def evidence_ok_def Let_def)
qed

lemma decode_evidence:
  assumes "routes_stable env req" "evidence_ok env w req f" "routing r = routing req"
  shows "evidence_ok env w req (fence_decode env f r)"
proof (cases "\<not> fe_target_epoch_changed f \<and> \<not> fe_source_changed f \<and> rq_state r \<in> {KV_PENDING, RECOMPUTING, DECODING}")
  case False
  with assms(2) show ?thesis by (simp only: fence_decode_def if_False)
next
  case True
  have ids: "rq_decode_instance r = rq_decode_instance req" "rq_req_id r = rq_req_id req"
    using assms(3) by (simp_all add: routing_def)
  have sr: "same_route (fe_world f) req" using assms(2) by (simp add: evidence_ok_def)
  note aw = await_stable [OF assms(1) sr, of "d_abort env req"]
  have mono: "answered env (fe_world f) call \<Longrightarrow> answered env (await_call env (d_abort env req) (fe_world f)) call" for call
    using aw(3) by (auto simp: answered_def)
  have ack: "reply_ok (le_reply env (d_abort env req)) \<Longrightarrow> answered env (await_call env (d_abort env req) (fe_world f)) (d_abort env req)"
    using aw(2) by (simp add: answered_def)
  have keep: "answered env (cancel_in u i k) call = answered env u call" for u i k call by (simp add: answered_def)
  from True assms(2) aw(1) mono ack show ?thesis
    by (auto simp: fence_decode_def abort_remote_request_def evidence_ok_def Let_def ids keep)
qed

lemma collected_evidence:
  assumes "tracker_get (lw_tracker w) (rq_req_id req) = Some req" "routes_stable env req"
  shows "evidence_ok env w req (collect_evidence env w req)"
proof -
  let ?f1 = "fence_transfer env (fence_start w req) req"
  let ?f2 = "fence_prefill env (owns_p req) ?f1 (now_req (fe_world ?f1) req)"
  have f1: "evidence_ok env w req ?f1"
    by (rule transfer_evidence [OF assms(2) start_evidence [OF assms(1)]]) (simp_all add: fence_start_def)
  have "owns_p req \<longrightarrow> \<not> fe_source_changed ?f1"
    by (auto simp: owns_p_def fence_transfer_def fence_start_def)
  then have f2: "evidence_ok env w req ?f2" by (rule prefill_evidence [OF assms(2) f1])
  then have "same_route (fe_world ?f2) req" by (simp add: evidence_ok_def)
  then have "routing (now_req (fe_world ?f2) req) = routing req" by (simp only: same_route_def)
  from decode_evidence [OF assms(2) f2 this] show ?thesis by (simp add: collect_evidence_def Let_def)
qed

lemma quarantined_mono:
  "dhas (pd_quarantined (lw_sched w)) i \<Longrightarrow> dhas (pd_quarantined (lw_sched (settle_prefill env f r proof))) i"
  if "fe_world f = w"
  using that
  by (auto simp: settle_prefill_def quarantine_in_def quarantine_instance_def prefill_done_in_def on_prefill_done_def
      Let_def dict_simps split: option.splits)

lemma settle_prefill_calls [simp]: "lw_calls (settle_prefill env f r proof) = lw_calls (fe_world f)"
  by (simp add: settle_prefill_def)

lemma settle_decode_calls:
  "settle_decode env f w r proof = (w', x) \<Longrightarrow> lw_calls w' = lw_calls w"
  by (auto simp: settle_decode_def decode_finished_in_def split: if_splits prod.splits sum.splits)

lemma releasable_evidence:
  assumes "evidence_ok env w req f" "d_slot_releasable (proof_of f r a b)"
  shows "(rq_state r = PREFILLING \<or> answered env (fe_world f) (d_abort env req)) \<and>
    (rq_state r \<in> {PREFILLING, DECODING} \<or> rq_state req = RECOMPUTING \<or>
     task_state (lw_gov w) (rq_req_id req) (or_none (rq_transfer_operation_id req)) = Deferred \<or>
     answered env (fe_world f) (t_abort env req))"
proof -
  have ack: "fe_d_state f = ABORT_ACK \<Longrightarrow> answered env (fe_world f) (d_abort env req)"
    and fenced: "fe_transfer_state f = TcFENCED_ACK \<Longrightarrow> \<not> fe_target_epoch_changed f \<Longrightarrow>
      rq_state req = RECOMPUTING \<or> answered env (fe_world f) (t_abort env req)"
    and deferred: "fe_transfer_state f = TcDEFERRED_CANCELLED \<Longrightarrow>
      task_state (lw_gov w) (rq_req_id req) (or_none (rq_transfer_operation_id req)) = Deferred"
    using assms(1) unfolding evidence_ok_def by blast+
  from assms(2) consider "rq_state r = PREFILLING"
    | "rq_state r = DECODING" "fe_d_state f = ABORT_ACK"
    | "fe_d_state f = ABORT_ACK" "fe_transfer_state f = TcFENCED_ACK" "\<not> fe_target_epoch_changed f"
    | "fe_d_state f = ABORT_ACK" "fe_transfer_state f = TcDEFERRED_CANCELLED"
    by (cases "rq_state r") (auto simp: d_slot_releasable_def proof_of_def Let_def split: if_splits)
  then show ?thesis by cases (use ack fenced deferred in blast)+
qed

subsection \<open>Cleanups that are left alone return\<close>

text \<open>
  Other tasks may run, but do not touch the request; every instance with free slots keeps its
  capacity, as \<^const>\<open>sched_inv\<close> says.
\<close>

definition slots_known :: "pd_scheduler \<Rightarrow> bool" where
  "slots_known s \<longleftrightarrow> (\<forall>i. dget (pd_decode_free_slots s) i \<noteq> None \<longrightarrow> dget (pd_decode_max_slots s) i \<noteq> None)"

lemma sched_inv_slots_known: "sched_inv s \<Longrightarrow> slots_known s"
  using sched_invD(4) by (simp add: slots_known_def)

lemma slots_known_quarantine: "slots_known s \<Longrightarrow> slots_known (fst (quarantine_instance s i u v tok now))"
  by (auto simp: slots_known_def quarantine_instance_def Let_def dict_simps split: option.splits)

lemma slots_known_prefill_done: "slots_known s \<Longrightarrow> slots_known (fst (on_prefill_done s i e))"
  by (auto simp: slots_known_def on_prefill_done_def Let_def dict_simps split: option.splits)

definition calm :: "loop_env \<Rightarrow> string \<Rightarrow> bool" where
  "calm env req_id \<longleftrightarrow> (\<forall>call u.
     tracker_get (lw_tracker (le_between env call u)) req_id = tracker_get (lw_tracker u) req_id \<and>
     (slots_known (lw_sched u) \<longrightarrow> slots_known (lw_sched (le_between env call u))))"

definition steady :: "loop_world \<Rightarrow> request_info \<Rightarrow> bool" where
  "steady w req \<longleftrightarrow> tracker_get (lw_tracker w) (rq_req_id req) = Some req \<and> slots_known (lw_sched w)"

lemma steady_now: "steady w req \<Longrightarrow> now_req w req = req"
  by (simp add: steady_def now_req_def)

lemma steady_frame [simp]:
  "steady (w\<lparr>lw_calls := c\<rparr>) req = steady w req" "steady (cancel_in w i k) req = steady w req"
  "steady (finish_in w i) req = steady w req"
  by (simp_all add: steady_def cancel_in_def finish_in_def)

lemma steady_quarantine: "steady w req \<Longrightarrow> steady (quarantine_in env w i u v) req"
  using slots_known_quarantine [of "lw_sched w"] by (simp add: steady_def quarantine_in_def)

lemma steady_source_changed: "steady w req \<Longrightarrow> steady (quarantine_source_changed_transfer env w r) req"
  by (simp add: quarantine_source_changed_transfer_def steady_quarantine)

lemma steady_prefill_done: "steady w req \<Longrightarrow> steady (prefill_done_in w i e) req"
  using slots_known_prefill_done [of "lw_sched w" i e] by (simp add: steady_def prefill_done_in_def)

lemma steady_await:
  assumes "calm env (rq_req_id req)" "steady w req"
  shows "steady (await_call env call w) req"
proof -
  have "steady (w\<lparr>lw_calls := lw_calls w @ [call]\<rparr>) req" using assms(2) by simp
  with assms(1) show ?thesis unfolding calm_def steady_def await_call_def by metis
qed

lemma steady_transfer:
  assumes "calm env (rq_req_id req)" "steady (fe_world f) req"
  shows "steady (fe_world (fence_transfer env f req)) req"
proof -
  let ?u = "await_call env (t_abort env req) (fe_world f)"
  have u: "steady ?u req" by (rule steady_await [OF assms])
  have e: "steady (fe_world (fence_by_epochs env g req both)) req"
    if "steady (fe_world g) req" "steady (fe_world (both g)) req" for g both
    using that steady_source_changed by (auto simp: fence_by_epochs_def split: transfer_epoch_result.split)
  define both where "both = (\<lambda>f. let (w1, stopped) = abort_remote_transfer env (fe_world f) (rq_prefill_instance req)
        (rq_decode_instance req) (rq_req_id req) (rq_transfer_operation_id req)
      in fence_by_epochs env (f\<lparr>fe_world := w1\<rparr>) (now_req w1 req)
        (\<lambda>f. f\<lparr>fe_transfer_state := if stopped then TcFENCED_ACK else TcUNCERTAIN\<rparr>))"
  have i: "steady (fe_world (both f)) req"
    using u assms(2) by (simp add: both_def abort_remote_transfer_def Let_def steady_now e)
  show ?thesis
    unfolding fence_transfer_def both_def [symmetric] using assms(2) e [of f both, OF assms(2) i] by simp
qed

lemma steady_prefill:
  assumes "calm env (rq_req_id req)" "steady (fe_world f) req"
  shows "steady (fe_world (fence_prefill env owned f req)) req"
  using steady_await [OF assms] assms(2) by (simp add: fence_prefill_def abort_remote_request_def Let_def)

lemma steady_decode:
  assumes "calm env (rq_req_id req)" "steady (fe_world f) req"
  shows "steady (fe_world (fence_decode env f req)) req"
  using steady_await [OF assms] assms(2) by (simp add: fence_decode_def abort_remote_request_def Let_def)

text \<open>The shape of the evidence, state by state.\<close>

lemma by_epochs_shape:
  "fe_p_state (fence_by_epochs env f r both) = fe_p_state f" "fe_d_state (fence_by_epochs env f r both) = fe_d_state f"
  "fe_task_state (fence_by_epochs env f r both) = fe_task_state f"
  "fe_p_epoch_changed (fence_by_epochs env f r both) = fe_p_epoch_changed f"
  if "fe_p_state (both f) = fe_p_state f" "fe_d_state (both f) = fe_d_state f" "fe_task_state (both f) = fe_task_state f"
    "fe_p_epoch_changed (both f) = fe_p_epoch_changed f"
  using that by (simp_all add: fence_by_epochs_def split: transfer_epoch_result.split)

lemma by_epochs_flags:
  "\<not> fe_target_epoch_changed (fence_by_epochs env f r both) \<Longrightarrow> \<not> fe_source_changed (fence_by_epochs env f r both) \<Longrightarrow>
     fence_by_epochs env f r both = both f"
  by (simp add: fence_by_epochs_def split: transfer_epoch_result.splits)

lemma inflight_shape:
  assumes "h = fence_by_epochs env f req (\<lambda>f.
       let (w1, stopped) = abort_remote_transfer env (fe_world f) a b c d
       in fence_by_epochs env (f\<lparr>fe_world := w1\<rparr>) (now_req w1 req)
            (\<lambda>f. f\<lparr>fe_transfer_state := if stopped then TcFENCED_ACK else TcUNCERTAIN\<rparr>))"
  shows "fe_p_state h = fe_p_state f" "fe_d_state h = fe_d_state f" "fe_task_state h = fe_task_state f"
    "fe_p_epoch_changed h = fe_p_epoch_changed f"
    "\<not> fe_target_epoch_changed h \<Longrightarrow> \<not> fe_source_changed h \<Longrightarrow> fe_transfer_state h \<in> {TcFENCED_ACK, TcUNCERTAIN}"
proof -
  obtain w1 stopped where ab: "abort_remote_transfer env (fe_world f) a b c d = (w1, stopped)" by fastforce
  let ?both = "\<lambda>f. f\<lparr>fe_transfer_state := if stopped then TcFENCED_ACK else TcUNCERTAIN\<rparr>"
  let ?in = "fence_by_epochs env (f\<lparr>fe_world := w1\<rparr>) (now_req w1 req) ?both"
  have i: "fe_p_state ?in = fe_p_state f" "fe_d_state ?in = fe_d_state f" "fe_task_state ?in = fe_task_state f"
    "fe_p_epoch_changed ?in = fe_p_epoch_changed f"
    using by_epochs_shape [of ?both "f\<lparr>fe_world := w1\<rparr>"] by simp_all
  show "fe_p_state h = fe_p_state f" "fe_d_state h = fe_d_state f" "fe_task_state h = fe_task_state f"
    "fe_p_epoch_changed h = fe_p_epoch_changed f"
    unfolding assms using i ab by (simp_all add: by_epochs_shape)
  assume clear: "\<not> fe_target_epoch_changed h" "\<not> fe_source_changed h"
  from by_epochs_flags [OF clear [unfolded assms]] have "h = ?in" by (simp add: assms ab)
  with clear by_epochs_flags [of env "f\<lparr>fe_world := w1\<rparr>" "now_req w1 req" ?both] show "fe_transfer_state h \<in> {TcFENCED_ACK, TcUNCERTAIN}"
    by simp
qed

lemma transfer_shape:
  assumes "f = fence_transfer env (fence_start w req) req"
  shows "fe_p_state f = fe_p_state (fence_start w req)" "fe_d_state f = NEVER_DISPATCHED"
    "fe_p_epoch_changed f = fe_p_epoch_changed (fence_start w req)"
    "rq_state req \<notin> {KV_PENDING, RECOMPUTING} \<Longrightarrow> fe_transfer_state f = TcNONE"
    "rq_state req = RECOMPUTING \<Longrightarrow> fe_transfer_state f = TcFENCED_ACK"
    "rq_state req = KV_PENDING \<Longrightarrow> \<not> fe_target_epoch_changed f \<Longrightarrow> \<not> fe_source_changed f \<Longrightarrow>
      fe_task_state f = Deferred \<and> fe_transfer_state f = TcDEFERRED_CANCELLED \<or>
      fe_task_state f = Inflight \<and> fe_transfer_state f \<in> {TcFENCED_ACK, TcUNCERTAIN}"
proof -
  let ?s = "fence_start w req"
  define h where "h = fence_by_epochs env ?s req (\<lambda>f.
       let (w1, stopped) = abort_remote_transfer env (fe_world f) (rq_prefill_instance req) (rq_decode_instance req)
             (rq_req_id req) (rq_transfer_operation_id req)
       in fence_by_epochs env (f\<lparr>fe_world := w1\<rparr>) (now_req w1 req)
            (\<lambda>f. f\<lparr>fe_transfer_state := if stopped then TcFENCED_ACK else TcUNCERTAIN\<rparr>))"
  note hs = inflight_shape [OF h_def]
  have eq: "f = (if fe_target_epoch_changed ?s \<and> rq_state req = KV_PENDING then ?s\<lparr>fe_transfer_state := TcFENCED_ACK\<rparr>
      else if rq_state req = KV_PENDING \<and> fe_task_state ?s = Deferred
      then ?s\<lparr>fe_world := cancel_in (fe_world ?s) (rq_req_id req) (Some (rq_transfer_operation_id req)),
             fe_transfer_state := TcDEFERRED_CANCELLED\<rparr>
      else if rq_state req = KV_PENDING \<and> fe_task_state ?s = Inflight then h
      else if rq_state req = RECOMPUTING then ?s\<lparr>fe_transfer_state := TcFENCED_ACK\<rparr>
      else if rq_state req = KV_PENDING \<and> fe_task_state ?s = NoTask
      then ?s\<lparr>fe_task_state := Inflight, fe_transfer_state := TcUNCERTAIN\<rparr> else ?s)"
    unfolding assms fence_transfer_def h_def by (rule refl)
  have st: "fe_d_state ?s = NEVER_DISPATCHED" "fe_transfer_state ?s = TcNONE" by (simp_all add: fence_start_def)
  show "fe_p_state f = fe_p_state ?s" "fe_d_state f = NEVER_DISPATCHED" "fe_p_epoch_changed f = fe_p_epoch_changed ?s"
    unfolding eq using hs(1-4) st by simp_all
  show "rq_state req \<notin> {KV_PENDING, RECOMPUTING} \<Longrightarrow> fe_transfer_state f = TcNONE"
    "rq_state req = RECOMPUTING \<Longrightarrow> fe_transfer_state f = TcFENCED_ACK"
    unfolding eq using st by simp_all
  assume "rq_state req = KV_PENDING" "\<not> fe_target_epoch_changed f" "\<not> fe_source_changed f"
  then show "fe_task_state f = Deferred \<and> fe_transfer_state f = TcDEFERRED_CANCELLED \<or>
      fe_task_state f = Inflight \<and> fe_transfer_state f \<in> {TcFENCED_ACK, TcUNCERTAIN}"
    using hs(3,5) unfolding eq by (cases "fe_task_state ?s") (auto split: if_splits)
qed

lemma steady_collect:
  assumes "calm env (rq_req_id req)" "steady w req"
  shows "steady (fe_world (collect_evidence env w req)) req"
proof -
  let ?f1 = "fence_transfer env (fence_start w req) req"
  have s: "steady (fe_world (fence_start w req)) req" using assms(2) by (simp add: fence_start_def)
  note f1 = steady_transfer [OF assms(1) s]
  note f2 = steady_prefill [OF assms(1) f1, of "owns_p req"]
  show ?thesis
    using steady_decode [OF assms(1) f2] by (simp add: collect_evidence_def Let_def steady_now [OF f1] steady_now [OF f2])
qed

lemma prefill_shape:
  assumes "g = fence_prefill env owned f r"
  shows "fe_d_state g = fe_d_state f" "fe_transfer_state g = fe_transfer_state f" "fe_task_state g = fe_task_state f"
    "fe_target_epoch_changed g = fe_target_epoch_changed f" "fe_source_changed g = fe_source_changed f"
    "\<not> owned \<Longrightarrow> g = f" "owned \<Longrightarrow> \<not> fe_p_epoch_changed g \<Longrightarrow> fe_p_state g \<in> {ABORT_ACK, UNCERTAIN}"
  unfolding assms fence_prefill_def by (auto simp: abort_remote_request_def Let_def)

lemma decode_shape:
  assumes "h = fence_decode env g r"
  shows "fe_p_state h = fe_p_state g" "fe_transfer_state h = fe_transfer_state g" "fe_task_state h = fe_task_state g"
    "fe_p_epoch_changed h = fe_p_epoch_changed g" "fe_source_changed h = fe_source_changed g"
    "\<not> fe_target_epoch_changed h \<Longrightarrow> \<not> fe_target_epoch_changed g"
    "rq_state r \<notin> {KV_PENDING, RECOMPUTING, DECODING} \<Longrightarrow> fe_d_state h = fe_d_state g"
    "rq_state r \<in> {KV_PENDING, RECOMPUTING, DECODING} \<Longrightarrow> \<not> fe_target_epoch_changed h \<Longrightarrow> \<not> fe_source_changed h \<Longrightarrow>
      fe_d_state h \<in> {ABORT_ACK, UNCERTAIN}"
  unfolding assms fence_decode_def by (auto simp: abort_remote_request_def Let_def)

text \<open>The requests the cleanup knows how to end: placed, and their publication settled.\<close>

definition cleanable :: "request_info \<Rightarrow> bool" where
  "cleanable req \<longleftrightarrow>
     (case rq_state req of
        WAITING \<Rightarrow> True
      | PREFILLING \<Rightarrow> rq_prefill_instance req \<noteq> [] \<and> rq_decode_instance req \<noteq> [] \<and>
          rq_publish_outcome req \<in> {''NOT_STARTED'', ''ACKED'', ''UNKNOWN''}
      | KV_PENDING \<Rightarrow> rq_decode_instance req \<noteq> []
      | DECODING \<Rightarrow> rq_decode_instance req \<noteq> []
      | RECOMPUTING \<Rightarrow> rq_decode_instance req \<noteq> []
      | _ \<Rightarrow> False)"

lemma proof_valid:
  assumes "calm env (rq_req_id req)" "steady w req" "cleanable req"
    "rq_state req = PREFILLING \<Longrightarrow> rq_publish_outcome req = ''ACKED''"
    "f = collect_evidence env w req"
    "\<not> fe_p_epoch_changed f" "\<not> fe_target_epoch_changed f" "\<not> fe_source_changed f"
  shows "validate_cleanup_proof (proof_of f req (owns_p req) (owns_d req))"
proof -
  define f1 where "f1 = fence_transfer env (fence_start w req) req"
  define f2 where "f2 = fence_prefill env (owns_p req) f1 req"
  have s: "steady (fe_world (fence_start w req)) req" using assms(2) by (simp add: fence_start_def)
  have n1: "now_req (fe_world f1) req = req"
    unfolding f1_def by (rule steady_now [OF steady_transfer [OF assms(1) s]])
  have n2: "now_req (fe_world f2) req = req"
    unfolding f2_def f1_def by (rule steady_now [OF steady_prefill [OF assms(1) steady_transfer [OF assms(1) s]]])
  have f: "f = fence_decode env f2 req"
    using n1 n2 unfolding assms(5) collect_evidence_def Let_def f1_def [symmetric] by (simp add: f2_def)
  note t = transfer_shape [OF f1_def] and p = prefill_shape [OF f2_def] and d = decode_shape [OF f]
  have clear: "\<not> fe_target_epoch_changed f1" "\<not> fe_source_changed f1" "\<not> fe_p_epoch_changed f2"
    using assms(6-8) p(4,5) d(4-6) by simp_all
  have ps: "fe_p_state f = fe_p_state (fence_start w req)" if "\<not> owns_p req" using that t(1) p(6) d(1) by simp
  have tr: "fe_transfer_state f = fe_transfer_state f1" "fe_task_state f = fe_task_state f1" using p(2,3) d(2,3) by simp_all
  have ds: "fe_d_state f2 = NEVER_DISPATCHED" using t(2) p(1) by simp
  show ?thesis
  proof (cases "rq_state req")
    case PREFILLING
    then show ?thesis using assms(3,4) p(7) clear(3) d(1,7) t(4) tr(1) ds
      by (auto simp: validate_cleanup_proof_def proof_of_def cleanable_def owns_p_def owns_d_def Let_def)
  next
    case KV_PENDING
    then show ?thesis using assms(3,7,8) ps d(8) t(6) clear tr
      by (auto simp: validate_cleanup_proof_def proof_of_def cleanable_def owns_p_def owns_d_def fence_start_def Let_def)
  qed (use assms(3,7,8) ps d(7,8) t(4,5) tr(1) ds in
      \<open>auto simp: validate_cleanup_proof_def proof_of_def cleanable_def owns_p_def owns_d_def fence_start_def Let_def\<close>)
qed

lemma decode_finished_returns:
  assumes "steady w req"
  obtains w1 b where "decode_finished_in w i e None = (w1, Inr b)" "steady w1 req"
proof -
  have known: "slots_known (lw_sched w)" using assms by (simp add: steady_def)
  obtain s x where s: "on_decode_finished (lw_sched w) i e None = (s, x)" by fastforce
  with known obtain b where "x = Inr b"
    by (auto simp: slots_known_def on_decode_finished_def decode_finished_slot_def split: if_splits option.splits)
  moreover have "slots_known s"
    using s known by (auto simp: slots_known_def on_decode_finished_def decode_finished_slot_def dict_simps
      split: if_splits option.splits)
  ultimately show thesis using that [of "with_sched w s" b] s assms by (simp add: decode_finished_in_def steady_def)
qed

lemma fence_returns:
  assumes "calm env (rq_req_id req)" "steady w req" "cleanable req"
    "rq_state req = PREFILLING \<Longrightarrow> rq_publish_outcome req = ''ACKED''"
  obtains w1 x where "fence_and_abort_request env w req = (finish_in w1 (rq_req_id req), Inr x)" "steady w1 req"
proof -
  define f where "f = collect_evidence env w req"
  have st: "steady (fe_world f) req" unfolding f_def by (rule steady_collect [OF assms(1,2)])
  define pf where "pf = proof_of f req (owns_p req) (owns_d req)"
  define u where "u = settle_prefill env f req pf"
  have u: "steady u req" using st by (simp add: u_def settle_prefill_def steady_quarantine steady_prefill_done)
  obtain w1 b where s: "settle_decode env f u req pf = (w1, Inr b)" and w1: "steady w1 req"
    using decode_finished_returns [OF u] u steady_quarantine [OF u] unfolding settle_decode_def by (metis (full_types))
  have "fe_p_epoch_changed f \<or> fe_target_epoch_changed f \<or> fe_source_changed f \<or> validate_cleanup_proof pf"
    using proof_valid [OF assms f_def] unfolding pf_def by blast
  then have "fence_and_abort_request env w req = (finish_in w1 (rq_req_id req), Inr pf)"
    unfolding fence_and_abort_request_def Let_def f_def [symmetric] steady_now [OF st] pf_def [symmetric] u_def [symmetric] s
    by auto
  with w1 show thesis by (rule that [rotated])
qed

lemma finish_no_task: "task_state (gov_finish_request g r) r k = NoTask"
  by (auto simp: task_state_def gov_finish_request_def cancel_def Let_def dict_simps deferred_tasks_def debit_task_def
      cancel_deferred_def op_matches_def split: option.splits)

lemma end_request_returns:
  assumes "steady w req"
  shows "\<exists>w1. end_request env (finish_in w (rq_req_id req)) (rq_req_id req) True = (w1, Inr ()) \<and>
    tracker_get (lw_tracker w1) (rq_req_id req) = None \<and> lw_gov w1 = gov_finish_request (lw_gov w) (rq_req_id req) \<and>
    lw_sched w1 = lw_sched w"
proof (cases "rq_state req \<in> {FINISHED, ABORTED}")
  case True
  then show ?thesis using assms
    by (auto simp: steady_def end_request_def finish_in_def tracker_get_def remove_in_def tracker_remove_def dict_simps)
next
  case False
  then show ?thesis using assms
    by (simp add: steady_def end_request_def finish_in_def transition_in_def transition_def validate_transition_def
      tracker_get_def remove_in_def tracker_remove_def dict_simps)
qed

lemma unknown_returns:
  assumes "calm env (rq_req_id req)" "steady w req"
  shows "\<exists>w1. unknown_dispatch_cleanup env w req = (finish_in w1 (rq_req_id req), Inr ()) \<and> steady w1 req"
proof -
  define current where "current = epoch_matches (lw_sched w) (rq_prefill_instance req) (rq_prefill_instance_epoch req)"
  define w1 where "w1 = (if current then quarantine_in env w (rq_prefill_instance req) None
      (Some (le_owner env, rq_req_id req, rq_command_id req, rq_prefill_instance_epoch req)) else w)"
  have "steady w1 req" using assms(2) by (simp add: w1_def steady_quarantine)
  then obtain w2 b where d: "decode_finished_in w1 (rq_decode_instance req) (Some (rq_decode_instance_epoch req)) None = (w2, Inr b)"
    and w2: "steady w2 req" by (rule decode_finished_returns)
  show ?thesis
    unfolding unknown_dispatch_cleanup_def Let_def current_def [symmetric] w1_def [symmetric] d
    using w2 steady_await [OF assms(1) w2] by (auto simp: abort_remote_request_def Let_def)
qed

lemma undispatched_returns:
  assumes "steady w req"
  shows "\<exists>w1. undispatched_cleanup env w req = (finish_in w1 (rq_req_id req), Inr ()) \<and> steady w1 req"
proof -
  obtain w2 b where d: "decode_finished_in (prefill_done_in w (rq_prefill_instance req) (Some (rq_prefill_instance_epoch req)))
      (rq_decode_instance req) (Some (rq_decode_instance_epoch req)) None = (w2, Inr b)" and w2: "steady w2 req"
    by (rule decode_finished_returns [OF steady_prefill_done [OF assms]])
  show ?thesis unfolding undispatched_cleanup_def Let_def d using w2 by auto
qed

subsection \<open>Properties\<close>


text \<open>A request decoding on \<open>d0\<close>, which acknowledges every abort; no other task interferes.\<close>

definition clean_req_sample :: request_info where
  "clean_req_sample = (new_request ''r'' 1)\<lparr>rq_state := DECODING, rq_prefill_instance := ''p0'', rq_prefill_instance_epoch := ''e0'',
     rq_decode_instance := ''d0'', rq_decode_instance_epoch := ''e1'', rq_publish_outcome := ''ACKED''\<rparr>"

definition clean_world_sample :: "request_info \<Rightarrow> loop_world" where
  "clean_world_sample req = \<lparr>lw_sched = sample_sched, lw_gov = governor_init example_config,
     lw_tracker = tracker_init\<lparr>tk_requests := [(''r'', req)]\<rparr>, lw_removed = [], lw_out = None, lw_metrics = [], lw_calls = []\<rparr>"

definition clean_env_sample :: "bool \<Rightarrow> loop_env" where
  "clean_env_sample answer = \<lparr>le_network = False, le_owner = ''g0'', le_has_abort_transfer = True, le_reply = (\<lambda>_. ReplyValue answer),
     le_output = (\<lambda>_ req_id _. \<lparr>ov_req_id = req_id, ov_instance_epoch = ''e1'', ov_operation_id = [], ov_token_ids = [],
       ov_output_seq_no = 0, ov_terminal = False, ov_error = None\<rparr>), le_between = (\<lambda>_ w. w), le_token = ''t'', le_now = 9\<rparr>"

lemmas clean_sample = clean_req_sample_def clean_world_sample_def clean_env_sample_def

lemma clean_env_sample_quiet: "routes_stable (clean_env_sample b) req" "calm (clean_env_sample b) i"
  by (simp_all add: routes_stable_def calm_def clean_env_sample_def)

lemma clean_sample_now:
  "rq_req_id req = ''r'' \<Longrightarrow> tracker_get (lw_tracker (clean_world_sample req)) (rq_req_id req) = Some req"
  by (simp add: clean_world_sample_def tracker_get_def dict_simps)

lemma clean_sample_steady: "rq_req_id req = ''r'' \<Longrightarrow> steady (clean_world_sample req) req"
  using clean_sample_now [of req]
  by (simp add: steady_def slots_known_def clean_world_sample_def sample_sched_def sched_eval)

lemma clean_sample_settled:
  "fence_and_abort_request (clean_env_sample True) (clean_world_sample clean_req_sample) clean_req_sample = (w', Inr pf) \<Longrightarrow>
     \<not> cpf_d_epoch_changed pf \<and> \<not> dhas (pd_quarantined (lw_sched w')) ''d0'' \<and> cpf_request_state pf = DECODING"
  by (auto simp: clean_sample fence_and_abort_request_def collect_evidence_def fence_transfer_def fence_start_def
      owns_p_def owns_d_def fence_prefill_def fence_decode_def abort_remote_request_def await_call_def now_req_def tracker_get_def
      new_request_def sample_sched_def sched_eval epoch_matches_def reply_ok_def proof_of_def Let_def settle_decode_def
      settle_prefill_def decode_finished_in_def on_decode_finished_def decode_finished_slot_def stale_epoch_def
      d_slot_releasable_def finish_in_def quarantine_in_def split: if_splits prod.splits sum.splits)




text \<open>
  C11.  The states the cleanup has no proof for.  A request that loads a cached prefix, prefills its suffix, or
  is already finished or aborted but still tracked, and whose D instance is the one it was given, can not
  be cleaned up over the in-process client: the cleanup raises before it asks any instance or changes
  anything, so the request stays tracked.
\<close>

theorem cleanup_unsupported_states:
  assumes "\<not> le_network env" and "tracker_get (lw_tracker w) (rq_req_id req) = Some req"
    and "rq_state req \<in> {AFFINITY_LOADING, PREFIX_PREFILLING, FINISHED, ABORTED}"
    and "epoch_matches (lw_sched w) (rq_decode_instance req) (rq_decode_instance_epoch req)"
  shows "canonical_cleanup env w (rq_req_id req) handle = (w, Inl InvalidCleanupProof)"
proof -
  have p: "\<not> owns_p req" and s: "rq_state req \<noteq> PREFILLING" "rq_state req \<notin> {KV_PENDING, RECOMPUTING}"
    "rq_state req \<notin> {KV_PENDING, RECOMPUTING, DECODING}"
    using assms(3) by (auto simp: owns_p_def)
  have n: "now_req w req = req" using assms(2) by (simp add: now_req_def)
  have t: "fence_transfer env (fence_start w req) req = fence_start w req" using s(2) by (simp add: fence_transfer_def)
  have f: "fe_world (fence_start w req) = w" "\<not> fe_p_epoch_changed (fence_start w req)"
    "\<not> fe_target_epoch_changed (fence_start w req)" "\<not> fe_source_changed (fence_start w req)"
    using p assms(4) by (simp_all add: fence_start_def)
  have c: "collect_evidence env w req = fence_start w req"
    using s(3) p unfolding collect_evidence_def Let_def t f(1) n by (simp add: fence_prefill_def f(1) n fence_decode_def)
  have "\<not> validate_cleanup_proof (proof_of (fence_start w req) req (owns_p req) (owns_d req))"
    using assms(3) by (auto simp: validate_cleanup_proof_def proof_of_def Let_def)
  then have "fence_and_abort_request env w req = (w, Inl InvalidCleanupProof)"
    unfolding fence_and_abort_request_def Let_def c f(1) n using f(2-4) by simp
  then show ?thesis using assms(1) s(1) by (simp add: canonical_cleanup_def assms(2) Let_def)
qed

definition loading_req_sample :: request_info where
  "loading_req_sample = clean_req_sample\<lparr>rq_state := AFFINITY_LOADING\<rparr>"

theorem cleanup_unsupported_states_witness:
  "canonical_cleanup (clean_env_sample True) (clean_world_sample loading_req_sample) ''r'' 3 =
     (clean_world_sample loading_req_sample, Inl InvalidCleanupProof)"
proof -
  have r: "rq_req_id loading_req_sample = ''r''" "rq_state loading_req_sample = AFFINITY_LOADING"
    "rq_decode_instance loading_req_sample = ''d0''" "rq_decode_instance_epoch loading_req_sample = ''e1''"
    by (simp_all add: loading_req_sample_def clean_req_sample_def new_request_def)
  have e: "epoch_matches (lw_sched (clean_world_sample loading_req_sample)) ''d0'' ''e1''"
    by (simp add: clean_world_sample_def epoch_matches_def sample_sched_def sched_eval)
  have "\<not> le_network (clean_env_sample True)" by (simp add: clean_env_sample_def)
  from cleanup_unsupported_states [OF this clean_sample_now [OF r(1)], unfolded r, OF _ e] show ?thesis by simp
qed

end
