(* ===== verification/Spec2Isabelle.thy ===== *)
theory Spec2Isabelle
  imports Fingerprint Endpoint_Ref Seq_State Worker_Registry PD_Scheduler Transfer_Governor Prefix_Index Affinity_Router
    Gateway_Output Replacement_Store Store_Durability Resource_Release Release_Evidence Prefix_Reconciler Prefix_Loader Nats_Queue Canonical_Cleanup
begin

text \<open>
  Verification of prism-serve, the gateway of a disaggregated inference service.  Requests are prefilled
  on one instance (\<open>P\<close>), their KV cache is moved to another (\<open>D\<close>) that decodes, and a directory of cached
  prefixes lets a new request start on a D instance that already holds part of its prompt.  All paths
  below are relative to \<^verbatim>\<open>src/prism_serve/\<close>.

  \<^bold>\<open>The parts and their theories.\<close>
  \<^item> \<open>Prism_Prelude\<close>: dictionaries as association lists, sums over them, \<open>min\<close>/\<open>max\<close> by key, the locales
    \<open>counter_ledger\<close> and \<open>op_system\<close>.  \<open>Json\<close>: JSON values, canonical key order, digests.
  \<^item> \<open>Fingerprint\<close> (\<^verbatim>\<open>router/fingerprint.py\<close>): chained block hashes of a prompt.  Equal hashes mean a
    shared prefix as long as the hash function does not collide on the inputs involved.
  \<^item> \<open>Endpoint_Ref\<close> (the part of \<^verbatim>\<open>router/http_rpc.py\<close> that is not transport): references, their
    allocator, and the check that binds a release snapshot to the request for it.
  \<^item> \<open>Seq_State\<close> (\<^verbatim>\<open>scheduler/sequence_state.py\<close>): requests, their transitions and the tracker.
  \<^item> \<open>Worker_Registry\<close> (\<^verbatim>\<open>router/worker_registry.py\<close>): identities and capabilities of the four workers
    and the admission decision.
  \<^item> \<open>PD_Scheduler\<close> (\<^verbatim>\<open>scheduler/scheduler.py\<close>): choice of instances, decode slot leases, quarantine.
  \<^item> \<open>Transfer_Governor\<close> (\<^verbatim>\<open>scheduler/transfer_governor.py\<close>): flow control of KV transfers.
  \<^item> \<open>Prefix_Index\<close>, \<open>Prefix_Reconciler\<close>, \<open>Affinity_Router\<close> (\<^verbatim>\<open>router/prefix_index.py\<close>,
    \<^verbatim>\<open>reconciler.py\<close>, \<^verbatim>\<open>router.py\<close>, \<^verbatim>\<open>topology.py\<close>): where prefixes are cached, how that knowledge is kept
    in step with the workers, and which cached prefix a request should use.
  \<^item> \<open>Gateway_Output\<close> (\<^verbatim>\<open>gateway/output.py\<close>): the tokens delivered to the client.
  \<^item> \<open>Replacement_Store\<close>, \<open>Store_Durability\<close> (\<^verbatim>\<open>scheduler/replacement_store.py\<close>): the durable record of
    release decisions, and what survives failed writes and restarts.
  \<^item> \<open>Resource_Release\<close>, \<open>Release_Evidence\<close> (\<^verbatim>\<open>scheduler/resource_release.py\<close>): giving decode slots back,
    interleaved with the scheduler and the store.

  \<^bold>\<open>How state and effects correspond.\<close>  A Python object is a record whose fields carry the names of its
  attributes behind a short prefix; a method is a function from the record and the arguments to the
  record and the result.  An exception is the left summand of a sum, and where the code has written
  something before it raises, the written state is returned beside it (\<open>outcome\<close>).  Readings of the
  clock, random tokens and the answers of remote calls are arguments; a hash function is a parameter.
  Calls to the metrics object are logged in the order they are made.  Awaits at which other tasks can
  run are either points of an explicit interleaving (\<open>Release_Evidence\<close>) or said to be atomic in the
  text of the theory.

  \<^bold>\<open>What the lemmas show.\<close>  Every component with state has an invariant kept by every operation, failed
  ones included, stated once through the locale \<open>op_system\<close>; capacity, byte and slot accounts are exact;
  the prefix index refines a set of locations with cursors; the store refines an atomic record of
  decisions; a slot is released only with evidence; what is read from a worker or from the disk is
  bound to the request it answers.

  \<^bold>\<open>Bounds and fuel.\<close>  The only recursion that is not structural is the flushing of deferred transfers
  (\<open>flush_deferred\<close>), because a client may complete a transfer inside the call that starts it; it takes
  fuel, one more than the number of deferred tasks, and \<open>governor_calls_return\<close> shows that this is always
  enough.

  \<^bold>\<open>Not modelled.\<close>  \<^verbatim>\<open>gateway/app.py\<close> (HTTP routes, start-up and shutdown of the process), the HTTP and
  network clients (\<^verbatim>\<open>router/http_rpc.py\<close> classes, \<^verbatim>\<open>router/network_rpc.py\<close>, \<^verbatim>\<open>router/rpc.py\<close>), the NATS
  transport (\<^verbatim>\<open>scheduler/queue.py\<close>), the Prometheus collector (\<^verbatim>\<open>metrics/collector.py\<close>), the operator tools
  under \<^verbatim>\<open>src/scripts\<close> and \<^verbatim>\<open>src/bench\<close>: they are input and output around the components above.  Floating
  point is exact real arithmetic; thread scheduling of the event loop is modelled only where a theory
  says so.
\<close>

end
